(* ===== verification/Facet_Prelude.thy ===== *)
theory Facet_Prelude
  imports Main "HOL-Library.Word" "HOL-Library.AList"
begin

text \<open>
  Shared ground of the development: names for the machine types the Go sources use, the binary
  search of Go's \<^verbatim>\<open>sort\<close> package, Go maps as association lists, and the lemmas on them that
  the components share.
\<close>

named_theorems go_map \<open>facts on Go maps read as association lists\<close>

section \<open>Machine types\<close>

type_synonym byte = "8 word"
type_synonym u16 = "16 word"
type_synonym u32 = "32 word"
type_synonym u64 = "64 word"
type_synonym bytes = "byte list"

section \<open>Binary search\<close>

text \<open>
  \<^verbatim>\<open>sort.Search(n, f)\<close> of the Go standard library: the loop halves \<open>[i, j)\<close>, reading \<open>f\<close> at the
  midpoint only.
\<close>

function search_loop :: "(nat \<Rightarrow> bool) \<Rightarrow> nat \<Rightarrow> nat \<Rightarrow> nat" where
  "search_loop f i j =
     (if i < j
      then let h = (i + j) div 2 in if \<not> f h then search_loop f (Suc h) j else search_loop f i h
      else i)"
  by pat_completeness auto
termination
  by (relation "measure (\<lambda>(f, i, j). j - i)") auto

declare search_loop.simps [simp del]

definition sort_search :: "nat \<Rightarrow> (nat \<Rightarrow> bool) \<Rightarrow> nat" where
  "sort_search n f = search_loop f 0 n"

text \<open>On a predicate that never turns false again, the loop returns the first index where it holds.\<close>

lemma search_loop_correct:
  assumes "i \<le> j"
    and "\<And>k l. k \<le> l \<Longrightarrow> l < n \<Longrightarrow> f k \<Longrightarrow> f l"
    and "\<And>k. k < i \<Longrightarrow> \<not> f k" and "\<And>k. j \<le> k \<Longrightarrow> k < n \<Longrightarrow> f k" and "j \<le> n"
  shows "i \<le> search_loop f i j \<and> search_loop f i j \<le> j \<and> (\<forall>k < search_loop f i j. \<not> f k)
    \<and> (\<forall>k. search_loop f i j \<le> k \<longrightarrow> k < n \<longrightarrow> f k)"
  using assms
proof (induction f i j rule: search_loop.induct)
  case (1 f i j)
  show ?case
  proof (cases "i < j")
    case False
    then have "search_loop f i j = i" by (simp add: search_loop.simps [of f i j])
    with False "1.prems" show ?thesis by auto
  next
    case True
    define h where "h = (i + j) div 2"
    have h: "i \<le> h" "h < j" using True unfolding h_def by auto
    show ?thesis
    proof (cases "f h")
      case fh: True
      have pre: "\<And>k. h \<le> k \<Longrightarrow> k < n \<Longrightarrow> f k" using "1.prems"(2) fh by blast
      have "i \<le> search_loop f i h \<and> search_loop f i h \<le> h \<and> (\<forall>k < search_loop f i h. \<not> f k)
          \<and> (\<forall>k. search_loop f i h \<le> k \<longrightarrow> k < n \<longrightarrow> f k)"
        using "1.IH"(2) [OF True h_def] fh h "1.prems" pre by auto
      moreover have "search_loop f i j = search_loop f i h"
        using True fh by (simp add: search_loop.simps [of f i j] h_def Let_def)
      ultimately show ?thesis using h by auto
    next
      case fh: False
      have pre: "\<And>k. k < Suc h \<Longrightarrow> \<not> f k"
        using "1.prems"(2,5) fh h by (metis less_Suc_eq_le order_less_le_trans)
      have "Suc h \<le> search_loop f (Suc h) j \<and> search_loop f (Suc h) j \<le> j
          \<and> (\<forall>k < search_loop f (Suc h) j. \<not> f k)
          \<and> (\<forall>k. search_loop f (Suc h) j \<le> k \<longrightarrow> k < n \<longrightarrow> f k)"
        using "1.IH"(1) [OF True h_def] fh h "1.prems" pre by auto
      moreover have "search_loop f i j = search_loop f (Suc h) j"
        using True fh by (simp add: search_loop.simps [of f i j] h_def Let_def)
      ultimately show ?thesis using h by auto
    qed
  qed
qed

lemma sort_search_correct:
  assumes "\<And>k l. k \<le> l \<Longrightarrow> l < n \<Longrightarrow> f k \<Longrightarrow> f l"
  shows "sort_search n f \<le> n" and "\<And>k. k < sort_search n f \<Longrightarrow> \<not> f k"
    and "\<And>k. sort_search n f \<le> k \<Longrightarrow> k < n \<Longrightarrow> f k"
  using search_loop_correct [of 0 n n f] assms by (auto simp: sort_search_def)

text \<open>A search over a list splits it at the first element that satisfies the predicate.\<close>

lemma sort_search_split:
  assumes "sorted_wrt (\<lambda>a b. P a \<longrightarrow> P b) xs"
  defines "i \<equiv> sort_search (length xs) (\<lambda>k. P (xs ! k))"
  shows "i \<le> length xs" and "\<forall>x \<in> set (take i xs). \<not> P x" and "\<forall>x \<in> set (drop i xs). P x"
proof -
  have mono: "P (xs ! l)" if "k \<le> l" "l < length xs" "P (xs ! k)" for k l
    using assms(1) that by (metis le_neq_implies_less sorted_wrt_iff_nth_less)
  have s: "i \<le> length xs" "\<And>k. k < i \<Longrightarrow> \<not> P (xs ! k)"
    "\<And>k. i \<le> k \<Longrightarrow> k < length xs \<Longrightarrow> P (xs ! k)"
    unfolding i_def using sort_search_correct [of "length xs" "\<lambda>k. P (xs ! k)"] mono by blast+
  show "i \<le> length xs" using s(1) by blast
  then show "\<forall>x \<in> set (take i xs). \<not> P x" using s(2) by (auto simp: in_set_conv_nth)
  show "\<forall>x \<in> set (drop i xs). P x"
  proof
    fix x assume "x \<in> set (drop i xs)"
    then obtain k where "k < length (drop i xs)" "x = drop i xs ! k" by (auto simp: in_set_conv_nth)
    then show "P x" using s(3) [of "i + k"] by auto
  qed
qed

section \<open>Go maps\<close>

text \<open>
  A Go map is an association list: \<open>map_of\<close> looks up, \<open>AList.update\<close> assigns, \<open>AList.delete\<close> deletes. The order of
  the list stands for the iteration order that Go leaves open; the theorems hold for every list.
\<close>

declare map_of_eq_Some_iff [simp del]

lemma map_of_update [simp, go_map]: "map_of (AList.update k v m) k' = (if k' = k then Some v else map_of m k')"
  by (simp add: update_conv')

lemma map_of_delete [simp, go_map]: "map_of (AList.delete k m) k' = (if k' = k then None else map_of m k')"
  by (simp add: delete_conv')

lemma distinct_keys_update [simp, go_map]:
  "distinct (map fst m) \<Longrightarrow> distinct (map fst (AList.update k v m))"
  by (rule distinct_update)

lemma distinct_keys_delete [simp, go_map]:
  "distinct (map fst m) \<Longrightarrow> distinct (map fst (AList.delete k m))"
  by (rule distinct_delete)

lemma set_delete [go_map]: "set (AList.delete k m) = {e \<in> set m. fst e \<noteq> k}"
  by (auto simp: AList.delete_eq)

text \<open>The values a map holds.\<close>

definition vals :: "('k \<times> 'v) list \<Rightarrow> 'v set" where
  "vals m = ran (map_of m)"

lemma vals_iff: "a \<in> vals m \<longleftrightarrow> (\<exists>k. map_of m k = Some a)"
  by (auto simp: vals_def ran_def)

lemma vals_Nil [simp]: "vals [] = {}"
  by (simp add: vals_def)

lemma vals_update_fresh:
  "map_of m k = None \<Longrightarrow> vals (AList.update k v m) = insert v (vals m)"
  by (simp add: vals_def update_conv' ran_map_upd)

lemma vals_delete_sub: "vals (AList.delete k m) \<subseteq> vals m"
  by (auto simp: vals_iff split: if_splits)

section \<open>Decimal numbers\<close>

text \<open>\<^verbatim>\<open>strconv.FormatUint(n, 10)\<close>.\<close>

fun dec_string :: "nat \<Rightarrow> string" where
  "dec_string n = (if n < 10 then [char_of (48 + n)] else dec_string (n div 10) @ [char_of (48 + n mod 10)])"

declare dec_string.simps [simp del]

end
