(* ===== verification/Interval_Spec.thy ===== *)
theory Interval_Spec
  imports Facet_Prelude
begin

text \<open>
  The contract of a set kept as ranges: the cache's present bytes and the byte-range locks of an NFS
  lock state both promise it. A state denotes a set of elements; adding a range is a union, deleting
  one is a difference. The clients of such a set are proved once, from the contract.
\<close>

datatype 'r span_op = Add 'r | Del 'r

primrec span_run :: "('s \<Rightarrow> 'r \<Rightarrow> 's) \<Rightarrow> ('s \<Rightarrow> 'r \<Rightarrow> 's) \<Rightarrow> 's \<Rightarrow> 'r span_op list \<Rightarrow> 's" where
  "span_run ins rem s [] = s"
| "span_run ins rem s (x # xs) =
     span_run ins rem (case x of Add r \<Rightarrow> ins s r | Del r \<Rightarrow> rem s r) xs"

primrec den_run :: "('r \<Rightarrow> 'e set) \<Rightarrow> 'e set \<Rightarrow> 'r span_op list \<Rightarrow> 'e set" where
  "den_run sp A [] = A"
| "den_run sp A (x # xs) = den_run sp (case x of Add r \<Rightarrow> A \<union> sp r | Del r \<Rightarrow> A - sp r) xs"

fun op_range :: "'r span_op \<Rightarrow> 'r" where
  "op_range (Add r) = r"
| "op_range (Del r) = r"

locale span_set =
  fixes valid :: "'r \<Rightarrow> bool" and sp :: "'r \<Rightarrow> 'e set" and ok :: "'s \<Rightarrow> bool" and den :: "'s \<Rightarrow> 'e set"
    and ins :: "'s \<Rightarrow> 'r \<Rightarrow> 's" and rem :: "'s \<Rightarrow> 'r \<Rightarrow> 's"
  assumes ok_ins: "ok s \<Longrightarrow> valid r \<Longrightarrow> ok (ins s r)"
    and den_ins: "ok s \<Longrightarrow> valid r \<Longrightarrow> den (ins s r) = den s \<union> sp r"
    and ok_rem: "ok s \<Longrightarrow> valid r \<Longrightarrow> ok (rem s r)"
    and den_rem: "ok s \<Longrightarrow> valid r \<Longrightarrow> den (rem s r) = den s - sp r"
begin

lemma run_refines:
  assumes "ok s" "\<forall>x \<in> set xs. valid (op_range x)"
  shows "ok (span_run ins rem s xs) \<and> den (span_run ins rem s xs) = den_run sp (den s) xs"
  using assms
  by (induction xs arbitrary: s) (auto simp: ok_ins den_ins ok_rem den_rem split: span_op.splits)

end

text \<open>
  A representation that the elements determine: two runs that denote the same set end in the same
  state, so that the order in which ranges arrive cannot be seen.
\<close>

locale canonical_span_set = span_set +
  assumes canonical: "ok s \<Longrightarrow> ok t \<Longrightarrow> den s = den t \<Longrightarrow> s = t"
begin

lemma run_determined:
  assumes "ok s" "ok t" "\<forall>x \<in> set xs. valid (op_range x)" "\<forall>x \<in> set ys. valid (op_range x)"
    "den_run sp (den s) xs = den_run sp (den t) ys"
  shows "span_run ins rem s xs = span_run ins rem t ys"
  using assms by (intro canonical) (simp_all add: run_refines)

end

text \<open>A set with a size that counts its elements.\<close>

locale sized_span_set = span_set +
  fixes sz :: "'c \<Rightarrow> nat"
  assumes sz_card: "ok s \<Longrightarrow> sz s = card (den s)"
    and fin_den: "ok s \<Longrightarrow> finite (den s)" and fin_sp: "finite (sp r)"
begin

lemma sz_ins: "ok s \<Longrightarrow> valid r \<Longrightarrow> sz (ins s r) = sz s + card (sp r - den s)"
  using card_Un_disjoint [of "den s" "sp r - den s"]
  by (simp add: sz_card ok_ins den_ins fin_den fin_sp)

lemma sz_rem: "ok s \<Longrightarrow> valid r \<Longrightarrow> sz (rem s r) + card (sp r \<inter> den s) = sz s"
  using card_Un_disjoint [of "den s - sp r" "sp r \<inter> den s"]
  by (simp add: sz_card ok_rem den_rem fin_den fin_sp Un_Diff_Int Int_commute Diff_Int_distrib2)

end

end
