(* ===== verification/Range_Set.thy ===== *)
theory Range_Set
  imports Interval_Spec
begin

text \<open>
  \<^verbatim>\<open>facetcache/ranges.go\<close>: the sorted, coalesced set of byte ranges that records which bytes of a
  cached file are present. Offsets are \<open>int\<close>; \<open>rs_bounded_insert\<close> and its companions
  show that sets and arguments within \<open>[0, M]\<close> give results within \<open>[0, M]\<close>, so that no \<open>int64\<close>
  operation of the code wraps when \<open>M < 2 ^ 63\<close>. A set of ranges denotes the set of its bytes (\<open>cover\<close>).
\<close>

named_theorems range_defs \<open>definitions of the range-set operations\<close>

section \<open>Definitions\<close>

record rng =
  pos :: int
  rsize :: int

type_synonym rangeSet = "rng list"

definition rend :: "rng \<Rightarrow> int" where
  "rend r = pos r + rsize r"

definition rs_search :: "rangeSet \<Rightarrow> int \<Rightarrow> nat" where
  "rs_search s p = sort_search (length s) (\<lambda>i. rend (s ! i) > p)"

text \<open>The loop of \<^verbatim>\<open>insert\<close> that extends the merge span to the right.\<close>

function merge_end :: "rangeSet \<Rightarrow> int \<Rightarrow> nat \<Rightarrow> nat" where
  "merge_end s e j = (if j < length s \<and> pos (s ! j) \<le> e then merge_end s e (Suc j) else j)"
  by pat_completeness auto
termination
  by (relation "measure (\<lambda>(s, e, j). length s - j)") auto

declare merge_end.simps [simp del]

definition rs_insert :: "rangeSet \<Rightarrow> rng \<Rightarrow> rangeSet" where
  "rs_insert s r =
     (if rsize r \<le> 0 then s
      else let i = sort_search (length s) (\<lambda>k. rend (s ! k) \<ge> pos r);
               j = merge_end s (rend r) i
           in if i = j then take i s @ [r] @ drop i s
              else let p = min (pos r) (pos (s ! i)); e = max (rend r) (rend (s ! (j - 1)))
                   in take i s @ [\<lparr>pos = p, rsize = e - p\<rparr>] @ drop j s)"

text \<open>The loop of \<^verbatim>\<open>remove\<close> over the entries from the first one that ends after \<open>r.pos\<close>.\<close>

fun remove_loop :: "rng \<Rightarrow> rng list \<Rightarrow> rng list" where
  "remove_loop r [] = []"
| "remove_loop r (e # es) =
     (if pos e \<ge> rend r then e # es
      else (if pos e < pos r then [\<lparr>pos = pos e, rsize = pos r - pos e\<rparr>] else [])
        @ (if rend e > rend r then [\<lparr>pos = rend r, rsize = rend e - rend r\<rparr>] else [])
        @ remove_loop r es)"

definition rs_remove :: "rangeSet \<Rightarrow> rng \<Rightarrow> rangeSet" where
  "rs_remove s r =
     (if rsize r \<le> 0 then s
      else let i = rs_search s (pos r)
           in if i = length s then s else take i s @ remove_loop r (drop i s))"

definition rs_present :: "rangeSet \<Rightarrow> rng \<Rightarrow> bool" where
  "rs_present s r =
     (if rsize r \<le> 0 then True
      else let i = rs_search s (pos r)
           in i < length s \<and> pos (s ! i) \<le> pos r \<and> rend (s ! i) \<ge> rend r)"

definition findMissing :: "rangeSet \<Rightarrow> rng \<Rightarrow> rng" where
  "findMissing s r =
     (if rsize r \<le> 0 then \<lparr>pos = pos r, rsize = 0\<rparr>
      else let i = rs_search s (pos r)
           in if i < length s \<and> pos (s ! i) \<le> pos r
              then let covered = rend (s ! i) - pos r
                   in if covered \<ge> rsize r then \<lparr>pos = rend r, rsize = 0\<rparr>
                      else \<lparr>pos = pos r + covered, rsize = rsize r - covered\<rparr>
              else r)"

text \<open>
  The loop of \<^verbatim>\<open>missingWithin\<close>. On a list of ranges that is not sorted it need not end, so that it is a
  partial function: \<open>None\<close> is a run that never returns.
\<close>

partial_function (option) missing_loop :: "rangeSet \<Rightarrow> int \<Rightarrow> int \<Rightarrow> rng list \<Rightarrow> rng list option" where
  "missing_loop s e p dst =
     (if p < e
      then let m = findMissing s \<lparr>pos = p, rsize = e - p\<rparr>
           in if rsize m = 0 then Some dst
              else let i = rs_search s (pos m);
                       q = (if i < length s \<and> pos (s ! i) < rend m then pos (s ! i) else rend m)
                   in missing_loop s e q (dst @ [\<lparr>pos = pos m, rsize = q - pos m\<rparr>])
      else Some dst)"

declare missing_loop.simps [code]

definition missingWithin :: "rangeSet \<Rightarrow> rng \<Rightarrow> rng list \<Rightarrow> rng list option" where
  "missingWithin s r dst = missing_loop s (rend r) (pos r) dst"

fun rs_size :: "rangeSet \<Rightarrow> int" where
  "rs_size [] = 0"
| "rs_size (e # s) = rsize e + rs_size s"

definition rs_clone :: "rangeSet \<Rightarrow> rangeSet" where
  "rs_clone s = (if length s = 0 then [] else map (\<lambda>i. s ! i) [0..<length s])"

lemmas [range_defs] = rs_insert_def rs_remove_def rs_present_def findMissing_def rs_search_def

section \<open>Meaning and invariant\<close>

definition span :: "rng \<Rightarrow> int set" where
  "span r = {pos r ..< rend r}"

definition cover :: "rangeSet \<Rightarrow> int set" where
  "cover s = (\<Union>r \<in> set s. span r)"

text \<open>Sorted, coalesced, non-empty: consecutive entries neither overlap nor touch.\<close>

definition rs_inv :: "rangeSet \<Rightarrow> bool" where
  "rs_inv s \<longleftrightarrow> sorted_wrt (\<lambda>a b. rend a < pos b) s \<and> (\<forall>r \<in> set s. 0 < rsize r)"

definition rs_bounded :: "int \<Rightarrow> rangeSet \<Rightarrow> bool" where
  "rs_bounded M s \<longleftrightarrow> (\<forall>r \<in> set s. 0 \<le> pos r \<and> rend r \<le> M)"

lemma rend_simps [simp]: "rend \<lparr>pos = p, rsize = n\<rparr> = p + n"
  by (simp add: rend_def)

lemma mem_span [simp]: "x \<in> span r \<longleftrightarrow> pos r \<le> x \<and> x < rend r"
  by (simp add: span_def)

lemma cover_simps [simp]:
  "cover [] = {}" "cover (r # s) = span r \<union> cover s" "cover (s @ t) = cover s \<union> cover t"
  by (auto simp: cover_def)

lemma rs_size_append [simp]: "rs_size (s @ t) = rs_size s + rs_size t"
  by (induction s) auto

lemma rs_inv_simps [simp]:
  "rs_inv []"
  "rs_inv (r # s) \<longleftrightarrow> 0 < rsize r \<and> (\<forall>x \<in> set s. rend r < pos x) \<and> rs_inv s"
  "rs_inv (s @ t) \<longleftrightarrow> rs_inv s \<and> rs_inv t \<and> (\<forall>x \<in> set s. \<forall>y \<in> set t. rend x < pos y)"
  by (auto simp: rs_inv_def sorted_wrt_append)

lemma rs_inv_size: "rs_inv s \<Longrightarrow> r \<in> set s \<Longrightarrow> pos r < rend r"
  by (simp add: rs_inv_def rend_def)

lemma rs_inv_ends: "rs_inv s \<Longrightarrow> sorted_wrt (\<lambda>a b. rend a < rend b) s"
proof (induction s)
  case (Cons a s)
  then show ?case using rs_inv_size [of s] by force
qed simp

text \<open>Both searches split an ordered set at the query point.\<close>

lemma rs_search_split:
  assumes "rs_inv s"
  shows "rs_search s p \<le> length s" "\<forall>x \<in> set (take (rs_search s p) s). rend x \<le> p"
    "\<forall>x \<in> set (drop (rs_search s p) s). p < rend x"
proof -
  have "sorted_wrt (\<lambda>a b. p < rend a \<longrightarrow> p < rend b) s"
    by (rule sorted_wrt_mono_rel [OF _ rs_inv_ends [OF assms]]) auto
  note sp = sort_search_split [OF this, folded rs_search_def, unfolded not_less]
  show "rs_search s p \<le> length s" by (rule sp(1))
  show "\<forall>x \<in> set (take (rs_search s p) s). rend x \<le> p" by (rule sp(2))
  show "\<forall>x \<in> set (drop (rs_search s p) s). p < rend x" by (rule sp(3))
qed

lemma rs_split_at:
  assumes "rs_inv s"
  obtains L R where "s = L @ R" "rs_search s p = length L" "\<forall>x \<in> set L. rend x \<le> p"
    "\<forall>x \<in> set R. p < rend x" "rs_inv L" "rs_inv R" "\<forall>x \<in> set L. \<forall>y \<in> set R. rend x < pos y"
proof (rule that [of "take (rs_search s p) s" "drop (rs_search s p) s"])
  let ?i = "rs_search s p"
  have inv: "rs_inv (take ?i s @ drop ?i s)" using assms by simp
  show "rs_inv (take ?i s)" "rs_inv (drop ?i s)"
    "\<forall>x \<in> set (take ?i s). \<forall>y \<in> set (drop ?i s). rend x < pos y"
    using inv unfolding rs_inv_simps(3) by blast+
qed (simp_all add: rs_search_split [OF assms] min_absorb2)

lemma merge_split_at:
  assumes "rs_inv s"
  obtains L R where "s = L @ R" "sort_search (length s) (\<lambda>k. rend (s ! k) \<ge> p) = length L"
    "\<forall>x \<in> set L. rend x < p" "\<forall>x \<in> set R. p \<le> rend x" "rs_inv L" "rs_inv R"
    "\<forall>x \<in> set L. \<forall>y \<in> set R. rend x < pos y"
proof -
  let ?i = "sort_search (length s) (\<lambda>k. rend (s ! k) \<ge> p)"
  have "sorted_wrt (\<lambda>a b. p \<le> rend a \<longrightarrow> p \<le> rend b) s"
    by (rule sorted_wrt_mono_rel [OF _ rs_inv_ends [OF assms]]) auto
  note sp = sort_search_split [OF this, unfolded not_le]
  have "rs_inv (take ?i s @ drop ?i s)" using assms by simp
  then have inv: "rs_inv (take ?i s)" "rs_inv (drop ?i s)"
    "\<forall>x \<in> set (take ?i s). \<forall>y \<in> set (drop ?i s). rend x < pos y"
    unfolding rs_inv_simps(3) by blast+
  show thesis
    by (rule that [OF append_take_drop_id [symmetric] _ sp(2,3) inv]) (simp add: sp(1) min_absorb2)
qed

lemma merge_end_eq:
  "j \<le> length s \<Longrightarrow> merge_end s e j = j + length (takeWhile (\<lambda>x. pos x \<le> e) (drop j s))"
proof (induction s e j rule: merge_end.induct)
  case (1 s e j)
  show ?case
  proof (cases "j < length s")
    case True
    then have "drop j s = s ! j # drop (Suc j) s" by (simp add: Cons_nth_drop_Suc)
    with 1 True show ?thesis by (simp add: merge_end.simps [of s e j])
  next
    case False
    with 1 have "j = length s" by simp
    then show ?thesis by (subst merge_end.simps) simp
  qed
qed

section \<open>Insertion\<close>

text \<open>The three parts of an insertion: entries before \<open>r\<close>, entries merged with it, entries after it.\<close>

lemma rs_insert_split:
  assumes "rs_inv s" "0 < rsize r"
  obtains L ms R where "s = L @ ms @ R"
    "rs_insert s r = (if ms = [] then L @ r # R
       else L @ \<lparr>pos = min (pos r) (pos (hd ms)),
                 rsize = max (rend r) (rend (last ms)) - min (pos r) (pos (hd ms))\<rparr> # R)"
    "\<forall>x \<in> set L. rend x < pos r" "\<forall>x \<in> set ms. pos x \<le> rend r \<and> pos r \<le> rend x"
    "\<forall>x \<in> set R. rend r < pos x"
proof -
  obtain L T where LT: "s = L @ T" "sort_search (length s) (\<lambda>k. rend (s ! k) \<ge> pos r) = length L"
    "\<forall>x \<in> set L. rend x < pos r" "\<forall>x \<in> set T. pos r \<le> rend x" "rs_inv T"
    using merge_split_at [OF assms(1), of "pos r"] by metis
  define ms where "ms = takeWhile (\<lambda>x. pos x \<le> rend r) T"
  define R where "R = dropWhile (\<lambda>x. pos x \<le> rend r) T"
  have T: "T = ms @ R" by (simp add: ms_def R_def)
  have j: "merge_end s (rend r) (length L) = length L + length ms"
    by (simp add: merge_end_eq LT(1) ms_def)
  have R: "\<forall>x \<in> set R. rend r < pos x"
  proof (cases R)
    case (Cons y ys)
    then have "rend r < pos y" unfolding R_def
      by (metis dropWhile_eq_Cons_conv not_le)
    moreover have "\<forall>z \<in> set ys. rend y < pos z" "0 < rsize y" using LT(5) T Cons by auto
    ultimately show ?thesis using Cons by (fastforce simp: rend_def)
  qed simp
  have "rs_insert s r = (if ms = [] then L @ r # R
       else L @ \<lparr>pos = min (pos r) (pos (hd ms)),
                 rsize = max (rend r) (rend (last ms)) - min (pos r) (pos (hd ms))\<rparr> # R)"
  proof (cases "ms = []")
    case True
    then show ?thesis unfolding rs_insert_def Let_def LT(2) j using assms(2) LT(1) T by simp
  next
    case False
    then obtain n where n: "length ms = Suc n" by (cases ms) auto
    have "s ! length L = hd ms" "s ! (length L + length ms - 1) = last ms"
      using LT(1) T False n by (simp_all add: nth_append hd_conv_nth last_conv_nth)
    with False show ?thesis unfolding rs_insert_def Let_def LT(2) j using assms(2) LT(1) T by simp
  qed
  moreover have "\<forall>x \<in> set ms. pos x \<le> rend r \<and> pos r \<le> rend x"
    using LT(4) T set_takeWhileD unfolding ms_def by fastforce
  ultimately show thesis using that [of L ms R] LT T R by simp
qed

lemma sorted_run_bounds:
  assumes "rs_inv ms" "x \<in> set ms"
  shows "pos (hd ms) \<le> pos x" "rend x \<le> rend (last ms)"
proof -
  show "pos (hd ms) \<le> pos x" using assms by (cases ms) (auto simp: rend_def)
  show "rend x \<le> rend (last ms)"
  proof (cases "x = last ms")
    case False
    with assms(2) have "x \<in> set (butlast ms)" by (metis append_butlast_last_id empty_iff list.set(1) rotate1.simps(2) set_ConsD set_rotate1)
    moreover have "rs_inv (butlast ms @ [last ms])" using assms by (cases ms rule: rev_cases) auto
    ultimately show ?thesis by (auto simp: rend_def)
  qed simp
qed

lemma merged_span:
  assumes "rs_inv ms" "ms \<noteq> []" "\<forall>x \<in> set ms. pos x \<le> rend r \<and> pos r \<le> rend x" "0 < rsize r"
  defines "p \<equiv> min (pos r) (pos (hd ms))" and "e \<equiv> max (rend r) (rend (last ms))"
  shows "span \<lparr>pos = p, rsize = e - p\<rparr> = span r \<union> cover ms"
proof -
  have ms: "span (hd ms) \<subseteq> cover ms" "span (last ms) \<subseteq> cover ms"
    "pos r \<le> rend (hd ms)" "pos (last ms) \<le> rend r"
    using assms(2,3) unfolding cover_def by (simp_all add: UN_upper)
  have "x \<in> span r \<union> span (hd ms) \<union> span (last ms)" if "p \<le> x" "x < e" for x
    using that ms(3,4) unfolding p_def e_def by auto
  with ms(1,2) have "x \<in> span r \<union> cover ms" if "p \<le> x" "x < e" for x
    using that by blast
  moreover have "p \<le> pos y \<and> rend y \<le> e" if "y \<in> set ms" for y
    using sorted_run_bounds [OF assms(1) that] by (auto simp: p_def e_def min_def max_def)
  then have "p \<le> x \<and> x < e" if "x \<in> cover ms" for x
    using that unfolding cover_def by fastforce
  moreover have "p \<le> pos r" "rend r \<le> e" by (simp_all add: p_def e_def)
  ultimately show ?thesis by (intro set_eqI iffI) auto
qed

lemma cover_insert:
  assumes "rs_inv s"
  shows "cover (rs_insert s r) = cover s \<union> span r"
proof (cases "0 < rsize r")
  case True
  from rs_insert_split [OF assms this] obtain L ms R where *: "s = L @ ms @ R"
    "rs_insert s r = (if ms = [] then L @ r # R
       else L @ \<lparr>pos = min (pos r) (pos (hd ms)),
                 rsize = max (rend r) (rend (last ms)) - min (pos r) (pos (hd ms))\<rparr> # R)"
    "\<forall>x \<in> set ms. pos x \<le> rend r \<and> pos r \<le> rend x" by metis
  show ?thesis using merged_span [of ms r] assms * True by auto
qed (auto simp: rs_insert_def rend_def)

lemma rs_inv_insert:
  assumes "rs_inv s"
  shows "rs_inv (rs_insert s r)"
proof (cases "0 < rsize r")
  case True
  from rs_insert_split [OF assms this] obtain L ms R where *: "s = L @ ms @ R"
    "rs_insert s r = (if ms = [] then L @ r # R
       else L @ \<lparr>pos = min (pos r) (pos (hd ms)),
                 rsize = max (rend r) (rend (last ms)) - min (pos r) (pos (hd ms))\<rparr> # R)"
    "\<forall>x \<in> set L. rend x < pos r" "\<forall>x \<in> set R. rend r < pos x" by metis
  show ?thesis
  proof (cases "ms = []")
    case False
    let ?m = "\<lparr>pos = min (pos r) (pos (hd ms)),
      rsize = max (rend r) (rend (last ms)) - min (pos r) (pos (hd ms))\<rparr>"
    have in_ms: "hd ms \<in> set ms" "last ms \<in> set ms" using False by auto
    have inv: "rs_inv L" "rs_inv R" "\<forall>x \<in> set L. \<forall>y \<in> set R. rend x < pos y"
      "\<forall>x \<in> set L. rend x < pos (hd ms)" "\<forall>x \<in> set R. rend (last ms) < pos x"
      using *(1) assms in_ms by auto
    have "\<forall>x \<in> set L. rend x < pos ?m" "\<forall>x \<in> set R. rend ?m < pos x" using * inv by simp_all
    moreover have "pos r < rend r" using True by (simp add: rend_def)
    then have "0 < rsize ?m" by simp
    ultimately show ?thesis using *(2) inv False by simp
  qed (use * assms True in auto)
qed (use assms in \<open>simp add: rs_insert_def\<close>)

lemma rs_bounded_insert:
  assumes "rs_inv s" "rs_bounded M s" "0 \<le> pos r" "rend r \<le> M"
  shows "rs_bounded M (rs_insert s r)"
proof (cases "0 < rsize r")
  case True
  from rs_insert_split [OF assms(1) this] obtain L ms R where *: "s = L @ ms @ R"
    "rs_insert s r = (if ms = [] then L @ r # R
       else L @ \<lparr>pos = min (pos r) (pos (hd ms)),
                 rsize = max (rend r) (rend (last ms)) - min (pos r) (pos (hd ms))\<rparr> # R)" by metis
  have "hd ms \<in> set ms \<and> last ms \<in> set ms" if "ms \<noteq> []" using that by auto
  with assms * show ?thesis by (auto simp: rs_bounded_def)
qed (use assms in \<open>simp add: rs_insert_def\<close>)

section \<open>Removal and queries\<close>

lemma remove_loop_mem:
  assumes "y \<in> set (remove_loop r es)" "\<forall>x \<in> set es. pos r < rend x"
  shows "\<exists>e \<in> set es. pos e \<le> pos y \<and> rend y \<le> rend e"
  using assms
  by (induction r es rule: remove_loop.induct) (auto split: if_splits)

lemma remove_loop_correct:
  assumes "rs_inv es" "\<forall>x \<in> set es. pos r < rend x" "0 < rsize r"
  shows "rs_inv (remove_loop r es) \<and> cover (remove_loop r es) = cover es - span r"
  using assms
proof (induction r es rule: remove_loop.induct)
  case (2 r e es)
  have "pos r < rend r" using "2.prems"(3) by (simp add: rend_def)
  have e: "pos e < rend e" "\<forall>x \<in> set es. rend e < pos x" using "2.prems"(1) by (auto simp: rend_def)
  show ?case
  proof (cases "pos e \<ge> rend r")
    case True
    with e "2.prems"(1) show ?thesis by (fastforce simp: cover_def)
  next
    case False
    then have IH: "rs_inv (remove_loop r es)" "cover (remove_loop r es) = cover es - span r"
      using "2.IH" "2.prems" by auto
    have after: "\<forall>y \<in> set (remove_loop r es). rend e < pos y"
      using remove_loop_mem [of _ r es] "2.prems"(2) e(2) by fastforce
    show ?thesis
      using False IH after e(1) \<open>pos r < rend r\<close> "2.prems"(2) by (auto; fastforce)
  qed
qed simp

lemma rs_remove_correct:
  assumes "rs_inv s"
  shows "rs_inv (rs_remove s r) \<and> cover (rs_remove s r) = cover s - span r"
proof (cases "0 < rsize r")
  case True
  obtain L R where *: "s = L @ R" "rs_search s (pos r) = length L" "\<forall>x \<in> set L. rend x \<le> pos r"
    "\<forall>x \<in> set R. pos r < rend x" "rs_inv L" "rs_inv R" "\<forall>x \<in> set L. \<forall>y \<in> set R. rend x < pos y"
    using rs_split_at [OF assms] by metis
  have rm: "rs_inv (remove_loop r R)" "cover (remove_loop r R) = cover R - span r"
    using remove_loop_correct [OF *(6,4) True] by auto
  have eq: "rs_remove s r = L @ remove_loop r R"
    using True *(1,2) by (auto simp: rs_remove_def Let_def)
  have "cover L \<inter> span r = {}" using *(3) by (fastforce simp: cover_def)
  moreover have "\<forall>x \<in> set L. \<forall>y \<in> set (remove_loop r R). rend x < pos y"
    using remove_loop_mem [OF _ *(4)] *(7) by fastforce
  ultimately show ?thesis using eq rm *(1,5) by auto
qed (use assms in \<open>auto simp: rs_remove_def rend_def\<close>)

lemmas cover_remove = rs_remove_correct [THEN conjunct2]
  and rs_inv_remove = rs_remove_correct [THEN conjunct1]

text \<open>The entry a query finds is the only one that can cover its first byte.\<close>

lemma search_entry:
  assumes "rs_inv s"
  shows "p \<in> cover s \<longleftrightarrow> rs_search s p < length s \<and> pos (s ! rs_search s p) \<le> p"
    and "rs_search s p < length s \<Longrightarrow> p < rend (s ! rs_search s p)"
    and "rs_search s p < length s \<Longrightarrow> pos (s ! rs_search s p) \<le> p \<Longrightarrow> rend (s ! rs_search s p) \<notin> cover s"
    and "rs_search s p < length s \<Longrightarrow> p \<le> x \<Longrightarrow> x < pos (s ! rs_search s p) \<Longrightarrow> x \<notin> cover s"
    and "\<not> rs_search s p < length s \<Longrightarrow> p \<le> x \<Longrightarrow> x \<notin> cover s"
    and "rs_search s p < length s \<Longrightarrow> span (s ! rs_search s p) \<subseteq> cover s"
proof -
  obtain L R where *: "s = L @ R" "rs_search s p = length L" "\<forall>x \<in> set L. rend x \<le> p"
    "\<forall>x \<in> set R. p < rend x" "rs_inv R"
    using rs_split_at [OF assms] by metis
  have L: "x \<notin> cover L" if "p \<le> x" for x using *(3) that by (fastforce simp: cover_def)
  show "p \<in> cover s \<longleftrightarrow> rs_search s p < length s \<and> pos (s ! rs_search s p) \<le> p"
    and "rs_search s p < length s \<Longrightarrow> p < rend (s ! rs_search s p)"
    and "rs_search s p < length s \<Longrightarrow> pos (s ! rs_search s p) \<le> p \<Longrightarrow> rend (s ! rs_search s p) \<notin> cover s"
    and "rs_search s p < length s \<Longrightarrow> p \<le> x \<Longrightarrow> x < pos (s ! rs_search s p) \<Longrightarrow> x \<notin> cover s"
    and "\<not> rs_search s p < length s \<Longrightarrow> p \<le> x \<Longrightarrow> x \<notin> cover s"
    and "rs_search s p < length s \<Longrightarrow> span (s ! rs_search s p) \<subseteq> cover s"
    using * L by (cases R; fastforce simp: cover_def rend_def)+
qed

lemma rs_present_iff:
  assumes "rs_inv s"
  shows "rs_present s r \<longleftrightarrow> span r \<subseteq> cover s"
proof (cases "0 < rsize r")
  case True
  let ?i = "rs_search s (pos r)"
  have r: "pos r < rend r" using True by (simp add: rend_def)
  note se = search_entry [OF assms, of "pos r"]
  have "span r \<subseteq> cover s \<longleftrightarrow> ?i < length s \<and> pos (s ! ?i) \<le> pos r \<and> rend r \<le> rend (s ! ?i)"
  proof (intro iffI conjI; (elim conjE)?)
    assume sub: "span r \<subseteq> cover s"
    then have "pos r \<in> cover s" using r by auto
    then show i: "?i < length s" and p: "pos (s ! ?i) \<le> pos r" using se(1) by auto
    have "rend (s ! ?i) \<notin> span r" using se(3) [OF i p] sub by blast
    then show "rend r \<le> rend (s ! ?i)" using se(2) [OF i] by simp
  next
    assume "?i < length s" "pos (s ! ?i) \<le> pos r" "rend r \<le> rend (s ! ?i)"
    then have "span r \<subseteq> span (s ! ?i)" "span (s ! ?i) \<subseteq> cover s" using se(6) by (auto simp: span_def)
    then show "span r \<subseteq> cover s" by blast
  qed
  with True show ?thesis by (simp add: rs_present_def Let_def)
qed (auto simp: rs_present_def rend_def)

text \<open>
  What \<^verbatim>\<open>findMissing\<close> returns: the same end, a covered prefix, and a start that is uncovered unless
  nothing of \<open>r\<close> is left.
\<close>

lemma findMissing_correct:
  assumes "rs_inv s" "0 \<le> rsize r"
  defines "m \<equiv> findMissing s r"
  shows "rend m = rend r" "pos r \<le> pos m" "0 \<le> rsize m" "{pos r ..< pos m} \<subseteq> cover s"
    "rsize m \<noteq> 0 \<Longrightarrow> pos m \<notin> cover s"
proof -
  note se = search_entry [OF assms(1), of "pos r"]
  show "rend m = rend r" "pos r \<le> pos m" "0 \<le> rsize m" "rsize m \<noteq> 0 \<Longrightarrow> pos m \<notin> cover s"
    using se(1,2,3) assms(2) unfolding m_def findMissing_def Let_def by (auto simp: rend_def)
  show "{pos r ..< pos m} \<subseteq> cover s"
    using se(2,6) assms(2) unfolding m_def findMissing_def Let_def
    by (auto simp: rend_def subset_iff split: if_splits)
qed

text \<open>One round of the \<^verbatim>\<open>missingWithin\<close> loop clips the missing run at the next covered entry.\<close>

lemma missing_round:
  assumes "rs_inv s" "p < e"
  defines "m \<equiv> findMissing s \<lparr>pos = p, rsize = e - p\<rparr>"
  defines "i \<equiv> rs_search s (pos m)"
  defines "q \<equiv> (if i < length s \<and> pos (s ! i) < rend m then pos (s ! i) else rend m)"
  assumes "rsize m \<noteq> 0"
  shows "p \<le> pos m" "pos m < q" "q \<le> e" "{p ..< pos m} \<subseteq> cover s" "{pos m ..< q} \<inter> cover s = {}"
    "q < e \<Longrightarrow> q \<in> cover s"
proof -
  have m: "rend m = e" "p \<le> pos m" "0 \<le> rsize m" "{p ..< pos m} \<subseteq> cover s" "pos m \<notin> cover s"
    using findMissing_correct [OF assms(1), of "\<lparr>pos = p, rsize = e - p\<rparr>"] assms(2,6)
    by (simp_all add: m_def)
  note se = search_entry [OF assms(1), of "pos m", folded i_def]
  show "p \<le> pos m" "{p ..< pos m} \<subseteq> cover s" by fact+
  have lt: "pos m < e" using m(1,3) assms(6) by (simp add: rend_def)
  show "pos m < q" "q \<le> e" using se(1) m(1,5) lt by (auto simp: q_def)
  show "{pos m ..< q} \<inter> cover s = {}" using se(4,5) m(1) unfolding q_def
    by (cases "i < length s"; cases "pos (s ! i) < rend m") auto
  show "q \<in> cover s" if "q < e"
  proof -
    have "i < length s" "q = pos (s ! i)" using that m(1) by (auto simp: q_def split: if_splits)
    moreover have "pos (s ! i) < rend (s ! i)"
      using assms(1) calculation(1) rs_inv_size nth_mem by blast
    ultimately show ?thesis using se(6) by auto
  qed
qed

text \<open>
  On a set that satisfies the invariant the loop returns, and what it appends is the canonical range
  set of the uncovered bytes.
\<close>

lemma missing_loop_correct:
  assumes "rs_inv s"
  shows "\<exists>ys. missing_loop s e p dst = Some (dst @ ys) \<and> rs_inv ys \<and> cover ys = {p ..< e} - cover s
    \<and> (\<forall>y \<in> set ys. p \<le> pos y \<and> rend y \<le> e)"
proof (induction "nat (e - p)" arbitrary: p dst rule: less_induct)
  case less
  define m where "m = findMissing s \<lparr>pos = p, rsize = e - p\<rparr>"
  define i where "i = rs_search s (pos m)"
  define q where "q = (if i < length s \<and> pos (s ! i) < rend m then pos (s ! i) else rend m)"
  define x where "x = \<lparr>pos = pos m, rsize = q - pos m\<rparr>"
  have unfold: "missing_loop s e p dst =
      (if p < e \<and> rsize m \<noteq> 0 then missing_loop s e q (dst @ [x]) else Some dst)"
    by (subst missing_loop.simps) (simp add: m_def i_def q_def x_def Let_def)
  consider "\<not> p < e" | "p < e" "rsize m = 0" | "p < e" "rsize m \<noteq> 0" by blast
  then show ?case
  proof cases
    case 1
    then show ?thesis by (intro exI [of _ "[]"]) (auto simp: unfold)
  next
    case 2
    then have "{p ..< e} \<subseteq> cover s"
      using findMissing_correct [OF assms, of "\<lparr>pos = p, rsize = e - p\<rparr>"] by (simp add: m_def rend_def)
    with 2 show ?thesis by (intro exI [of _ "[]"]) (auto simp: unfold)
  next
    case 3
    note round = missing_round [OF assms 3(1), folded m_def, folded i_def, folded q_def, OF 3(2)]
    have "nat (e - q) < nat (e - p)" using round(1-3) by simp
    from less [OF this, of "dst @ [x]"] obtain ys where ys:
      "missing_loop s e q (dst @ [x]) = Some ((dst @ [x]) @ ys)" "rs_inv ys"
      "cover ys = {q ..< e} - cover s" "\<forall>y \<in> set ys. q \<le> pos y \<and> rend y \<le> e" by blast
    have x: "pos x = pos m" "rend x = q" "0 < rsize x" using round(2) by (simp_all add: x_def)
    have "q < pos y" if "y \<in> set ys" for y
    proof -
      have "pos y \<in> cover ys" using that rs_inv_size [OF ys(2) that] by (auto simp: cover_def)
      then show ?thesis using ys(3) round(6) by (metis DiffE atLeastLessThan_iff order_le_imp_less_or_eq)
    qed
    then have "rs_inv (x # ys)" using x ys(2) by simp
    moreover have "cover (x # ys) = {p ..< e} - cover s"
      using round(1-5) x ys(3) by (fastforce simp: span_def)
    moreover have "\<forall>y \<in> set (x # ys). p \<le> pos y \<and> rend y \<le> e"
      using round(1-3) x ys(4) by force
    ultimately show ?thesis using ys(1) 3 unfold by (intro exI [of _ "x # ys"]) simp
  qed
qed

section \<open>Size and canonicity\<close>

lemma finite_cover [simp]: "finite (cover s)"
  by (simp add: cover_def span_def)

lemma rs_size_card: "rs_inv s \<Longrightarrow> rs_size s = int (card (cover s))"
proof (induction s)
  case (Cons r s)
  then have "span r \<inter> cover s = {}" by (fastforce simp: cover_def)
  with Cons show ?case by (simp add: card_Un_disjoint span_def rend_def)
qed simp

text \<open>The bytes determine the list: two sets with the invariant and the same bytes are equal.\<close>

lemma cover_hd_Min:
  assumes "rs_inv (r # s)"
  shows "pos r \<in> cover (r # s)" "\<And>x. x \<in> cover (r # s) \<Longrightarrow> pos r \<le> x" "rend r \<notin> cover (r # s)"
    "\<And>x. pos r \<le> x \<Longrightarrow> x < rend r \<Longrightarrow> x \<in> cover (r # s)"
  using assms by (fastforce simp: cover_def rend_def)+

lemma rs_canonical: "rs_inv s \<Longrightarrow> rs_inv t \<Longrightarrow> cover s = cover t \<Longrightarrow> s = t"
proof (induction s arbitrary: t)
  case Nil
  then show ?case using cover_hd_Min(1) by (cases t) (auto simp del: cover_simps(2) rs_inv_simps(2))
next
  case (Cons r s)
  then obtain r' t' where t: "t = r' # t'"
    using cover_hd_Min(1) [OF Cons.prems(1)] by (cases t) (auto simp del: cover_simps(2))
  note a = cover_hd_Min [OF Cons.prems(1)] and b = cover_hd_Min [OF Cons.prems(2) [unfolded t]]
  have eq: "cover (r # s) = cover (r' # t')" using Cons.prems(3) t by simp
  have p: "pos r = pos r'" using a(1,2) b(1,2) unfolding eq by (metis order_antisym)
  have "rend r = rend r'"
    using a(3,4) b(3,4) p rs_inv_size [OF Cons.prems(1)] rs_inv_size [OF Cons.prems(2) [unfolded t]]
    unfolding eq by (metis linorder_less_linear list.set_intros(1) order_less_imp_le)
  with p have "r = r'" by (simp add: rend_def)
  moreover have "cover s = cover (r # s) - span r" "cover t' = cover (r' # t') - span r'"
    using Cons.prems(1,2) t by (fastforce simp: cover_def)+
  ultimately show ?case using Cons eq t by auto
qed

section \<open>The range set provides the interface\<close>

interpretation rset: canonical_span_set "\<lambda>_. True" span rs_inv cover rs_insert rs_remove
  by unfold_locales
    (simp_all add: rs_inv_insert cover_insert rs_inv_remove cover_remove rs_canonical)

interpretation rset_size: sized_span_set "\<lambda>_. True" span rs_inv cover rs_insert rs_remove "nat \<circ> rs_size"
  by unfold_locales (simp_all add: rs_size_card span_def)

lemma rs_remove_bounded_mem:
  assumes "rs_inv s" "y \<in> set (rs_remove s r)"
  shows "\<exists>e \<in> set s. pos e \<le> pos y \<and> rend y \<le> rend e"
proof (cases "0 < rsize r")
  case True
  obtain L R where *: "s = L @ R" "rs_search s (pos r) = length L" "\<forall>x \<in> set R. pos r < rend x"
    using rs_split_at [OF assms(1)] by metis
  have "rs_remove s r = L @ remove_loop r R"
    using True *(1,2) by (auto simp: rs_remove_def Let_def)
  then show ?thesis using assms(2) remove_loop_mem [OF _ *(3)] *(1) by auto
qed (use assms in \<open>auto simp: rs_remove_def\<close>)

lemma rs_bounded_remove:
  "rs_inv s \<Longrightarrow> rs_bounded M s \<Longrightarrow> rs_bounded M (rs_remove s r)"
  unfolding rs_bounded_def by (meson order_trans rs_remove_bounded_mem)

lemma rs_clone_id [simp]: "rs_clone s = s"
  by (simp add: rs_clone_def map_nth)

section \<open>Properties\<close>

text \<open>
  C9. A range set that starts empty and goes through any sequence of \<^verbatim>\<open>insert\<close> and \<^verbatim>\<open>remove\<close> calls is sorted,
  coalesced and free of empty entries, and covers exactly the bytes that the same sequence of unions and
  differences gives.
\<close>

theorem rangeSet_refines_byte_set:
  "rs_inv (span_run rs_insert rs_remove [] ops)
    \<and> cover (span_run rs_insert rs_remove [] ops) = den_run span {} ops"
  using rset.run_refines [of "[]" ops] by simp

text \<open>
  C26. \<^verbatim>\<open>missingWithin\<close> returns on every well-formed set; what it appends to \<open>dst\<close> is itself a sorted, coalesced
  set whose bytes are exactly the bytes of \<open>r\<close> that the set does not cover, and its total size is
  their number.
\<close>

theorem missingWithin_exact:
  assumes "rs_inv s"
  shows "\<exists>ys. missingWithin s r dst = Some (dst @ ys) \<and> rs_inv ys \<and> cover ys = span r - cover s
    \<and> rs_size ys = int (card (span r - cover s))"
  using missing_loop_correct [OF assms, of "rend r" "pos r" dst]
  by (auto simp: missingWithin_def span_def rs_size_card)

theorem missingWithin_exact_witness:
  "\<exists>ys. missingWithin [\<lparr>pos = 0, rsize = 4\<rparr>, \<lparr>pos = 8, rsize = 2\<rparr>] \<lparr>pos = 2, rsize = 10\<rparr> [] = Some ([] @ ys)
    \<and> rs_inv ys
    \<and> cover ys = span \<lparr>pos = 2, rsize = 10\<rparr> - cover [\<lparr>pos = 0, rsize = 4\<rparr>, \<lparr>pos = 8, rsize = 2\<rparr>]
    \<and> rs_size ys
      = int (card (span \<lparr>pos = 2, rsize = 10\<rparr> - cover [\<lparr>pos = 0, rsize = 4\<rparr>, \<lparr>pos = 8, rsize = 2\<rparr>]))"
  by (rule missingWithin_exact) simp

text \<open>
  C27. On a well-formed set, \<^verbatim>\<open>present\<close> answers whether every byte of \<open>r\<close> is covered, and \<^verbatim>\<open>findMissing\<close> keeps the end of
  \<open>r\<close>, cuts off only covered bytes, and stops at an uncovered byte unless nothing is left, in which
  case \<open>r\<close> is fully present.
\<close>

theorem present_findMissing_exact:
  assumes "rs_inv s" "0 \<le> rsize r"
  shows "(rs_present s r \<longleftrightarrow> span r \<subseteq> cover s)
    \<and> rend (findMissing s r) = rend r \<and> {pos r ..< pos (findMissing s r)} \<subseteq> cover s
    \<and> (if rsize (findMissing s r) = 0 then rs_present s r else pos (findMissing s r) \<notin> cover s)"
  using findMissing_correct [OF assms] rs_present_iff [OF assms(1), of r]
  by (auto simp: span_def rend_def)

theorem present_findMissing_exact_witness:
  "(rs_present [\<lparr>pos = 0, rsize = 4\<rparr>] \<lparr>pos = 2, rsize = 6\<rparr>
      \<longleftrightarrow> span \<lparr>pos = 2, rsize = 6\<rparr> \<subseteq> cover [\<lparr>pos = 0, rsize = 4\<rparr>])
    \<and> rend (findMissing [\<lparr>pos = 0, rsize = 4\<rparr>] \<lparr>pos = 2, rsize = 6\<rparr>) = rend \<lparr>pos = 2, rsize = 6\<rparr>
    \<and> {pos \<lparr>pos = 2, rsize = 6\<rparr> ..< pos (findMissing [\<lparr>pos = 0, rsize = 4\<rparr>] \<lparr>pos = 2, rsize = 6\<rparr>)}
        \<subseteq> cover [\<lparr>pos = 0, rsize = 4\<rparr>]
    \<and> (if rsize (findMissing [\<lparr>pos = 0, rsize = 4\<rparr>] \<lparr>pos = 2, rsize = 6\<rparr>) = 0
        then rs_present [\<lparr>pos = 0, rsize = 4\<rparr>] \<lparr>pos = 2, rsize = 6\<rparr>
        else pos (findMissing [\<lparr>pos = 0, rsize = 4\<rparr>] \<lparr>pos = 2, rsize = 6\<rparr>) \<notin> cover [\<lparr>pos = 0, rsize = 4\<rparr>])"
  by (rule present_findMissing_exact) simp_all

text \<open>
  C28. \<^verbatim>\<open>size\<close> counts the covered bytes, so an insertion adds exactly the bytes of \<open>r\<close> that were missing
  and a removal takes away exactly those that were present; the accounting of the cache rests on it.
\<close>

theorem size_counts_bytes:
  assumes "rs_inv s"
  shows "rs_size s = int (card (cover s))
    \<and> rs_size (rs_insert s r) = rs_size s + int (card (span r - cover s))
    \<and> rs_size (rs_remove s r) = rs_size s - int (card (span r \<inter> cover s))"
  using rset_size.sz_ins [OF assms TrueI, of r] rset_size.sz_rem [OF assms TrueI, of r] rs_size_card [OF assms]
    rs_size_card [OF rs_inv_insert [OF assms], of r] rs_size_card [OF rs_inv_remove [OF assms], of r]
  by auto

theorem size_counts_bytes_witness:
  "rs_size [\<lparr>pos = 0, rsize = 4\<rparr>] = int (card (cover [\<lparr>pos = 0, rsize = 4\<rparr>]))
    \<and> rs_size (rs_insert [\<lparr>pos = 0, rsize = 4\<rparr>] \<lparr>pos = 2, rsize = 6\<rparr>)
      = rs_size [\<lparr>pos = 0, rsize = 4\<rparr>]
        + int (card (span \<lparr>pos = 2, rsize = 6\<rparr> - cover [\<lparr>pos = 0, rsize = 4\<rparr>]))
    \<and> rs_size (rs_remove [\<lparr>pos = 0, rsize = 4\<rparr>] \<lparr>pos = 2, rsize = 6\<rparr>)
      = rs_size [\<lparr>pos = 0, rsize = 4\<rparr>]
        - int (card (span \<lparr>pos = 2, rsize = 6\<rparr> \<inter> cover [\<lparr>pos = 0, rsize = 4\<rparr>]))"
  by (rule size_counts_bytes) simp

lemma rs_size_bounded:
  assumes "rs_inv s" "rs_bounded M s" "0 \<le> M"
  shows "rs_size s \<le> M"
proof -
  have "cover s \<subseteq> {0 ..< M}" using assms(2) by (force simp: cover_def rs_bounded_def)
  then have "card (cover s) \<le> card {0 ..< M}" by (intro card_mono) auto
  with assms show ?thesis by (simp add: rs_size_card)
qed

text \<open>
  C35. As long as every range given to \<^verbatim>\<open>insert\<close> lies within the non-negative \<open>int64\<close> values, every entry
  start, every entry end and the total size stay within them over any sequence of operations, so the
  \<open>int64\<close> additions of the code do not wrap.
\<close>

theorem rangeSet_int64_safe:
  assumes "\<forall>r. Add r \<in> set ops \<longrightarrow> 0 \<le> pos r \<and> rend r \<le> 2 ^ 63 - 1"
  shows "rs_bounded (2 ^ 63 - 1) (span_run rs_insert rs_remove [] ops)
    \<and> rs_size (span_run rs_insert rs_remove [] ops) \<le> 2 ^ 63 - 1"
proof -
  have "rs_bounded (2 ^ 63 - 1) (span_run rs_insert rs_remove s ops)"
    if "rs_inv s" "rs_bounded (2 ^ 63 - 1) s" for s
    using assms that
  proof (induction ops arbitrary: s)
    case (Cons x xs)
    then show ?case
      by (cases x) (simp_all add: rs_bounded_insert rs_inv_insert rs_bounded_remove rs_inv_remove)
  qed simp
  from this [of "[]"] show ?thesis
    using rset.run_refines [of "[]" ops] by (simp add: rs_bounded_def rs_size_bounded)
qed

theorem rangeSet_int64_safe_witness:
  "rs_bounded (2 ^ 63 - 1) (span_run rs_insert rs_remove [] [Add \<lparr>pos = 0, rsize = 4\<rparr>, Del \<lparr>pos = 1, rsize = 2\<rparr>])
    \<and> rs_size (span_run rs_insert rs_remove [] [Add \<lparr>pos = 0, rsize = 4\<rparr>, Del \<lparr>pos = 1, rsize = 2\<rparr>])
      \<le> 2 ^ 63 - 1"
  by (rule rangeSet_int64_safe) simp

end
