(* ===== verification/Nfs_Const.thy ===== *)
theory Nfs_Const
  imports Facet_Prelude
begin

text \<open>
  The constants of \<^verbatim>\<open>nfs4/const.go\<close> and \<^verbatim>\<open>nfs4/ops_state.go\<close> that the modelled operations use. A status is
  the 32-bit code that goes on the wire.
\<close>

type_synonym nfsStat = u32

abbreviation (input) nfs4OK :: nfsStat where "nfs4OK \<equiv> 0"
abbreviation (input) nfs4ErrPerm :: nfsStat where "nfs4ErrPerm \<equiv> 1"
abbreviation (input) nfs4ErrNoEnt :: nfsStat where "nfs4ErrNoEnt \<equiv> 2"
abbreviation (input) nfs4ErrIO :: nfsStat where "nfs4ErrIO \<equiv> 5"
abbreviation (input) nfs4ErrAccess :: nfsStat where "nfs4ErrAccess \<equiv> 13"
abbreviation (input) nfs4ErrExist :: nfsStat where "nfs4ErrExist \<equiv> 17"
abbreviation (input) nfs4ErrXDev :: nfsStat where "nfs4ErrXDev \<equiv> 18"
abbreviation (input) nfs4ErrNotDir :: nfsStat where "nfs4ErrNotDir \<equiv> 20"
abbreviation (input) nfs4ErrIsDir :: nfsStat where "nfs4ErrIsDir \<equiv> 21"
abbreviation (input) nfs4ErrInval :: nfsStat where "nfs4ErrInval \<equiv> 22"
abbreviation (input) nfs4ErrFBig :: nfsStat where "nfs4ErrFBig \<equiv> 27"
abbreviation (input) nfs4ErrNoSpc :: nfsStat where "nfs4ErrNoSpc \<equiv> 28"
abbreviation (input) nfs4ErrROFS :: nfsStat where "nfs4ErrROFS \<equiv> 30"
abbreviation (input) nfs4ErrMLink :: nfsStat where "nfs4ErrMLink \<equiv> 31"
abbreviation (input) nfs4ErrNameTooLong :: nfsStat where "nfs4ErrNameTooLong \<equiv> 63"
abbreviation (input) nfs4ErrNotEmpty :: nfsStat where "nfs4ErrNotEmpty \<equiv> 66"
abbreviation (input) nfs4ErrDQuot :: nfsStat where "nfs4ErrDQuot \<equiv> 69"
abbreviation (input) nfs4ErrStale :: nfsStat where "nfs4ErrStale \<equiv> 70"
abbreviation (input) nfs4ErrBadHandle :: nfsStat where "nfs4ErrBadHandle \<equiv> 10001"
abbreviation (input) nfs4ErrBadCookie :: nfsStat where "nfs4ErrBadCookie \<equiv> 10003"
abbreviation (input) nfs4ErrNotSupp :: nfsStat where "nfs4ErrNotSupp \<equiv> 10004"
abbreviation (input) nfs4ErrTooSmall :: nfsStat where "nfs4ErrTooSmall \<equiv> 10005"
abbreviation (input) nfs4ErrServerFault :: nfsStat where "nfs4ErrServerFault \<equiv> 10006"
abbreviation (input) nfs4ErrBadType :: nfsStat where "nfs4ErrBadType \<equiv> 10007"
abbreviation (input) nfs4ErrDelay :: nfsStat where "nfs4ErrDelay \<equiv> 10008"
abbreviation (input) nfs4ErrSame :: nfsStat where "nfs4ErrSame \<equiv> 10009"
abbreviation (input) nfs4ErrDenied :: nfsStat where "nfs4ErrDenied \<equiv> 10010"
abbreviation (input) nfs4ErrExpired :: nfsStat where "nfs4ErrExpired \<equiv> 10011"
abbreviation (input) nfs4ErrFHExpired :: nfsStat where "nfs4ErrFHExpired \<equiv> 10014"
abbreviation (input) nfs4ErrShareDenied :: nfsStat where "nfs4ErrShareDenied \<equiv> 10015"
abbreviation (input) nfs4ErrClidInUse :: nfsStat where "nfs4ErrClidInUse \<equiv> 10017"
abbreviation (input) nfs4ErrResource :: nfsStat where "nfs4ErrResource \<equiv> 10018"
abbreviation (input) nfs4ErrMoved :: nfsStat where "nfs4ErrMoved \<equiv> 10019"
abbreviation (input) nfs4ErrNoFilehandle :: nfsStat where "nfs4ErrNoFilehandle \<equiv> 10020"
abbreviation (input) nfs4ErrMinorVersMismatch :: nfsStat where "nfs4ErrMinorVersMismatch \<equiv> 10021"
abbreviation (input) nfs4ErrStaleClientID :: nfsStat where "nfs4ErrStaleClientID \<equiv> 10022"
abbreviation (input) nfs4ErrStaleStateID :: nfsStat where "nfs4ErrStaleStateID \<equiv> 10023"
abbreviation (input) nfs4ErrOldStateID :: nfsStat where "nfs4ErrOldStateID \<equiv> 10024"
abbreviation (input) nfs4ErrBadStateID :: nfsStat where "nfs4ErrBadStateID \<equiv> 10025"
abbreviation (input) nfs4ErrBadSeqID :: nfsStat where "nfs4ErrBadSeqID \<equiv> 10026"
abbreviation (input) nfs4ErrNotSame :: nfsStat where "nfs4ErrNotSame \<equiv> 10027"
abbreviation (input) nfs4ErrSymlink :: nfsStat where "nfs4ErrSymlink \<equiv> 10029"
abbreviation (input) nfs4ErrRestoreFH :: nfsStat where "nfs4ErrRestoreFH \<equiv> 10030"
abbreviation (input) nfs4ErrAttrNotSupp :: nfsStat where "nfs4ErrAttrNotSupp \<equiv> 10032"
abbreviation (input) nfs4ErrNoGrace :: nfsStat where "nfs4ErrNoGrace \<equiv> 10033"
abbreviation (input) nfs4ErrBadXDR :: nfsStat where "nfs4ErrBadXDR \<equiv> 10036"
abbreviation (input) nfs4ErrLocksHeld :: nfsStat where "nfs4ErrLocksHeld \<equiv> 10037"
abbreviation (input) nfs4ErrOpenMode :: nfsStat where "nfs4ErrOpenMode \<equiv> 10038"
abbreviation (input) nfs4ErrBadOwner :: nfsStat where "nfs4ErrBadOwner \<equiv> 10039"
abbreviation (input) nfs4ErrBadChar :: nfsStat where "nfs4ErrBadChar \<equiv> 10040"
abbreviation (input) nfs4ErrBadName :: nfsStat where "nfs4ErrBadName \<equiv> 10041"
abbreviation (input) nfs4ErrOpIllegal :: nfsStat where "nfs4ErrOpIllegal \<equiv> 10044"
abbreviation (input) nfs4ErrAdminRevoked :: nfsStat where "nfs4ErrAdminRevoked \<equiv> 10047"
abbreviation (input) nfs4ErrNXIO :: nfsStat where "nfs4ErrNXIO \<equiv> 6"
abbreviation (input) nfs4ErrFileOpen :: nfsStat where "nfs4ErrFileOpen \<equiv> 10046"
abbreviation (input) nfs4ErrLocked :: nfsStat where "nfs4ErrLocked \<equiv> 10012"

abbreviation (input) opAccess :: u32 where "opAccess \<equiv> 3"
abbreviation (input) opClose :: u32 where "opClose \<equiv> 4"
abbreviation (input) opCommit :: u32 where "opCommit \<equiv> 5"
abbreviation (input) opCreate :: u32 where "opCreate \<equiv> 6"
abbreviation (input) opDelegPurge :: u32 where "opDelegPurge \<equiv> 7"
abbreviation (input) opDelegReturn :: u32 where "opDelegReturn \<equiv> 8"
abbreviation (input) opGetAttr :: u32 where "opGetAttr \<equiv> 9"
abbreviation (input) opGetFH :: u32 where "opGetFH \<equiv> 10"
abbreviation (input) opLink :: u32 where "opLink \<equiv> 11"
abbreviation (input) opLock :: u32 where "opLock \<equiv> 12"
abbreviation (input) opLockT :: u32 where "opLockT \<equiv> 13"
abbreviation (input) opLockU :: u32 where "opLockU \<equiv> 14"
abbreviation (input) opLookup :: u32 where "opLookup \<equiv> 15"
abbreviation (input) opLookupP :: u32 where "opLookupP \<equiv> 16"
abbreviation (input) opNVerify :: u32 where "opNVerify \<equiv> 17"
abbreviation (input) opOpen :: u32 where "opOpen \<equiv> 18"
abbreviation (input) opOpenAttr :: u32 where "opOpenAttr \<equiv> 19"
abbreviation (input) opOpenConfirm :: u32 where "opOpenConfirm \<equiv> 20"
abbreviation (input) opOpenDowngrade :: u32 where "opOpenDowngrade \<equiv> 21"
abbreviation (input) opPutFH :: u32 where "opPutFH \<equiv> 22"
abbreviation (input) opPutPubFH :: u32 where "opPutPubFH \<equiv> 23"
abbreviation (input) opPutRootFH :: u32 where "opPutRootFH \<equiv> 24"
abbreviation (input) opRead :: u32 where "opRead \<equiv> 25"
abbreviation (input) opReadDir :: u32 where "opReadDir \<equiv> 26"
abbreviation (input) opReadLink :: u32 where "opReadLink \<equiv> 27"
abbreviation (input) opRemove :: u32 where "opRemove \<equiv> 28"
abbreviation (input) opRename :: u32 where "opRename \<equiv> 29"
abbreviation (input) opRenew :: u32 where "opRenew \<equiv> 30"
abbreviation (input) opRestoreFH :: u32 where "opRestoreFH \<equiv> 31"
abbreviation (input) opSaveFH :: u32 where "opSaveFH \<equiv> 32"
abbreviation (input) opSecInfo :: u32 where "opSecInfo \<equiv> 33"
abbreviation (input) opSetAttr :: u32 where "opSetAttr \<equiv> 34"
abbreviation (input) opSetClientID :: u32 where "opSetClientID \<equiv> 35"
abbreviation (input) opSetClientIDConfirm :: u32 where "opSetClientIDConfirm \<equiv> 36"
abbreviation (input) opVerify :: u32 where "opVerify \<equiv> 37"
abbreviation (input) opWrite :: u32 where "opWrite \<equiv> 38"
abbreviation (input) opReleaseLockOwner :: u32 where "opReleaseLockOwner \<equiv> 39"
abbreviation (input) opIllegal :: u32 where "opIllegal \<equiv> 10044"

abbreviation (input) maxCompoundOps :: u32 where "maxCompoundOps \<equiv> 128"
abbreviation (input) maxTagBytes :: u32 where "maxTagBytes \<equiv> 1024"
abbreviation (input) maxCachedDirEntries :: nat where "maxCachedDirEntries \<equiv> 131072"
abbreviation (input) maxOpensPerClient :: nat where "maxOpensPerClient \<equiv> 4096"
abbreviation (input) maxOwnersPerClient :: nat where "maxOwnersPerClient \<equiv> 4096"
abbreviation (input) maxLockRanges :: nat where "maxLockRanges \<equiv> 4096"
abbreviation (input) maxExclusiveCreates :: nat where "maxExclusiveCreates \<equiv> 4096"
abbreviation (input) maxDelegationsPerClient :: nat where "maxDelegationsPerClient \<equiv> 4096"
abbreviation (input) maxNameBytes :: u32 where "maxNameBytes \<equiv> 255"
abbreviation (input) maxFHBytes :: u32 where "maxFHBytes \<equiv> 128"

abbreviation (input) maxClientOwnerID :: u32 where "maxClientOwnerID \<equiv> 1024"
abbreviation (input) maxOpenOwnerID :: u32 where "maxOpenOwnerID \<equiv> 1024"
abbreviation (input) shareRead :: u32 where "shareRead \<equiv> 1"
abbreviation (input) shareWrite :: u32 where "shareWrite \<equiv> 2"
abbreviation (input) shareBoth :: u32 where "shareBoth \<equiv> 3"
abbreviation (input) denyNone :: u32 where "denyNone \<equiv> 0"
abbreviation (input) denyRead :: u32 where "denyRead \<equiv> 1"
abbreviation (input) denyWrite :: u32 where "denyWrite \<equiv> 2"
abbreviation (input) denyBoth :: u32 where "denyBoth \<equiv> 3"
abbreviation (input) openNoCreate :: u32 where "openNoCreate \<equiv> 0"
abbreviation (input) openCreate :: u32 where "openCreate \<equiv> 1"
abbreviation (input) createUnchecked :: u32 where "createUnchecked \<equiv> 0"
abbreviation (input) createGuarded :: u32 where "createGuarded \<equiv> 1"
abbreviation (input) createExclusive :: u32 where "createExclusive \<equiv> 2"
abbreviation (input) claimNull :: u32 where "claimNull \<equiv> 0"
abbreviation (input) claimPrevious :: u32 where "claimPrevious \<equiv> 1"
abbreviation (input) claimDelegCur :: u32 where "claimDelegCur \<equiv> 2"
abbreviation (input) claimDelegPrev :: u32 where "claimDelegPrev \<equiv> 3"
abbreviation (input) openResultConfirm :: u32 where "openResultConfirm \<equiv> 2"
abbreviation (input) openDelegateNone :: u32 where "openDelegateNone \<equiv> 0"
abbreviation (input) openDelegateRead :: u32 where "openDelegateRead \<equiv> 1"
abbreviation (input) aceAllow :: u32 where "aceAllow \<equiv> 0"
abbreviation (input) aceReadData :: u32 where "aceReadData \<equiv> 1"
abbreviation (input) aceReadAttributes :: u32 where "aceReadAttributes \<equiv> 128"
abbreviation (input) maxLockOwnerID :: u32 where "maxLockOwnerID \<equiv> 1024"
abbreviation (input) readLT :: u32 where "readLT \<equiv> 1"
abbreviation (input) writeLT :: u32 where "writeLT \<equiv> 2"
abbreviation (input) readWLT :: u32 where "readWLT \<equiv> 3"
abbreviation (input) writeWLT :: u32 where "writeWLT \<equiv> 4"

abbreviation (input) authNone :: u32 where "authNone \<equiv> 0"
abbreviation (input) authSys :: u32 where "authSys \<equiv> 1"
abbreviation (input) attrSupportedAttrs :: nat where "attrSupportedAttrs \<equiv> 0"
abbreviation (input) attrType :: nat where "attrType \<equiv> 1"
abbreviation (input) attrFHExpireType :: nat where "attrFHExpireType \<equiv> 2"
abbreviation (input) attrChange :: nat where "attrChange \<equiv> 3"
abbreviation (input) attrSize :: nat where "attrSize \<equiv> 4"
abbreviation (input) attrLinkSupport :: nat where "attrLinkSupport \<equiv> 5"
abbreviation (input) attrSymlinkSupport :: nat where "attrSymlinkSupport \<equiv> 6"
abbreviation (input) attrNamedAttr :: nat where "attrNamedAttr \<equiv> 7"
abbreviation (input) attrFSID :: nat where "attrFSID \<equiv> 8"
abbreviation (input) attrUniqueHandles :: nat where "attrUniqueHandles \<equiv> 9"
abbreviation (input) attrLeaseTime :: nat where "attrLeaseTime \<equiv> 10"
abbreviation (input) attrRdattrError :: nat where "attrRdattrError \<equiv> 11"
abbreviation (input) attrACLSupport :: nat where "attrACLSupport \<equiv> 13"
abbreviation (input) attrCanSetTime :: nat where "attrCanSetTime \<equiv> 15"
abbreviation (input) attrCaseInsensitive :: nat where "attrCaseInsensitive \<equiv> 16"
abbreviation (input) attrCasePreserving :: nat where "attrCasePreserving \<equiv> 17"
abbreviation (input) attrChownRestricted :: nat where "attrChownRestricted \<equiv> 18"
abbreviation (input) attrFilehandle :: nat where "attrFilehandle \<equiv> 19"
abbreviation (input) attrFileID :: nat where "attrFileID \<equiv> 20"
abbreviation (input) attrFilesAvail :: nat where "attrFilesAvail \<equiv> 21"
abbreviation (input) attrFilesFree :: nat where "attrFilesFree \<equiv> 22"
abbreviation (input) attrFilesTotal :: nat where "attrFilesTotal \<equiv> 23"
abbreviation (input) attrHomogeneous :: nat where "attrHomogeneous \<equiv> 26"
abbreviation (input) attrMaxFileSize :: nat where "attrMaxFileSize \<equiv> 27"
abbreviation (input) attrMaxLink :: nat where "attrMaxLink \<equiv> 28"
abbreviation (input) attrMaxName :: nat where "attrMaxName \<equiv> 29"
abbreviation (input) attrMaxRead :: nat where "attrMaxRead \<equiv> 30"
abbreviation (input) attrMaxWrite :: nat where "attrMaxWrite \<equiv> 31"
abbreviation (input) attrMode :: nat where "attrMode \<equiv> 33"
abbreviation (input) attrNoTrunc :: nat where "attrNoTrunc \<equiv> 34"
abbreviation (input) attrNumLinks :: nat where "attrNumLinks \<equiv> 35"
abbreviation (input) attrOwner :: nat where "attrOwner \<equiv> 36"
abbreviation (input) attrOwnerGroup :: nat where "attrOwnerGroup \<equiv> 37"
abbreviation (input) attrRawDev :: nat where "attrRawDev \<equiv> 41"
abbreviation (input) attrSpaceAvail :: nat where "attrSpaceAvail \<equiv> 42"
abbreviation (input) attrSpaceFree :: nat where "attrSpaceFree \<equiv> 43"
abbreviation (input) attrSpaceTotal :: nat where "attrSpaceTotal \<equiv> 44"
abbreviation (input) attrSpaceUsed :: nat where "attrSpaceUsed \<equiv> 45"
abbreviation (input) attrTimeAccess :: nat where "attrTimeAccess \<equiv> 47"
abbreviation (input) attrTimeAccessSet :: nat where "attrTimeAccessSet \<equiv> 48"
abbreviation (input) attrTimeDelta :: nat where "attrTimeDelta \<equiv> 51"
abbreviation (input) attrTimeMetadata :: nat where "attrTimeMetadata \<equiv> 52"
abbreviation (input) attrTimeModify :: nat where "attrTimeModify \<equiv> 53"
abbreviation (input) attrTimeModifySet :: nat where "attrTimeModifySet \<equiv> 54"
abbreviation (input) attrMountedOnFileID :: nat where "attrMountedOnFileID \<equiv> 55"
abbreviation (input) nf4Reg :: u32 where "nf4Reg \<equiv> 1"
abbreviation (input) nf4Dir :: u32 where "nf4Dir \<equiv> 2"
abbreviation (input) nf4Blk :: u32 where "nf4Blk \<equiv> 3"
abbreviation (input) nf4Chr :: u32 where "nf4Chr \<equiv> 4"
abbreviation (input) nf4Lnk :: u32 where "nf4Lnk \<equiv> 5"
abbreviation (input) nf4Sock :: u32 where "nf4Sock \<equiv> 6"
abbreviation (input) nf4Fifo :: u32 where "nf4Fifo \<equiv> 7"
abbreviation (input) maxLinkData :: u32 where "maxLinkData \<equiv> 4096"
abbreviation (input) fh4VolatileAny :: u32 where "fh4VolatileAny \<equiv> 2"

abbreviation (input) nfsProgram :: u32 where "nfsProgram \<equiv> 100003"
abbreviation (input) nfsVersion :: u32 where "nfsVersion \<equiv> 4"
abbreviation (input) procNull :: u32 where "procNull \<equiv> 0"
abbreviation (input) procCompound :: u32 where "procCompound \<equiv> 1"
abbreviation (input) rpcVersion :: u32 where "rpcVersion \<equiv> 2"
abbreviation (input) msgCall :: u32 where "msgCall \<equiv> 0"
abbreviation (input) msgReply :: u32 where "msgReply \<equiv> 1"
abbreviation (input) replyAccepted :: u32 where "replyAccepted \<equiv> 0"
abbreviation (input) replyDenied :: u32 where "replyDenied \<equiv> 1"
abbreviation (input) acceptSuccess :: u32 where "acceptSuccess \<equiv> 0"
abbreviation (input) acceptProgUnavail :: u32 where "acceptProgUnavail \<equiv> 1"
abbreviation (input) acceptProgMismatch :: u32 where "acceptProgMismatch \<equiv> 2"
abbreviation (input) acceptProcUnavail :: u32 where "acceptProcUnavail \<equiv> 3"
abbreviation (input) acceptGarbageArgs :: u32 where "acceptGarbageArgs \<equiv> 4"
abbreviation (input) rejectRPCMismatch :: u32 where "rejectRPCMismatch \<equiv> 0"
abbreviation (input) rejectAuthError :: u32 where "rejectAuthError \<equiv> 1"
abbreviation (input) authBadCred :: u32 where "authBadCred \<equiv> 1"
abbreviation (input) maxCredBytes :: u32 where "maxCredBytes \<equiv> 400"
abbreviation (input) maxAuthSysGids :: u32 where "maxAuthSysGids \<equiv> 16"
abbreviation (input) callbackVersion :: u32 where "callbackVersion \<equiv> 1"
abbreviation (input) cbProcNull :: u32 where "cbProcNull \<equiv> 0"
abbreviation (input) cbProcCompound :: u32 where "cbProcCompound \<equiv> 1"
abbreviation (input) opCBRecall :: u32 where "opCBRecall \<equiv> 4"
abbreviation (input) maxCallbackReplyBytes :: nat where "maxCallbackReplyBytes \<equiv> 512"
abbreviation (input) cbNullXID :: u32 where "cbNullXID \<equiv> 1"
abbreviation (input) cbRecallXID :: u32 where "cbRecallXID \<equiv> 2"
abbreviation (input) authBadVerf :: u32 where "authBadVerf \<equiv> 3"

end
