(* ===== verification/Nfs_Ranges.thy ===== *)
theory Nfs_Ranges
  imports Interval_Spec Nfs_Const
begin

text \<open>
  The byte-range arithmetic of \<^verbatim>\<open>nfs4/ops_lock.go\<close>: building a range from an offset and a length,
  overlap, subtraction, setting a range to a lock type, and the canonical form of a lock-owner's ranges.
  Offsets are 64-bit words. \<^verbatim>\<open>sort.Slice\<close> is \<open>sort_key\<close>: the code sorts disjoint ranges, whose
  starts are distinct, so that every sort by start gives the same list.
\<close>

unbundle bit_operations_syntax

section \<open>Definitions\<close>

record lockRange =
  lstart :: u64
  lend :: u64
  toEOF :: bool
  lwrite :: bool

definition maxUint64 :: u64 where
  "maxUint64 = - 1"

definition makeLockRange :: "u64 \<Rightarrow> u64 \<Rightarrow> bool \<Rightarrow> lockRange \<times> nfsStat" where
  "makeLockRange offset len w =
     (if len = 0 then (\<lparr>lstart = 0, lend = 0, toEOF = False, lwrite = False\<rparr>, nfs4ErrInval)
      else if len = maxUint64 then (\<lparr>lstart = offset, lend = 0, toEOF = True, lwrite = w\<rparr>, nfs4OK)
      else if len > maxUint64 - offset
        then (\<lparr>lstart = 0, lend = 0, toEOF = False, lwrite = False\<rparr>, nfs4ErrInval)
      else (\<lparr>lstart = offset, lend = offset + len, toEOF = False, lwrite = w\<rparr>, nfs4OK))"

definition lockType :: "u32 \<Rightarrow> bool \<times> nfsStat" where
  "lockType t =
     (if t = readLT \<or> t = readWLT then (False, nfs4OK)
      else if t = writeLT \<or> t = writeWLT then (True, nfs4OK)
      else (False, nfs4ErrInval))"

definition rangesOverlap :: "lockRange \<Rightarrow> lockRange \<Rightarrow> bool" where
  "rangesOverlap a b \<longleftrightarrow> (toEOF a \<or> lend a > lstart b) \<and> (toEOF b \<or> lend b > lstart a)"

text \<open>The body of the loop of \<^verbatim>\<open>canonicalRanges\<close>: extend the last range of \<open>out\<close>, or start a new one.\<close>

definition canon_step :: "lockRange list \<Rightarrow> lockRange \<Rightarrow> lockRange list" where
  "canon_step out r =
     (if out = [] then [r]
      else let l = last out
           in if lwrite l = lwrite r \<and> (toEOF l \<or> lend l \<ge> lstart r)
              then butlast out @
                [if toEOF r then l\<lparr>toEOF := True, lend := 0\<rparr>
                 else if \<not> toEOF l \<and> lend r > lend l then l\<lparr>lend := lend r\<rparr>
                 else l]
              else out @ [r])"

definition canonicalRanges :: "lockRange list \<Rightarrow> lockRange list" where
  "canonicalRanges ranges = foldl canon_step [] (sort_key lstart ranges)"

text \<open>What the loop of \<^verbatim>\<open>subtractRange\<close> keeps of one held range.\<close>

definition cut_range :: "lockRange \<Rightarrow> lockRange \<Rightarrow> lockRange list" where
  "cut_range c r =
     (if \<not> rangesOverlap r c then [r]
      else (if lstart r < lstart c
            then [\<lparr>lstart = lstart r, lend = lstart c, toEOF = False, lwrite = lwrite r\<rparr>] else [])
        @ (if \<not> toEOF c \<and> (toEOF r \<or> lend r > lend c)
           then [\<lparr>lstart = lend c, lend = lend r, toEOF = toEOF r, lwrite = lwrite r\<rparr>] else []))"

definition subtractRange :: "lockRange list \<Rightarrow> lockRange \<Rightarrow> lockRange list" where
  "subtractRange held c = canonicalRanges (concat (map (cut_range c) held))"

definition setLockRange :: "lockRange list \<Rightarrow> lockRange \<Rightarrow> lockRange list" where
  "setLockRange held add = canonicalRanges (subtractRange held add @ [add])"

definition lockRangeLength :: "lockRange \<Rightarrow> u64" where
  "lockRangeLength r = (if toEOF r then maxUint64 else lend r - lstart r)"

section \<open>Meaning and canonical form\<close>

definition lcover :: "lockRange \<Rightarrow> u64 set" where
  "lcover r = {u. lstart r \<le> u \<and> (toEOF r \<or> u < lend r)}"

text \<open>Bytes held with lock type \<open>w\<close>, and bytes held at all.\<close>

definition held_as :: "bool \<Rightarrow> lockRange list \<Rightarrow> u64 set" where
  "held_as w rs = (\<Union>r \<in> {r \<in> set rs. lwrite r = w}. lcover r)"

definition held_bytes :: "lockRange list \<Rightarrow> u64 set" where
  "held_bytes rs = (\<Union>r \<in> set rs. lcover r)"

definition lr_ok :: "lockRange \<Rightarrow> bool" where
  "lr_ok r \<longleftrightarrow> (if toEOF r then lend r = 0 else lstart r < lend r)"

definition before :: "lockRange \<Rightarrow> lockRange \<Rightarrow> bool" where
  "before a b \<longleftrightarrow> \<not> toEOF a \<and> lend a \<le> lstart b"

text \<open>Sorted, disjoint, and ranges of one type that touch are merged.\<close>

definition apart :: "lockRange \<Rightarrow> lockRange \<Rightarrow> bool" where
  "apart a b \<longleftrightarrow> before a b \<and> (lwrite a = lwrite b \<longrightarrow> lend a < lstart b)"

definition lr_inv :: "lockRange list \<Rightarrow> bool" where
  "lr_inv rs \<longleftrightarrow> (\<forall>r \<in> set rs. lr_ok r) \<and> sorted_wrt apart rs"

lemma lcover_nonempty: "lr_ok r \<Longrightarrow> lstart r \<in> lcover r"
  by (auto simp: lr_ok_def lcover_def split: if_splits)

lemma overlap_iff: "lr_ok a \<Longrightarrow> lr_ok b \<Longrightarrow> rangesOverlap a b \<longleftrightarrow> lcover a \<inter> lcover b \<noteq> {}"
proof
  assume ok: "lr_ok a" "lr_ok b" and "rangesOverlap a b"
  then have "max (lstart a) (lstart b) \<in> lcover a \<inter> lcover b"
    by (auto simp: rangesOverlap_def lcover_def lr_ok_def max_def not_le split: if_splits)
  then show "lcover a \<inter> lcover b \<noteq> {}" by blast
qed (auto simp: rangesOverlap_def lcover_def)

lemma before_disjoint: "before a b \<Longrightarrow> lcover a \<inter> lcover b = {}"
  by (auto simp: before_def lcover_def)

lemma disjoint_before:
  assumes "lr_ok a" "lr_ok b" "lcover a \<inter> lcover b = {}" "lstart a \<le> lstart b"
  shows "before a b"
  using assms lcover_nonempty [OF assms(2)] by (auto simp: before_def lcover_def)

lemma before_trans: "lr_ok b \<Longrightarrow> before a b \<Longrightarrow> before b c \<Longrightarrow> before a c"
  by (auto simp: before_def lr_ok_def split: if_splits)

lemma held_as_simps [simp]:
  "held_as w [] = {}" "held_as w (r # rs) = (if lwrite r = w then lcover r else {}) \<union> held_as w rs"
  "held_as w (rs @ ss) = held_as w rs \<union> held_as w ss"
  by (auto simp: held_as_def)

lemma held_bytes_as: "held_bytes rs = held_as False rs \<union> held_as True rs"
  by (auto simp: held_bytes_def held_as_def)

section \<open>The canonical form\<close>

text \<open>The loop as a recursion that carries the range being extended.\<close>

definition absorb :: "lockRange \<Rightarrow> lockRange \<Rightarrow> lockRange" where
  "absorb l r = (if toEOF r then l\<lparr>toEOF := True, lend := 0\<rparr>
     else if \<not> toEOF l \<and> lend r > lend l then l\<lparr>lend := lend r\<rparr> else l)"

fun canon_rec :: "lockRange \<Rightarrow> lockRange list \<Rightarrow> lockRange list" where
  "canon_rec l [] = [l]"
| "canon_rec l (r # rs) =
     (if lwrite l = lwrite r \<and> (toEOF l \<or> lend l \<ge> lstart r) then canon_rec (absorb l r) rs
      else l # canon_rec r rs)"

lemma foldl_canon: "foldl canon_step (out @ [l]) rs = out @ canon_rec l rs"
proof (induction rs arbitrary: out l)
  case (Cons r rs)
  show ?case
    using Cons.IH [of out "absorb l r"] Cons.IH [of "out @ [l]" r]
    by (auto simp: canon_step_def absorb_def)
qed simp

lemma canonicalRanges_rec:
  "canonicalRanges rs = (case sort_key lstart rs of [] \<Rightarrow> [] | r # rs \<Rightarrow> canon_rec r rs)"
  using foldl_canon [of "[]"] by (auto simp: canonicalRanges_def canon_step_def split: list.splits)

lemma absorb_props:
  assumes "lr_ok l" "lr_ok r" "before l r" "lwrite l = lwrite r" "lend l \<ge> lstart r"
  shows "lr_ok (absorb l r)" "lcover (absorb l r) = lcover l \<union> lcover r" "lwrite (absorb l r) = lwrite r"
    "lstart (absorb l r) = lstart l" "before r x \<Longrightarrow> before (absorb l r) x"
  using assms by (auto simp: absorb_def lr_ok_def before_def lcover_def split: if_splits)

lemma canon_rec_not_Nil: "canon_rec l rs \<noteq> []"
  by (induction l rs rule: canon_rec.induct) auto

lemma canon_rec_correct:
  assumes "sorted_wrt before (l # rs)" "\<forall>r \<in> set (l # rs). lr_ok r"
  shows "lr_inv (canon_rec l rs) \<and> (\<forall>w. held_as w (canon_rec l rs) = held_as w (l # rs))
    \<and> lstart (hd (canon_rec l rs)) = lstart l \<and> lwrite (hd (canon_rec l rs)) = lwrite l
    \<and> (\<forall>x \<in> set (canon_rec l rs). lstart l \<le> lstart x)"
  using assms
proof (induction l rs rule: canon_rec.induct)
  case (1 l)
  then show ?case by (simp add: lr_inv_def)
next
  case (2 l r rs)
  have lr: "before l r" "lr_ok l" "lr_ok r" "\<not> toEOF l" using "2.prems" by (auto simp: before_def)
  show ?case
  proof (cases "lwrite l = lwrite r \<and> lend l \<ge> lstart r")
    case True
    note ab = absorb_props [OF lr(2,3,1)] True
    have "sorted_wrt before (absorb l r # rs)" "\<forall>x \<in> set (absorb l r # rs). lr_ok x"
      using ab "2.prems" by auto
    then show ?thesis using "2.IH"(1) True ab lr(4) by auto
  next
    case False
    then have ap: "apart l r" using lr by (auto simp: apart_def before_def)
    have "sorted_wrt before (r # rs)" "\<forall>x \<in> set (r # rs). lr_ok x" using "2.prems" by auto
    then have IH: "lr_inv (canon_rec r rs)" "\<forall>w. held_as w (canon_rec r rs) = held_as w (r # rs)"
      "lstart (hd (canon_rec r rs)) = lstart r" "lwrite (hd (canon_rec r rs)) = lwrite r"
      "\<forall>x \<in> set (canon_rec r rs). lstart r \<le> lstart x"
      using "2.IH"(2) False lr(4) by auto
    obtain h t where ht: "canon_rec r rs = h # t" by (cases "canon_rec r rs") (auto simp: canon_rec_not_Nil)
    have "apart l h" using ap IH(3,4) ht by (simp add: apart_def before_def)
    moreover have "apart l x" if "x \<in> set t" for x
    proof -
      have "apart h x" "lr_ok h" using IH(1) ht that by (auto simp: lr_inv_def)
      then have "lend l < lstart x"
        using \<open>apart l h\<close> by (auto simp: apart_def before_def lr_ok_def split: if_splits)
      then show ?thesis using lr(4) by (simp add: apart_def before_def)
    qed
    ultimately have "lr_inv (l # canon_rec r rs)" using IH(1) ht lr(2) by (auto simp: lr_inv_def)
    moreover have "\<forall>x \<in> set (canon_rec r rs). lstart l \<le> lstart x"
      using IH(5) lr by (fastforce simp: before_def lr_ok_def split: if_splits)
    ultimately show ?thesis using False lr(4) IH(2) by auto
  qed
qed

text \<open>Disjoint valid ranges, in any order, come out canonical and hold the same bytes.\<close>

definition disjoint_ranges :: "lockRange list \<Rightarrow> bool" where
  "disjoint_ranges rs \<longleftrightarrow> (\<forall>r \<in> set rs. lr_ok r) \<and> distinct rs
     \<and> (\<forall>a \<in> set rs. \<forall>b \<in> set rs. a \<noteq> b \<longrightarrow> lcover a \<inter> lcover b = {})"

lemma disjoint_sorted_before:
  assumes "disjoint_ranges rs" "sorted (map lstart rs)"
  shows "sorted_wrt before rs"
  using assms
proof (induction rs)
  case (Cons a rs)
  then have "disjoint_ranges rs" by (auto simp: disjoint_ranges_def)
  moreover have "before a b" if "b \<in> set rs" for b
    using Cons.prems that by (intro disjoint_before) (auto simp: disjoint_ranges_def)
  ultimately show ?case using Cons by auto
qed simp

lemma canonicalRanges_correct:
  assumes "disjoint_ranges rs"
  shows "lr_inv (canonicalRanges rs)" "held_as w (canonicalRanges rs) = held_as w rs"
proof -
  let ?s = "sort_key lstart rs"
  have "disjoint_ranges ?s" using assms by (simp add: disjoint_ranges_def)
  then have "sorted_wrt before ?s" "\<forall>r \<in> set ?s. lr_ok r"
    using disjoint_sorted_before by (auto simp: disjoint_ranges_def)
  then have "lr_inv (canonicalRanges rs) \<and> held_as w (canonicalRanges rs) = held_as w ?s"
  proof (cases ?s)
    case (Cons a t)
    with canon_rec_correct [of a t] \<open>sorted_wrt before ?s\<close> \<open>\<forall>r \<in> set ?s. lr_ok r\<close> show ?thesis
      by (simp add: canonicalRanges_rec del: set_sort)
  qed (simp add: canonicalRanges_rec lr_inv_def)
  moreover have "held_as w ?s = held_as w rs" by (simp add: held_as_def)
  ultimately show "lr_inv (canonicalRanges rs)" "held_as w (canonicalRanges rs) = held_as w rs" by auto
qed

section \<open>Subtraction and setting\<close>

lemma cut_range_correct:
  assumes "lr_ok c" "lr_ok r"
  shows "\<forall>x \<in> set (cut_range c r). lr_ok x \<and> lwrite x = lwrite r \<and> lcover x \<subseteq> lcover r"
    "held_as w (cut_range c r) = (if lwrite r = w then lcover r - lcover c else {})"
    "sorted_wrt before (cut_range c r)"
proof -
  show "\<forall>x \<in> set (cut_range c r). lr_ok x \<and> lwrite x = lwrite r \<and> lcover x \<subseteq> lcover r"
    using assms by (auto simp: cut_range_def rangesOverlap_def lr_ok_def lcover_def split: if_splits)
  show "sorted_wrt before (cut_range c r)"
    using assms by (auto simp: cut_range_def lr_ok_def before_def split: if_splits)
  show "held_as w (cut_range c r) = (if lwrite r = w then lcover r - lcover c else {})"
  proof (cases "rangesOverlap r c")
    case True
    have "u \<in> held_as w (cut_range c r) \<longleftrightarrow> lwrite r = w \<and> u \<in> lcover r - lcover c" for u
      using True assms by (auto simp: cut_range_def rangesOverlap_def lcover_def lr_ok_def not_less)
    then show ?thesis by auto
  next
    case False
    then show ?thesis using overlap_iff [OF assms(2,1)] by (auto simp: cut_range_def)
  qed
qed

lemma apart_before_sorted: "sorted_wrt apart rs \<Longrightarrow> sorted_wrt before rs"
  by (erule sorted_wrt_mono_rel [rotated]) (simp add: apart_def)

lemma before_subset:
  assumes "lr_ok x" "lr_ok y" "before a b" "lcover x \<subseteq> lcover a" "lcover y \<subseteq> lcover b"
  shows "before x y"
proof (rule disjoint_before [OF assms(1,2)])
  show "lcover x \<inter> lcover y = {}" using before_disjoint [OF assms(3)] assms(4,5) by blast
  have "lstart x \<in> lcover a" "lstart y \<in> lcover b"
    using lcover_nonempty [OF assms(1)] lcover_nonempty [OF assms(2)] assms(4,5) by blast+
  with assms(3) show "lstart x \<le> lstart y" by (auto simp: before_def lcover_def)
qed

lemma sorted_before_disjoint:
  assumes "sorted_wrt before rs" "\<forall>r \<in> set rs. lr_ok r"
  shows "disjoint_ranges rs"
  using assms
proof (induction rs)
  case (Cons a rs)
  have "lcover a \<inter> lcover b = {}" "lcover b \<inter> lcover a = {}" if "b \<in> set rs" for b
    using before_disjoint [of a b] Cons.prems that by auto
  moreover have "a \<notin> set rs" using calculation lcover_nonempty [of a] Cons.prems by auto
  ultimately show ?case using Cons by (auto simp: disjoint_ranges_def)
qed (simp add: disjoint_ranges_def)

lemma cut_all_sorted:
  assumes "sorted_wrt before rs" "\<forall>r \<in> set rs. lr_ok r" "lr_ok c"
  shows "sorted_wrt before (concat (map (cut_range c) rs))
    \<and> (\<forall>x \<in> set (concat (map (cut_range c) rs)). lr_ok x \<and> (\<exists>r \<in> set rs. lcover x \<subseteq> lcover r))"
  using assms
proof (induction rs)
  case (Cons a rs)
  note a = cut_range_correct [OF Cons.prems(3), of a]
  have IH: "sorted_wrt before (concat (map (cut_range c) rs))"
    "\<forall>x \<in> set (concat (map (cut_range c) rs)). lr_ok x \<and> (\<exists>r \<in> set rs. lcover x \<subseteq> lcover r)"
    using Cons by auto
  have "before x y" if "x \<in> set (cut_range c a)" "y \<in> set (concat (map (cut_range c) rs))" for x y
    using IH(2) that a(1) Cons.prems before_subset [of x y a] by fastforce
  with IH a Cons.prems show ?case by (auto simp: sorted_wrt_append)
qed simp

lemma held_as_cut_all:
  assumes "\<forall>r \<in> set rs. lr_ok r" "lr_ok c"
  shows "held_as w (concat (map (cut_range c) rs)) = held_as w rs - lcover c"
  using assms
proof (induction rs)
  case (Cons r rs)
  then show ?case using cut_range_correct(2) [of c r w] by auto
qed simp

lemma lr_inv_disjoint: "lr_inv rs \<Longrightarrow> disjoint_ranges rs"
  unfolding lr_inv_def by (elim conjE, rule sorted_before_disjoint, erule apart_before_sorted)

lemma subtractRange_correct:
  assumes "lr_inv held" "lr_ok c"
  shows "lr_inv (subtractRange held c)" "held_as w (subtractRange held c) = held_as w held - lcover c"
proof -
  have h: "sorted_wrt before held" "\<forall>r \<in> set held. lr_ok r"
    using assms(1) by (auto simp: lr_inv_def apart_before_sorted)
  have "disjoint_ranges (concat (map (cut_range c) held))"
    using cut_all_sorted [OF h assms(2)] by (intro sorted_before_disjoint) auto
  then show "lr_inv (subtractRange held c)" "held_as w (subtractRange held c) = held_as w held - lcover c"
    unfolding subtractRange_def by (simp_all add: canonicalRanges_correct held_as_cut_all [OF h(2) assms(2)])
qed

lemma setLockRange_correct:
  assumes "lr_inv held" "lr_ok a"
  shows "lr_inv (setLockRange held a)"
    "held_as w (setLockRange held a) = (if lwrite a = w then lcover a else {}) \<union> (held_as w held - lcover a)"
proof -
  let ?s = "subtractRange held a"
  note s = subtractRange_correct [OF assms]
  have dis: "lcover a \<inter> lcover r = {}" if "r \<in> set ?s" for r
  proof -
    have "lcover r \<subseteq> held_as (lwrite r) ?s" using that by (auto simp: held_as_def)
    with s(2) [of "lwrite r"] show ?thesis by blast
  qed
  moreover have "a \<notin> set ?s" using dis lcover_nonempty [OF assms(2)] by blast
  ultimately have "disjoint_ranges (?s @ [a])"
    using lr_inv_disjoint [OF s(1)] assms(2) by (auto simp: disjoint_ranges_def)
  then show "lr_inv (setLockRange held a)"
    "held_as w (setLockRange held a) = (if lwrite a = w then lcover a else {}) \<union> (held_as w held - lcover a)"
    unfolding setLockRange_def by (auto simp: canonicalRanges_correct s)
qed

lemma unat_maxUint64 [simp]: "unat maxUint64 = 2 ^ 64 - 1"
  by (simp add: maxUint64_def unsigned_minus_1_eq_mask mask_eq_exp_minus_1)

lemma le_maxUint64 [simp]: "u \<le> maxUint64"
  by (simp add: maxUint64_def)

lemma offset_plus_length:
  assumes "\<not> maxUint64 - off < len"
  shows "unat (off + len) = unat off + unat len"
proof -
  have "unat len \<le> unat (maxUint64 - off)" using assms by (simp add: word_le_nat_alt not_less)
  also have "\<dots> = 2 ^ 64 - 1 - unat off" using unat_sub [OF le_maxUint64, of off] by simp
  finally have "unat off + unat len < 2 ^ LENGTH(64)"
    using unsigned_less [of off, where ?'a = nat] by simp
  then show ?thesis by (simp only: unat_add_lem)
qed

lemma makeLockRange_ok:
  assumes "makeLockRange off len w = (r, nfs4OK)"
  shows "lr_ok r" "lwrite r = w"
    "lcover r = {u. unat off \<le> unat u \<and> (len = maxUint64 \<or> unat u < unat off + unat len)}"
proof -
  consider (eof) "len = maxUint64" "r = \<lparr>lstart = off, lend = 0, toEOF = True, lwrite = w\<rparr>"
    | (bytes) "len \<noteq> maxUint64" "0 < unat len" "\<not> maxUint64 - off < len"
        "r = \<lparr>lstart = off, lend = off + len, toEOF = False, lwrite = w\<rparr>"
    using assms by (auto simp: makeLockRange_def unat_gt_0 split: if_splits)
  then show "lr_ok r" "lwrite r = w"
    "lcover r = {u. unat off \<le> unat u \<and> (len = maxUint64 \<or> unat u < unat off + unat len)}"
    by (cases; simp add: lr_ok_def lcover_def word_less_nat_alt word_le_nat_alt offset_plus_length)+
qed

section \<open>Uniqueness of the canonical form\<close>

lemma lr_inv_Cons:
  "lr_inv (r # rs) \<longleftrightarrow> lr_ok r \<and> (\<forall>x \<in> set rs. apart r x) \<and> lr_inv rs"
  by (auto simp: lr_inv_def)

lemma lr_inv_tail_after:
  assumes "lr_inv (r # rs)" "u \<in> held_as w rs"
  shows "\<not> toEOF r \<and> lend r \<le> u \<and> (w = lwrite r \<longrightarrow> lend r < u)"
  using assms by (auto simp: lr_inv_Cons held_as_def lcover_def apart_def before_def)

lemma lr_inv_head:
  assumes "lr_inv (r # rs)"
  shows "lstart r \<in> held_as w (r # rs) \<longleftrightarrow> w = lwrite r"
    and "u \<in> held_as w (r # rs) \<Longrightarrow> lstart r \<le> u"
    and "u \<in> lcover r \<Longrightarrow> u \<in> held_as (lwrite r) (r # rs)"
    and "\<not> toEOF r \<Longrightarrow> lend r \<notin> held_as (lwrite r) (r # rs)"
    and "held_as w rs = held_as w (r # rs) - lcover r"
proof -
  have ok: "lr_ok r" using assms by (simp add: lr_inv_Cons)
  note after = lr_inv_tail_after [OF assms]
  have disj: "u \<notin> lcover r" if "u \<in> held_as w rs" for u w
    using after [OF that] by (auto simp: lcover_def)
  show "lstart r \<in> held_as w (r # rs) \<longleftrightarrow> w = lwrite r"
    using disj lcover_nonempty [OF ok] by auto
  show "lstart r \<le> u" if "u \<in> held_as w (r # rs)"
    using that after [of u w] ok by (auto simp: lcover_def lr_ok_def split: if_splits)
  show "u \<in> lcover r \<Longrightarrow> u \<in> held_as (lwrite r) (r # rs)" by simp
  show "lend r \<notin> held_as (lwrite r) (r # rs)" if "\<not> toEOF r"
    using that after [of "lend r" "lwrite r"] by (auto simp: lcover_def)
  show "held_as w rs = held_as w (r # rs) - lcover r" using disj by auto
qed

lemma same_head:
  assumes "lr_inv (r # rs)" "lr_inv (r' # rs')" "\<And>w. held_as w (r # rs) = held_as w (r' # rs')"
  shows "r = r'"
proof -
  note a = lr_inv_head [OF assms(1)] and b = lr_inv_head [OF assms(2)]
  have ok: "lr_ok r" "lr_ok r'" using assms(1,2) by (simp_all add: lr_inv_Cons)
  have st: "lstart r = lstart r'"
    using a(1) [of "lwrite r"] b(1) [of "lwrite r'"] a(2) b(2) assms(3) by (metis order_antisym)
  have wr: "lwrite r = lwrite r'" using a(1) b(1) assms(3) st by metis
  have ends: "\<not> lend x < lend y" if "lr_inv (x # xs)" "lr_inv (y # ys)" "lstart x = lstart y" "lwrite x = lwrite y"
    "\<not> toEOF x" "\<not> toEOF y" "held_as (lwrite x) (x # xs) = held_as (lwrite x) (y # ys)" for x y xs ys
    using lr_inv_head(4) [OF that(1,5)] lr_inv_head(3) [OF that(2), of "lend x"] that lr_inv_Cons [of x xs]
    by (auto simp: lcover_def lr_ok_def)
  have eof: "\<not> toEOF y" if "lr_inv (x # xs)" "lr_inv (y # ys)" "lstart x = lstart y" "lwrite x = lwrite y"
    "\<not> toEOF x" "held_as (lwrite x) (x # xs) = held_as (lwrite x) (y # ys)" for x y xs ys
    using lr_inv_head(4) [OF that(1,5)] lr_inv_head(3) [OF that(2), of "lend x"] that lr_inv_Cons [of x xs]
    by (auto simp: lcover_def lr_ok_def)
  have t: "toEOF r = toEOF r'"
    using eof [OF assms(1,2)] eof [OF assms(2,1)] st wr assms(3) by metis
  have "lend r = lend r'"
  proof (cases "toEOF r")
    case True
    then show ?thesis using ok t by (simp add: lr_ok_def)
  next
    case False
    then show ?thesis using ends [OF assms(1,2)] ends [OF assms(2,1)] st wr t assms(3)
      by (metis linorder_neqE)
  qed
  with st wr t show ?thesis by simp
qed

lemma lr_canonical:
  assumes "lr_inv s" "lr_inv t" "\<And>w. held_as w s = held_as w t"
  shows "s = t"
  using assms
proof (induction s arbitrary: t)
  case Nil
  show ?case
  proof (cases t)
    case (Cons b t')
    then show ?thesis
      using Nil.prems(2) Nil.prems(3) [of "lwrite b"] lr_inv_head(1) [of b t' "lwrite b"] by simp
  qed simp
next
  case (Cons a s)
  obtain b t' where t: "t = b # t'"
    using Cons.prems(1) Cons.prems(3) [of "lwrite a"] lr_inv_head(1) [of a s "lwrite a"]
    by (cases t) (simp_all del: held_as_simps(2))
  have "a = b" using same_head [of a s b t'] Cons.prems t by simp
  moreover have "held_as w s = held_as w t'" for w
    using lr_inv_head(5) [OF Cons.prems(1)] lr_inv_head(5) [of b t'] Cons.prems t \<open>a = b\<close> by metis
  ultimately show ?case using Cons t by (auto simp: lr_inv_Cons)
qed

section \<open>Lock ranges provide the interface\<close>

interpretation nfsr: span_set lr_ok lcover lr_inv held_bytes setLockRange subtractRange
  by unfold_locales
    (auto simp: held_bytes_as setLockRange_correct subtractRange_correct split: if_splits)

section \<open>Growth under LOCKU\<close>

definition byte_at :: "nat \<Rightarrow> u64" where
  "byte_at k = word_of_nat k"

text \<open>Single bytes at every odd offset below \<open>2 * n\<close>, and what is left of a whole-file lock without them.\<close>

definition odd_byte :: "nat \<Rightarrow> lockRange" where
  "odd_byte k = \<lparr>lstart = byte_at (2 * k + 1), lend = byte_at (2 * k + 2), toEOF = False, lwrite = False\<rparr>"

definition comb :: "nat \<Rightarrow> lockRange list" where
  "comb n = map (\<lambda>k. \<lparr>lstart = byte_at (2 * k), lend = byte_at (2 * k + 1), toEOF = False, lwrite = True\<rparr>)
     [0..<n] @ [\<lparr>lstart = byte_at (2 * n), lend = 0, toEOF = True, lwrite = True\<rparr>]"

lemma unat_byte_at: "k < 2 ^ 64 \<Longrightarrow> unat (byte_at k) = k"
  by (simp add: byte_at_def unat_of_nat take_bit_nat_eq_self)

lemma held_as_comb:
  assumes "2 * n < 2 ^ 64 - 1"
  shows "held_as w (comb n) = (if w then {u. 2 * n \<le> unat u \<or> even (unat u)} else {})"
proof -
  let ?tooth = "\<lambda>k. \<lparr>lstart = byte_at (2 * k), lend = byte_at (2 * k + 1), toEOF = False, lwrite = True\<rparr>"
  have tooth: "lcover (?tooth k) = {u. unat u = 2 * k}" if "k < n" for k
    using that assms by (auto simp: lcover_def word_le_nat_alt word_less_nat_alt unat_byte_at)
  have rest: "lcover \<lparr>lstart = byte_at (2 * n), lend = 0, toEOF = True, lwrite = True\<rparr> = {u. 2 * n \<le> unat u}"
    using assms by (simp add: lcover_def word_le_nat_alt unat_byte_at)
  have map: "held_as w (map ?tooth ks) = (if w then (\<Union>k \<in> set ks. lcover (?tooth k)) else {})" for ks
    by (induction ks) auto
  have "(\<Union>k \<in> {0..<n}. lcover (?tooth k)) = (\<Union>k \<in> {0..<n}. {u. unat u = 2 * k})"
    using tooth by (intro SUP_cong) auto
  then have "held_as w (comb n) = (if w then (\<Union>k \<in> {0..<n}. {u. unat u = 2 * k}) \<union> {u. 2 * n \<le> unat u} else {})"
    unfolding comb_def held_as_simps map rest by simp
  also have "(\<Union>k \<in> {0..<n}. {u. unat u = 2 * k}) \<union> {u. 2 * n \<le> unat u}
      = {u :: u64. 2 * n \<le> unat u \<or> even (unat u)}"
    by (intro set_eqI) (auto simp: not_le elim!: evenE)
  finally show ?thesis .
qed

lemma lr_inv_comb:
  assumes "2 * n < 2 ^ 64 - 1"
  shows "lr_inv (comb n)"
  unfolding lr_inv_def comb_def sorted_wrt_append
  using assms
  by (auto simp: lr_ok_def apart_def before_def sorted_wrt_map word_le_nat_alt word_less_nat_alt unat_byte_at
      sorted_wrt_upt intro!: sorted_wrt_mono_rel [OF _ sorted_wrt_upt])

lemma comb_step:
  assumes "2 * n + 2 < 2 ^ 64 - 1"
  shows "subtractRange (comb n) (odd_byte n) = comb (Suc n)"
proof (rule lr_canonical)
  have ok: "lr_ok (odd_byte n)"
    using assms by (simp add: lr_ok_def odd_byte_def word_less_nat_alt unat_byte_at)
  have inv: "lr_inv (comb n)" using assms by (intro lr_inv_comb) simp
  show "lr_inv (subtractRange (comb n) (odd_byte n))" by (rule subtractRange_correct [OF inv ok])
  show "lr_inv (comb (Suc n))" using assms by (intro lr_inv_comb) simp
  have cov: "lcover (odd_byte n) = {u. unat u = 2 * n + 1}"
    using assms by (auto simp: lcover_def odd_byte_def word_le_nat_alt word_less_nat_alt unat_byte_at)
  show "held_as w (subtractRange (comb n) (odd_byte n)) = held_as w (comb (Suc n))" for w
    unfolding subtractRange_correct(2) [OF inv ok] cov
    using held_as_comb [of n w] held_as_comb [of "Suc n" w] assms
    by (auto; presburger)
qed

lemma comb_reached:
  "2 * n < 2 ^ 64 - 1 \<Longrightarrow> foldl subtractRange (comb 0) (map odd_byte [0..<n]) = comb n"
  by (induction n) (simp_all add: comb_step)

section \<open>Properties\<close>

text \<open>
  C25. Setting a range of a well-formed lock state to a lock type and subtracting a range from one give a
  well-formed state (sorted, disjoint, touching ranges of one type merged). Byte for byte, setting
  overrides the type of exactly the bytes of the range and subtracting frees exactly them. The
  well-formed list is the only one for its bytes and types.
\<close>

theorem lock_ranges_exact:
  assumes "lr_inv held" "makeLockRange off len w = (r, nfs4OK)"
  shows "lr_inv (setLockRange held r) \<and> lr_inv (subtractRange held r)
    \<and> held_as w (setLockRange held r) = held_as w held \<union> lcover r
    \<and> held_as (\<not> w) (setLockRange held r) = held_as (\<not> w) held - lcover r
    \<and> held_as v (subtractRange held r) = held_as v held - lcover r
    \<and> (\<forall>other. lr_inv other \<longrightarrow> (\<forall>v. held_as v other = held_as v (setLockRange held r))
        \<longrightarrow> other = setLockRange held r)"
proof -
  note r = makeLockRange_ok(1,2) [OF assms(2)]
  note set = setLockRange_correct [OF assms(1) r(1), unfolded r(2)]
  note sub = subtractRange_correct [OF assms(1) r(1)]
  have "held_as w (setLockRange held r) = held_as w held \<union> lcover r" unfolding set(2) by auto
  moreover have "held_as (\<not> w) (setLockRange held r) = held_as (\<not> w) held - lcover r"
    unfolding set(2) by auto
  ultimately show ?thesis using set(1) sub lr_canonical [OF _ set(1)] by blast
qed

theorem lock_ranges_exact_witness:
  "lr_inv (setLockRange [\<lparr>lstart = 0, lend = 10, toEOF = False, lwrite = False\<rparr>] \<lparr>lstart = 4, lend = 6, toEOF = False, lwrite = True\<rparr>)
    \<and> held_as True (setLockRange [\<lparr>lstart = 0, lend = 10, toEOF = False, lwrite = False\<rparr>] \<lparr>lstart = 4, lend = 6, toEOF = False, lwrite = True\<rparr>)
      = held_as True [\<lparr>lstart = 0, lend = 10, toEOF = False, lwrite = False\<rparr>] \<union> lcover \<lparr>lstart = 4, lend = 6, toEOF = False, lwrite = True\<rparr>
    \<and> held_as False (subtractRange [\<lparr>lstart = 0, lend = 10, toEOF = False, lwrite = False\<rparr>] \<lparr>lstart = 4, lend = 6, toEOF = False, lwrite = True\<rparr>)
      = held_as False [\<lparr>lstart = 0, lend = 10, toEOF = False, lwrite = False\<rparr>] - lcover \<lparr>lstart = 4, lend = 6, toEOF = False, lwrite = True\<rparr>"
proof -
  have "lr_inv [\<lparr>lstart = 0, lend = 10, toEOF = False, lwrite = False\<rparr>]" by (simp add: lr_inv_def lr_ok_def)
  moreover have "makeLockRange 4 2 True = (\<lparr>lstart = 4, lend = 6, toEOF = False, lwrite = True\<rparr>, nfs4OK)"
    by (simp add: makeLockRange_def maxUint64_def)
  ultimately show ?thesis by (auto simp only: lock_ranges_exact)
qed

text \<open>
  C34. \<^verbatim>\<open>makeLockRange\<close> accepts a pair exactly when the bytes it names fit below the top offset (or run to
  the end of the file); the accepted range covers exactly the bytes from the offset, with no wrap of the
  64-bit sum, and \<^verbatim>\<open>lockRangeLength\<close> gives back the length the client sent.
\<close>

theorem makeLockRange_no_wrap:
  "snd (makeLockRange off len w) = (if len = 0 \<or> len \<noteq> maxUint64 \<and> unat off + unat len > 2 ^ 64 - 1
      then nfs4ErrInval else nfs4OK)
    \<and> (snd (makeLockRange off len w) = nfs4OK
      \<longrightarrow> lcover (fst (makeLockRange off len w))
            = {u. unat off \<le> unat u \<and> (len = maxUint64 \<or> unat u < unat off + unat len)}
        \<and> lockRangeLength (fst (makeLockRange off len w)) = len)"
proof -
  have "unat (maxUint64 - off) = 2 ^ 64 - 1 - unat off" using unat_sub [OF le_maxUint64, of off] by simp
  then have gt: "maxUint64 - off < len \<longleftrightarrow> 2 ^ 64 - 1 < unat off + unat len"
    using unsigned_less [of off, where ?'a = nat] by (auto simp: word_less_nat_alt)
  have st: "snd (makeLockRange off len w) = (if len = 0 \<or> len \<noteq> maxUint64 \<and> unat off + unat len > 2 ^ 64 - 1
      then nfs4ErrInval else nfs4OK)"
    using gt by (auto simp: makeLockRange_def)
  moreover have "lockRangeLength (fst (makeLockRange off len w)) = len"
    if "snd (makeLockRange off len w) = nfs4OK"
    using that by (auto simp: makeLockRange_def lockRangeLength_def split: if_splits)
  moreover have "lcover (fst (makeLockRange off len w))
      = {u. unat off \<le> unat u \<and> (len = maxUint64 \<or> unat u < unat off + unat len)}"
    if "snd (makeLockRange off len w) = nfs4OK"
    by (rule makeLockRange_ok(3) [of off len w]) (use that in \<open>simp add: prod_eq_iff\<close>)
  ultimately show ?thesis by blast
qed

theorem makeLockRange_no_wrap_witness:
  "snd (makeLockRange 4 2 True) = nfs4OK
    \<and> lcover (fst (makeLockRange 4 2 True)) = {u. 4 \<le> unat u \<and> unat u < 6}"
  using makeLockRange_no_wrap [of 4 2 True] by (simp add: maxUint64_def)



text \<open>
  C36. The number of ranges of a lock state has no bound under \<^verbatim>\<open>LOCKU\<close>: starting from one whole-file lock,
  unlocking \<open>n\<close> single bytes leaves \<open>n + 1\<close> ranges, for every \<open>n\<close> below \<open>2 ^ 63 - 1\<close>. In particular it passes
  the limit that \<^verbatim>\<open>LOCK\<close> enforces.
\<close>

theorem subtractRange_unbounded:
  assumes "n < 2 ^ 63 - 1"
  shows "length (foldl subtractRange [\<lparr>lstart = 0, lend = 0, toEOF = True, lwrite = True\<rparr>]
    (map odd_byte [0..<n])) = n + 1"
  using comb_reached [of n] assms by (simp add: comb_def byte_at_def)

theorem subtractRange_unbounded_witness:
  "length (foldl subtractRange [\<lparr>lstart = 0, lend = 0, toEOF = True, lwrite = True\<rparr>]
    (map odd_byte [0..<5000])) = 5000 + 1"
  by (rule subtractRange_unbounded) simp


end
