(* ===== verification/Xdr.thy ===== *)
theory Xdr
  imports Facet_Prelude
begin

text \<open>
  \<^verbatim>\<open>internal/xdr/xdr.go\<close>: the XDR decoder with its sticky error and the encoder, over byte lists. Go's
  \<^verbatim>\<open>encoding/binary\<close> big-endian helpers are written out as shifts. A Go string is its bytes read as
  characters. Offsets are naturals: they never exceed the buffer's length.
\<close>

unbundle bit_operations_syntax

section \<open>Big-endian integers\<close>

definition be_Uint32 :: "bytes \<Rightarrow> u32" where
  "be_Uint32 b = push_bit 24 (ucast (b ! 0)) OR push_bit 16 (ucast (b ! 1))
     OR push_bit 8 (ucast (b ! 2)) OR ucast (b ! 3)"

definition be_PutUint32 :: "u32 \<Rightarrow> bytes" where
  "be_PutUint32 v = [ucast (drop_bit 24 v), ucast (drop_bit 16 v), ucast (drop_bit 8 v), ucast v]"

definition be_Uint64 :: "bytes \<Rightarrow> u64" where
  "be_Uint64 b = push_bit 56 (ucast (b ! 0)) OR push_bit 48 (ucast (b ! 1))
     OR push_bit 40 (ucast (b ! 2)) OR push_bit 32 (ucast (b ! 3)) OR push_bit 24 (ucast (b ! 4))
     OR push_bit 16 (ucast (b ! 5)) OR push_bit 8 (ucast (b ! 6)) OR ucast (b ! 7)"

definition be_PutUint64 :: "u64 \<Rightarrow> bytes" where
  "be_PutUint64 v = [ucast (drop_bit 56 v), ucast (drop_bit 48 v), ucast (drop_bit 40 v),
     ucast (drop_bit 32 v), ucast (drop_bit 24 v), ucast (drop_bit 16 v), ucast (drop_bit 8 v), ucast v]"

section \<open>Decoder\<close>

datatype xdr_error = ErrShort | ErrBound | ErrValue

record decoder =
  dbuf :: bytes
  doff :: nat
  derr :: "xdr_error option"

definition newDecoder :: "bytes \<Rightarrow> decoder" where
  "newDecoder buf = \<lparr>dbuf = buf, doff = 0, derr = None\<rparr>"

definition d_remaining :: "decoder \<Rightarrow> nat" where
  "d_remaining d = length (dbuf d) - doff d"

definition d_fail :: "xdr_error \<Rightarrow> decoder \<Rightarrow> decoder" where
  "d_fail err d = (if derr d = None then d\<lparr>derr := Some err\<rparr> else d)"

definition xdr_pad :: "u32 \<Rightarrow> u32" where
  "xdr_pad n = (4 - n mod 4) mod 4"

definition d_uint32 :: "decoder \<Rightarrow> u32 \<times> decoder" where
  "d_uint32 d =
     (if derr d \<noteq> None then (0, d)
      else if d_remaining d < 4 then (0, d_fail ErrShort d)
      else (be_Uint32 (drop (doff d) (dbuf d)), d\<lparr>doff := doff d + 4\<rparr>))"

definition d_uint64 :: "decoder \<Rightarrow> u64 \<times> decoder" where
  "d_uint64 d =
     (if derr d \<noteq> None then (0, d)
      else if d_remaining d < 8 then (0, d_fail ErrShort d)
      else (be_Uint64 (drop (doff d) (dbuf d)), d\<lparr>doff := doff d + 8\<rparr>))"

definition d_bool :: "decoder \<Rightarrow> bool \<times> decoder" where
  "d_bool d =
     (let (v, d) = d_uint32 d
      in if v = 0 then (False, d) else if v = 1 then (True, d) else (False, d_fail ErrValue d))"

definition d_opaqueFixed :: "u32 \<Rightarrow> decoder \<Rightarrow> bytes \<times> decoder" where
  "d_opaqueFixed n d =
     (if derr d \<noteq> None then ([], d)
      else let padded = unat n + unat (xdr_pad n)
           in if d_remaining d < padded then ([], d_fail ErrShort d)
              else (take (unat n) (drop (doff d) (dbuf d)), d\<lparr>doff := doff d + padded\<rparr>))"

definition d_opaque :: "u32 \<Rightarrow> decoder \<Rightarrow> bytes \<times> decoder" where
  "d_opaque mx d =
     (let (n, d) = d_uint32 d
      in if derr d \<noteq> None then ([], d)
         else if n > mx then ([], d_fail ErrBound d)
         else d_opaqueFixed n d)"

definition byte_char :: "byte \<Rightarrow> char" where
  "byte_char b = char_of (unat b)"

definition char_byte :: "char \<Rightarrow> byte" where
  "char_byte c = word_of_nat (of_char c)"

definition d_string :: "u32 \<Rightarrow> decoder \<Rightarrow> string \<times> decoder" where
  "d_string mx d = (let (b, d) = d_opaque mx d in (map byte_char b, d))"

definition d_skip :: "u32 \<Rightarrow> decoder \<Rightarrow> decoder" where
  "d_skip n d = snd (d_opaqueFixed n d)"

section \<open>Encoder\<close>

type_synonym encoder = bytes

definition e_truncate :: "nat \<Rightarrow> encoder \<Rightarrow> encoder" where
  "e_truncate n e = take n e"

definition e_patchUint32 :: "nat \<Rightarrow> u32 \<Rightarrow> encoder \<Rightarrow> encoder" where
  "e_patchUint32 n v e = take n e @ be_PutUint32 v @ drop (n + 4) e"

definition e_reserve :: "u32 \<Rightarrow> encoder \<Rightarrow> encoder" where
  "e_reserve n e = e @ replicate (unat n + unat (xdr_pad n)) 0"

definition e_uint32 :: "u32 \<Rightarrow> encoder \<Rightarrow> encoder" where
  "e_uint32 v e = e @ be_PutUint32 v"

definition e_uint64 :: "u64 \<Rightarrow> encoder \<Rightarrow> encoder" where
  "e_uint64 v e = e @ be_PutUint64 v"

definition e_bool :: "bool \<Rightarrow> encoder \<Rightarrow> encoder" where
  "e_bool v e = (if v then e_uint32 1 e else e_uint32 0 e)"

definition e_opaqueFixed :: "bytes \<Rightarrow> encoder \<Rightarrow> encoder" where
  "e_opaqueFixed b e = e @ b @ replicate (unat (xdr_pad (word_of_nat (length b)))) 0"

definition e_opaque :: "bytes \<Rightarrow> encoder \<Rightarrow> encoder" where
  "e_opaque b e = e_opaqueFixed b (e_uint32 (word_of_nat (length b)) e)"

definition e_string :: "string \<Rightarrow> encoder \<Rightarrow> encoder" where
  "e_string s e = e_uint32 (word_of_nat (length s)) e @ map char_byte s
     @ replicate (unat (xdr_pad (word_of_nat (length s)))) 0"

section \<open>Big-endian round trips\<close>

lemma be_lengths [simp]: "length (be_PutUint32 v) = 4" "length (be_PutUint64 w) = 8"
  by (simp_all add: be_PutUint32_def be_PutUint64_def)

text \<open>The byte of a word at bit \<open>k\<close>, put back at bit \<open>k\<close>.\<close>

lemma bit_byte_at:
  "bit (push_bit k (ucast (ucast (drop_bit k (v :: 'a::len word)) :: byte)) :: 'a word) n
    \<longleftrightarrow> k \<le> n \<and> n < k + 8 \<and> bit v n"
  by (auto simp: bit_simps dest: bit_imp_le_length)

lemma be_Uint32_Put [simp]: "be_Uint32 (be_PutUint32 v @ rest) = v"
proof (rule bit_word_eqI)
  fix n assume "n < LENGTH(32)"
  then have "n < 8 \<or> 8 \<le> n \<and> n < 16 \<or> 16 \<le> n \<and> n < 24 \<or> 24 \<le> n \<and> n < 32" by auto
  then show "bit (be_Uint32 (be_PutUint32 v @ rest)) n = bit v n"
    using bit_byte_at [of 0 v n]
    by (auto simp: be_Uint32_def be_PutUint32_def nth_append bit_or_iff bit_byte_at)
qed

lemma be_Uint64_Put [simp]: "be_Uint64 (be_PutUint64 v @ rest) = v"
proof (rule bit_word_eqI)
  fix n assume "n < LENGTH(64)"
  then have "n < 8 \<or> 8 \<le> n \<and> n < 16 \<or> 16 \<le> n \<and> n < 24 \<or> 24 \<le> n \<and> n < 32
    \<or> 32 \<le> n \<and> n < 40 \<or> 40 \<le> n \<and> n < 48 \<or> 48 \<le> n \<and> n < 56 \<or> 56 \<le> n \<and> n < 64" by auto
  then show "bit (be_Uint64 (be_PutUint64 v @ rest)) n = bit v n"
    using bit_byte_at [of 0 v n]
    by (auto simp: be_Uint64_def be_PutUint64_def nth_append bit_or_iff bit_byte_at)
qed

lemma be_PutUint64_inj [simp]: "be_PutUint64 a = be_PutUint64 b \<longleftrightarrow> a = b"
  by (metis append_Nil2 be_Uint64_Put)

lemma byte_char_inverse [simp]: "byte_char (char_byte c) = c" "char_byte (byte_char b) = b"
proof -
  show "byte_char (char_byte c) = c"
    by (simp add: byte_char_def char_byte_def unat_of_nat take_bit_eq_mod)
  have "unat b < 256" using unsigned_less [of b, where ?'a = nat] by simp
  then show "char_byte (byte_char b) = b" by (simp add: byte_char_def char_byte_def)
qed

lemma xdr_pad_less: "unat (xdr_pad n) < 4"
proof -
  have "unat (xdr_pad n) = unat (4 - n mod 4) mod 4" by (simp add: xdr_pad_def unat_mod)
  then show ?thesis by simp
qed

section \<open>Messages as sequences of values\<close>

text \<open>
  The operations compose one value at a time, so a message is a list of typed values: \<open>xdr_ty\<close> is what a
  caller asks the decoder for (with its bound), \<open>xdr_val\<close> what the encoder is given.
\<close>

datatype xdr_ty = TU32 | TU64 | TBool | TFixed u32 | TOpaque u32 | TString u32

datatype xdr_val = VU32 u32 | VU64 u64 | VBool bool | VFixed bytes | VOpaque bytes | VString string

fun enc_val :: "xdr_val \<Rightarrow> encoder \<Rightarrow> encoder" where
  "enc_val (VU32 v) e = e_uint32 v e"
| "enc_val (VU64 v) e = e_uint64 v e"
| "enc_val (VBool v) e = e_bool v e"
| "enc_val (VFixed b) e = e_opaqueFixed b e"
| "enc_val (VOpaque b) e = e_opaque b e"
| "enc_val (VString s) e = e_string s e"

fun dec_val :: "xdr_ty \<Rightarrow> decoder \<Rightarrow> xdr_val \<times> decoder" where
  "dec_val TU32 d = apfst VU32 (d_uint32 d)"
| "dec_val TU64 d = apfst VU64 (d_uint64 d)"
| "dec_val TBool d = apfst VBool (d_bool d)"
| "dec_val (TFixed n) d = apfst VFixed (d_opaqueFixed n d)"
| "dec_val (TOpaque mx) d = apfst VOpaque (d_opaque mx d)"
| "dec_val (TString mx) d = apfst VString (d_string mx d)"

fun dec_vals :: "xdr_ty list \<Rightarrow> decoder \<Rightarrow> xdr_val list \<times> decoder" where
  "dec_vals [] d = ([], d)"
| "dec_vals (t # ts) d = (let (v, d) = dec_val t d; (vs, d) = dec_vals ts d in (v # vs, d))"

text \<open>A value that a reader asking for \<open>t\<close> accepts: the right shape, and a length within the bound.\<close>

fun fits :: "xdr_val \<Rightarrow> xdr_ty \<Rightarrow> bool" where
  "fits (VU32 v) TU32 = True"
| "fits (VU64 v) TU64 = True"
| "fits (VBool v) TBool = True"
| "fits (VFixed b) (TFixed n) = (length b = unat n)"
| "fits (VOpaque b) (TOpaque mx) = (length b \<le> unat mx)"
| "fits (VString s) (TString mx) = (length s \<le> unat mx)"
| "fits _ _ = False"

fun val_bytes :: "xdr_val \<Rightarrow> nat" where
  "val_bytes (VFixed b) = length b"
| "val_bytes (VOpaque b) = length b"
| "val_bytes (VString s) = length s"
| "val_bytes _ = 0"

text \<open>Every encoding operation only appends.\<close>

lemma enc_val_append: "enc_val v e = e @ enc_val v []"
  by (cases v) (simp_all add: e_uint32_def e_uint64_def e_bool_def e_opaqueFixed_def e_opaque_def e_string_def)

lemma fold_enc_append: "fold enc_val vs e = e @ fold enc_val vs []"
proof (induction vs arbitrary: e)
  case (Cons v vs)
  have "fold enc_val vs (enc_val v e) = (e @ enc_val v []) @ fold enc_val vs []"
    by (subst Cons) (simp add: enc_val_append [of v e])
  also have "\<dots> = e @ fold enc_val vs (enc_val v [])" by (subst (2) Cons) simp
  finally show ?case by simp
qed simp

lemma unat_of_length: "n \<le> unat (mx :: u32) \<Longrightarrow> unat (word_of_nat n :: u32) = n"
  using unsigned_less [of mx, where ?'a = nat] by (simp add: unat_of_nat take_bit_nat_eq_self)

text \<open>Reading back what was just encoded at the decoder's offset, primitive by primitive.\<close>

lemma d_remaining_drop: "d_remaining d = length (drop (doff d) (dbuf d))"
  by (simp add: d_remaining_def)

lemma d_uint32_at:
  assumes "derr d = None" "drop (doff d) (dbuf d) = be_PutUint32 v @ rest"
  shows "d_uint32 d = (v, d\<lparr>doff := doff d + 4\<rparr>)"
  using assms by (simp add: d_uint32_def d_remaining_drop)

lemma d_uint64_at:
  assumes "derr d = None" "drop (doff d) (dbuf d) = be_PutUint64 v @ rest"
  shows "d_uint64 d = (v, d\<lparr>doff := doff d + 8\<rparr>)"
  using assms by (simp add: d_uint64_def d_remaining_drop)

lemma d_opaqueFixed_at:
  assumes "derr d = None" "drop (doff d) (dbuf d) = b @ replicate (unat (xdr_pad n)) 0 @ rest"
    "length b = unat n"
  shows "d_opaqueFixed n d = (b, d\<lparr>doff := doff d + (length b + unat (xdr_pad n))\<rparr>)"
  using assms by (simp add: d_opaqueFixed_def d_remaining_drop)

lemma d_opaque_at:
  assumes "derr d = None" "drop (doff d) (dbuf d) = e_opaque b [] @ rest" "length b \<le> unat mx"
  shows "d_opaque mx d = (b, d\<lparr>doff := doff d + length (e_opaque b [])\<rparr>)"
proof -
  let ?n = "word_of_nat (length b) :: u32" and ?d = "d\<lparr>doff := doff d + 4\<rparr>"
  have n: "unat ?n = length b" by (rule unat_of_length [OF assms(3)])
  have "d_uint32 d = (?n, ?d)"
    using assms(1,2) by (intro d_uint32_at) (simp_all add: e_opaque_def e_uint32_def e_opaqueFixed_def)
  moreover have "drop (doff ?d) (dbuf ?d) = drop 4 (drop (doff d) (dbuf d))"
    by (simp add: add.commute)
  then have "drop (doff ?d) (dbuf ?d) = b @ replicate (unat (xdr_pad ?n)) 0 @ rest"
    unfolding assms(2) by (simp add: e_opaque_def e_uint32_def e_opaqueFixed_def)
  then have "d_opaqueFixed ?n ?d = (b, ?d\<lparr>doff := doff ?d + (length b + unat (xdr_pad ?n))\<rparr>)"
    using assms(1) n by (intro d_opaqueFixed_at) simp_all
  moreover have "\<not> mx < ?n" using n assms(3) by (simp add: word_less_nat_alt)
  ultimately show ?thesis
    using assms(1) by (simp add: d_opaque_def e_opaque_def e_uint32_def e_opaqueFixed_def add.assoc)
qed

lemma e_string_opaque: "e_string s e = e_opaque (map char_byte s) e"
  by (simp add: e_string_def e_opaque_def e_opaqueFixed_def)

lemma dec_enc_val:
  assumes "fits v t" "derr d = None" "drop (doff d) (dbuf d) = enc_val v [] @ rest"
  shows "dec_val t d = (v, d\<lparr>doff := doff d + length (enc_val v [])\<rparr>)"
  using assms
proof (cases "(v, t)" rule: fits.cases)
  case (4 b n)
  then have "word_of_nat (length b) = n" using assms(1) by simp
  with 4 assms show ?thesis
    using d_opaqueFixed_at [of d b n rest] by (simp add: e_opaqueFixed_def)
next
  case (6 x mx)
  then show ?thesis
    using d_opaque_at [of d "map char_byte x" rest mx] assms
    by (simp add: d_string_def e_string_opaque comp_def)
qed (auto simp: e_uint32_def e_uint64_def e_bool_def d_bool_def d_uint32_at d_uint64_at d_opaque_at
  split: if_splits)

lemma dec_vals_enc:
  assumes "list_all2 fits vs ts" "derr d = None" "drop (doff d) (dbuf d) = fold enc_val vs [] @ rest"
  shows "dec_vals ts d = (vs, d\<lparr>doff := doff d + length (fold enc_val vs [])\<rparr>)"
  using assms
proof (induction vs ts arbitrary: d rule: list_all2_induct)
  case (Cons v vs t ts)
  let ?d = "d\<lparr>doff := doff d + length (enc_val v [])\<rparr>"
  have split: "fold enc_val (v # vs) [] = enc_val v [] @ fold enc_val vs []"
    using fold_enc_append [of vs "enc_val v []"] by simp
  have "dec_val t d = (v, ?d)"
    using Cons.prems Cons.hyps split by (intro dec_enc_val) simp_all
  moreover have "drop (doff ?d) (dbuf ?d) = drop (length (enc_val v [])) (drop (doff d) (dbuf d))"
    by (simp add: add.commute)
  then have "drop (doff ?d) (dbuf ?d) = fold enc_val vs [] @ rest"
    unfolding Cons.prems(2) split by simp
  then have "dec_vals ts ?d = (vs, ?d\<lparr>doff := doff ?d + length (fold enc_val vs [])\<rparr>)"
    using Cons.prems(1) by (intro Cons.IH) simp_all
  ultimately show ?case unfolding split by (simp add: add.assoc)
qed simp

section \<open>Decoder safety\<close>

text \<open>What every read does to the decoder, whatever the buffer holds.\<close>

definition reads_safely :: "decoder \<Rightarrow> nat \<Rightarrow> decoder \<Rightarrow> bool" where
  "reads_safely d n d' \<longleftrightarrow> dbuf d' = dbuf d \<and> doff d + n \<le> doff d' \<and> doff d' \<le> length (dbuf d)
     \<and> (derr d \<noteq> None \<longrightarrow> d' = d)"

lemma reads_safely_trans:
  "reads_safely d m d' \<Longrightarrow> reads_safely d' n d'' \<Longrightarrow> reads_safely d (m + n) d''"
  by (auto simp: reads_safely_def)

lemma d_uint32_safe:
  assumes "doff d \<le> length (dbuf d)" "d_uint32 d = (v, d')"
  shows "reads_safely d 0 d'" "derr d \<noteq> None \<Longrightarrow> v = 0"
  using assms by (auto simp: d_uint32_def reads_safely_def d_fail_def d_remaining_def split: if_splits)

lemma d_opaqueFixed_safe:
  assumes "doff d \<le> length (dbuf d)" "d_opaqueFixed n d = (b, d')"
  shows "reads_safely d (length b) d'" "length b \<le> unat n" "derr d \<noteq> None \<Longrightarrow> b = []"
  using assms
  by (auto simp: d_opaqueFixed_def reads_safely_def d_fail_def d_remaining_def Let_def split: if_splits)

lemma d_opaque_safe:
  assumes "doff d \<le> length (dbuf d)" "d_opaque mx d = (b, d')"
  shows "reads_safely d (length b) d' \<and> length b \<le> unat mx \<and> (derr d \<noteq> None \<longrightarrow> b = [])"
proof -
  obtain n d1 where u: "d_uint32 d = (n, d1)" by fastforce
  note s1 = d_uint32_safe(1) [OF assms(1) u]
  then have ok: "doff d1 \<le> length (dbuf d1)" by (simp add: reads_safely_def)
  show ?thesis
  proof (cases "derr d1 \<noteq> None \<or> n > mx")
    case True
    then show ?thesis using assms(2) s1 u by (auto simp: d_opaque_def reads_safely_def d_fail_def split: if_splits)
  next
    case False
    then have "d_opaqueFixed n d1 = (b, d')" using assms(2) u by (simp add: d_opaque_def)
    note s2 = d_opaqueFixed_safe [OF ok this]
    have "derr d = None" using s1 False by (auto simp: reads_safely_def)
    moreover have "unat n \<le> unat mx" using False by (simp add: word_le_nat_alt not_less)
    ultimately show ?thesis using reads_safely_trans [OF s1 s2(1)] s2(2) by simp
  qed
qed

text \<open>The bound a reader states, per type.\<close>

fun ty_bound :: "xdr_ty \<Rightarrow> nat" where
  "ty_bound (TFixed n) = unat n"
| "ty_bound (TOpaque mx) = unat mx"
| "ty_bound (TString mx) = unat mx"
| "ty_bound _ = 0"

lemma dec_val_safe:
  assumes "doff d \<le> length (dbuf d)" "dec_val t d = (v, d')"
  shows "reads_safely d (val_bytes v) d' \<and> val_bytes v \<le> ty_bound t"
proof (cases t)
  case TU32
  then show ?thesis using assms d_uint32_safe [OF assms(1)] by (cases "d_uint32 d") auto
next
  case TU64
  then show ?thesis using assms
    by (auto simp: d_uint64_def reads_safely_def d_fail_def d_remaining_def split: if_splits)
next
  case TBool
  obtain n d1 where u: "d_uint32 d = (n, d1)" by fastforce
  show ?thesis using TBool assms(2) u d_uint32_safe [OF assms(1) u]
    by (auto simp: d_bool_def reads_safely_def d_fail_def split: if_splits)
next
  case (TFixed n)
  then show ?thesis using assms d_opaqueFixed_safe [OF assms(1)] by (cases "d_opaqueFixed n d") auto
next
  case (TOpaque mx)
  then show ?thesis using assms d_opaque_safe [OF assms(1)] by (cases "d_opaque mx d") auto
next
  case (TString mx)
  then show ?thesis using assms d_opaque_safe [OF assms(1)]
    by (cases "d_opaque mx d") (auto simp: d_string_def)
qed

lemma dec_vals_safe:
  assumes "doff d \<le> length (dbuf d)" "dec_vals ts d = (vs, d')"
  shows "reads_safely d (sum_list (map val_bytes vs)) d'
    \<and> list_all2 (\<lambda>v t. val_bytes v \<le> ty_bound t) vs ts"
  using assms
proof (induction ts arbitrary: d vs d')
  case (Cons t ts)
  obtain v d1 where v: "dec_val t d = (v, d1)" by fastforce
  obtain ws d2 where ws: "dec_vals ts d1 = (ws, d2)" by fastforce
  note s1 = dec_val_safe [OF Cons.prems(1) v]
  then have "doff d1 \<le> length (dbuf d1)" by (simp add: reads_safely_def)
  note s2 = Cons.IH [OF this ws]
  show ?case using Cons.prems(2) v ws s1 s2 reads_safely_trans by auto
qed (auto simp: reads_safely_def)

section \<open>Properties\<close>

text \<open>
  C22. Every message the encoder writes, whatever values it is made of and whatever follows it, is read
  back by the decoder as the same values, consuming exactly the bytes written and with no error, as
  long as the reader's bounds admit the lengths.
\<close>

theorem xdr_roundtrip:
  assumes "list_all2 fits vs ts"
  shows "dec_vals ts (newDecoder (fold enc_val vs [] @ rest))
    = (vs, \<lparr>dbuf = fold enc_val vs [] @ rest, doff = length (fold enc_val vs []), derr = None\<rparr>)"
  using dec_vals_enc [OF assms, of "newDecoder (fold enc_val vs [] @ rest)" rest]
  by (simp add: newDecoder_def)

theorem xdr_roundtrip_witness:
  "dec_vals [TU32, TOpaque 8, TBool] (newDecoder (fold enc_val [VU32 7, VOpaque [1, 2, 3], VBool True] [] @ [9]))
    = ([VU32 7, VOpaque [1, 2, 3], VBool True],
       \<lparr>dbuf = fold enc_val [VU32 7, VOpaque [1, 2, 3], VBool True] [] @ [9],
        doff = length (fold enc_val [VU32 7, VOpaque [1, 2, 3], VBool True] []), derr = None\<rparr>)"
  by (rule xdr_roundtrip) simp

text \<open>
  C23. On any input, any sequence of reads leaves the offset inside the buffer, returns no opaque or string
  longer than the bound its reader states, returns in total no more bytes than it consumed, and once an
  error is set changes nothing: the first error sticks.
\<close>

theorem xdr_decoder_bounded:
  assumes "doff d \<le> length (dbuf d)" "dec_vals ts d = (vs, d')"
  shows "dbuf d' = dbuf d \<and> doff d' \<le> length (dbuf d)
    \<and> doff d + sum_list (map val_bytes vs) \<le> doff d'
    \<and> list_all2 (\<lambda>v t. val_bytes v \<le> ty_bound t) vs ts
    \<and> (derr d \<noteq> None \<longrightarrow> d' = d)"
  using dec_vals_safe [OF assms] by (simp add: reads_safely_def)

theorem xdr_decoder_bounded_witness:
  "dbuf \<lparr>dbuf = [0, 0, 0, 9], doff = 4, derr = Some ErrBound\<rparr> = dbuf (newDecoder [0, 0, 0, 9])
    \<and> doff \<lparr>dbuf = [0, 0, 0, 9], doff = 4, derr = Some ErrBound\<rparr> \<le> length (dbuf (newDecoder [0, 0, 0, 9]))
    \<and> doff (newDecoder [0, 0, 0, 9]) + sum_list (map val_bytes [VOpaque []])
      \<le> doff \<lparr>dbuf = [0, 0, 0, 9], doff = 4, derr = Some ErrBound\<rparr>
    \<and> list_all2 (\<lambda>v t. val_bytes v \<le> ty_bound t) [VOpaque []] [TOpaque 8]"
proof -
  have r: "dec_vals [TOpaque 8] (newDecoder [0, 0, 0, 9]) = ([VOpaque []], \<lparr>dbuf = [0, 0, 0, 9], doff = 4, derr = Some ErrBound\<rparr>)"
    by (simp add: newDecoder_def d_opaque_def d_uint32_def be_Uint32_def d_remaining_def d_fail_def)
  have "doff (newDecoder [0, 0, 0, 9]) \<le> length (dbuf (newDecoder [0, 0, 0, 9]))" by (simp add: newDecoder_def)
  from xdr_decoder_bounded [OF this r] show ?thesis by blast
qed

end
