(* ===== verification/Nfs_State.thy ===== *)
theory Nfs_State
  imports Nfs_Ranges Xdr
begin

text \<open>
  \<^verbatim>\<open>nfs4/state.go\<close> and \<^verbatim>\<open>nfs4/lease.go\<close>: the state store of the NFSv4 server. Clients, owners, opens,
  lock states and delegations are objects the code reaches through pointers, so each kind has a heap
  (a function from addresses to records) in the store and the store's maps hold addresses; pointer
  equality is equality of addresses. Every operation runs under the store mutex, so that it is one step
  on the store. Each takes the clock reading \<open>now\<close> (nanoseconds). Random bytes (the epoch, the
  confirmation verifier) are arguments.
\<close>

unbundle bit_operations_syntax

section \<open>Records\<close>

type_synonym addr = nat
type_synonym time = int
type_synonym other = bytes

record callbackPath =
  cb_program :: u32
  cb_ident :: u32
  cb_addr :: string

record client =
  c_id :: u64
  c_ownerID :: string
  c_verifier :: bytes
  c_confirmVerf :: bytes
  c_principal :: string
  c_cb :: callbackPath
  c_cbUp :: bool
  c_lastRenew :: time
  c_openOwners :: "(string \<times> addr) list"
  c_lockOwners :: "(string \<times> addr) list"
  c_opens :: int
  c_delegs :: int

record owner =
  w_key :: string
  w_client :: addr
  w_seqid :: u32
  w_fresh :: bool
  w_confirmed :: bool
  w_lastOp :: u32
  w_lastReply :: "bytes option"
  w_lastFH :: string

record openState =
  o_other :: other
  o_seq :: u32
  o_client :: addr
  o_owner :: addr
  o_path :: string
  o_access :: u32
  o_deny :: u32
  o_file :: "nat option"
  o_flag :: nat

record lockState =
  l_other :: other
  l_seq :: u32
  l_client :: addr
  l_owner :: addr
  l_open :: addr
  l_path :: string
  l_ranges :: "lockRange list"

record delegation =
  dg_other :: other
  dg_seq :: u32
  dg_client :: addr
  dg_path :: string
  dg_recalling :: bool
  dg_recallAt :: time

record stateStore =
  lease :: time
  recallWait :: time
  epoch :: bytes
  lastSweep :: "time option"
  nextClient :: u64
  nextOther :: u64
  confirmed :: "(u64 \<times> addr) list"
  unconfirmed :: "(u64 \<times> addr) list"
  byOwner :: "(string \<times> addr) list"
  opens :: "(other \<times> addr) list"
  stateOwners :: "(other \<times> addr) list"
  byPath :: "(string \<times> addr list) list"
  locks :: "(other \<times> addr) list"
  locksByPath :: "(string \<times> addr list) list"
  delegs :: "(other \<times> addr) list"
  delegsByPath :: "(string \<times> addr list) list"
  revokedDelegs :: "(other \<times> time) list"
  expired :: "(other \<times> time) list"
  expiredIDs :: "(u64 \<times> time) list"
  hclient :: "addr \<Rightarrow> client"
  howner :: "addr \<Rightarrow> owner"
  hopen :: "addr \<Rightarrow> openState"
  hlock :: "addr \<Rightarrow> lockState"
  hdeleg :: "addr \<Rightarrow> delegation"
  nextAddr :: addr

section \<open>Heap cells and path indexes\<close>

definition upd_client :: "addr \<Rightarrow> (client \<Rightarrow> client) \<Rightarrow> stateStore \<Rightarrow> stateStore" where
  "upd_client a f st = st\<lparr>hclient := (hclient st)(a := f (hclient st a))\<rparr>"

definition upd_owner :: "addr \<Rightarrow> (owner \<Rightarrow> owner) \<Rightarrow> stateStore \<Rightarrow> stateStore" where
  "upd_owner a f st = st\<lparr>howner := (howner st)(a := f (howner st a))\<rparr>"

definition upd_open :: "addr \<Rightarrow> (openState \<Rightarrow> openState) \<Rightarrow> stateStore \<Rightarrow> stateStore" where
  "upd_open a f st = st\<lparr>hopen := (hopen st)(a := f (hopen st a))\<rparr>"

definition upd_lock :: "addr \<Rightarrow> (lockState \<Rightarrow> lockState) \<Rightarrow> stateStore \<Rightarrow> stateStore" where
  "upd_lock a f st = st\<lparr>hlock := (hlock st)(a := f (hlock st a))\<rparr>"

definition upd_deleg :: "addr \<Rightarrow> (delegation \<Rightarrow> delegation) \<Rightarrow> stateStore \<Rightarrow> stateStore" where
  "upd_deleg a f st = st\<lparr>hdeleg := (hdeleg st)(a := f (hdeleg st a))\<rparr>"

lemmas upd_defs = upd_client_def upd_owner_def upd_open_def upd_lock_def upd_deleg_def

text \<open>\<^verbatim>\<open>c.lastRenew = st.now()\<close> for the client at \<open>c\<close>.\<close>

definition renewed :: "time \<Rightarrow> addr \<Rightarrow> stateStore \<Rightarrow> stateStore" where
  "renewed now c st = upd_client c (\<lambda>x. x\<lparr>c_lastRenew := now\<rparr>) st"

text \<open>
  A path index maps a path to the list of objects on it. Removing an object drops its first occurrence
  and the whole entry when the list becomes empty; a missing path reads as the empty list.
\<close>

definition idx_get :: "string \<Rightarrow> (string \<times> addr list) list \<Rightarrow> addr list" where
  "idx_get p idx = (case map_of idx p of None \<Rightarrow> [] | Some xs \<Rightarrow> xs)"

definition idx_append :: "string \<Rightarrow> addr \<Rightarrow> (string \<times> addr list) list \<Rightarrow> (string \<times> addr list) list" where
  "idx_append p a idx = AList.update p (idx_get p idx @ [a]) idx"

definition idx_remove :: "string \<Rightarrow> addr \<Rightarrow> (string \<times> addr list) list \<Rightarrow> (string \<times> addr list) list" where
  "idx_remove p a idx =
     (let xs = remove1 a (idx_get p idx)
      in if length xs = 0 then AList.delete p idx else AList.update p xs idx)"

section \<open>Dropping objects\<close>

definition removePathLocked :: "addr \<Rightarrow> stateStore \<Rightarrow> stateStore" where
  "removePathLocked o' st = st\<lparr>byPath := idx_remove (o_path (hopen st o')) o' (byPath st)\<rparr>"

definition removeLockStateLocked :: "addr \<Rightarrow> stateStore \<Rightarrow> stateStore" where
  "removeLockStateLocked l st = st\<lparr>locksByPath := idx_remove (l_path (hlock st l)) l (locksByPath st)\<rparr>"

definition dropDelegationLocked :: "addr \<Rightarrow> stateStore \<Rightarrow> stateStore" where
  "dropDelegationLocked dl st =
     (let d = hdeleg st dl;
          st = st\<lparr>delegs := AList.delete (dg_other d) (delegs st)\<rparr>;
          st = upd_client (dg_client d) (\<lambda>x. x\<lparr>c_delegs := c_delegs x - 1\<rparr>) st
      in st\<lparr>delegsByPath := idx_remove (dg_path d) dl (delegsByPath st)\<rparr>)"

definition revokeDelegationLocked :: "addr \<Rightarrow> time \<Rightarrow> stateStore \<Rightarrow> stateStore" where
  "revokeDelegationLocked dl now st =
     (let st = dropDelegationLocked dl st
      in st\<lparr>revokedDelegs := AList.update (dg_other (hdeleg st dl)) now (revokedDelegs st)\<rparr>)"

text \<open>The loops of \<^verbatim>\<open>releaseLocked\<close>, one per table.\<close>

definition release_open :: "addr \<Rightarrow> stateStore \<times> nat list \<Rightarrow> other \<times> addr \<Rightarrow> stateStore \<times> nat list" where
  "release_open c = (\<lambda>(st, files) (k, o').
     if o_client (hopen st o') \<noteq> c then (st, files)
     else let st = st\<lparr>opens := AList.delete k (opens st)\<rparr>;
              st = st\<lparr>stateOwners := AList.delete k (stateOwners st)\<rparr>;
              st = removePathLocked o' st
          in (st, files @ (case o_file (hopen st o') of None \<Rightarrow> [] | Some f \<Rightarrow> [f])))"

definition release_owner :: "addr \<Rightarrow> stateStore \<Rightarrow> other \<times> addr \<Rightarrow> stateStore" where
  "release_owner c st = (\<lambda>(k, w).
     if w_client (howner st w) = c then st\<lparr>stateOwners := AList.delete k (stateOwners st)\<rparr> else st)"

definition release_lock :: "addr \<Rightarrow> stateStore \<Rightarrow> other \<times> addr \<Rightarrow> stateStore" where
  "release_lock c st = (\<lambda>(k, l).
     if l_client (hlock st l) = c
     then removeLockStateLocked l (st\<lparr>locks := AList.delete k (locks st)\<rparr>) else st)"

definition release_deleg :: "addr \<Rightarrow> stateStore \<Rightarrow> other \<times> addr \<Rightarrow> stateStore" where
  "release_deleg c st = (\<lambda>(k, dl).
     if dg_client (hdeleg st dl) = c then dropDelegationLocked dl st else st)"

definition releaseLocked :: "addr \<Rightarrow> stateStore \<Rightarrow> stateStore \<times> nat list" where
  "releaseLocked c st =
     (let st = st\<lparr>confirmed := AList.delete (c_id (hclient st c)) (confirmed st)\<rparr>;
          own = c_ownerID (hclient st c);
          st = (if map_of (byOwner st) own = Some c then st\<lparr>byOwner := AList.delete own (byOwner st)\<rparr> else st);
          (st, files) = foldl (release_open c) (st, []) (opens st);
          st = upd_client c (\<lambda>x. x\<lparr>c_opens := 0\<rparr>) st;
          st = foldl (release_owner c) st (stateOwners st);
          st = foldl (release_lock c) st (locks st);
          st = foldl (release_deleg c) st (delegs st)
      in (st, files))"

section \<open>Clients\<close>

definition zero_client :: client where
  "zero_client = \<lparr>c_id = 0, c_ownerID = [], c_verifier = [], c_confirmVerf = [], c_principal = [],
     c_cb = \<lparr>cb_program = 0, cb_ident = 0, cb_addr = []\<rparr>, c_cbUp = False, c_lastRenew = 0,
     c_openOwners = [], c_lockOwners = [], c_opens = 0, c_delegs = 0\<rparr>"

definition newStateStore :: "time \<Rightarrow> time \<Rightarrow> bytes \<Rightarrow> stateStore" where
  "newStateStore ls wait rnd = \<lparr>lease = ls, recallWait = wait, epoch = rnd, lastSweep = None,
     nextClient = 0, nextOther = 0, confirmed = [], unconfirmed = [], byOwner = [], opens = [],
     stateOwners = [], byPath = [], locks = [], locksByPath = [], delegs = [], delegsByPath = [],
     revokedDelegs = [], expired = [], expiredIDs = [], hclient = (\<lambda>_. zero_client),
     howner = (\<lambda>_. \<lparr>w_key = [], w_client = 0, w_seqid = 0, w_fresh = False, w_confirmed = False,
       w_lastOp = 0, w_lastReply = None, w_lastFH = []\<rparr>),
     hopen = (\<lambda>_. \<lparr>o_other = [], o_seq = 0, o_client = 0, o_owner = 0, o_path = [], o_access = 0,
       o_deny = 0, o_file = None, o_flag = 0\<rparr>),
     hlock = (\<lambda>_. \<lparr>l_other = [], l_seq = 0, l_client = 0, l_owner = 0, l_open = 0, l_path = [], l_ranges = []\<rparr>),
     hdeleg = (\<lambda>_. \<lparr>dg_other = [], dg_seq = 0, dg_client = 0, dg_path = [], dg_recalling = False,
       dg_recallAt = 0\<rparr>),
     nextAddr = 0\<rparr>"

text \<open>\<^verbatim>\<open>cred\<close> is the uid of an AUTH_SYS credential, or none.\<close>

definition principalOf :: "u32 option \<Rightarrow> string" where
  "principalOf cred = (case cred of None \<Rightarrow> ''none'' | Some uid \<Rightarrow> ''sys:'' @ dec_string (unat uid))"

definition st_setClientID :: "string \<Rightarrow> bytes \<Rightarrow> string \<Rightarrow> callbackPath \<Rightarrow> bytes \<Rightarrow> time \<Rightarrow> stateStore
    \<Rightarrow> (u64 \<times> bytes \<times> nfsStat) \<times> stateStore" where
  "st_setClientID ownerID verifier princ cb rnd now st =
     (if (case map_of (byOwner st) ownerID of None \<Rightarrow> False
          | Some held \<Rightarrow> c_principal (hclient st held) \<noteq> princ)
      then ((0, replicate 8 0, nfs4ErrClidInUse), st)
      else let st = foldl (\<lambda>st (id, c). if c_ownerID (hclient st c) = ownerID
                      then st\<lparr>unconfirmed := AList.delete id (unconfirmed st)\<rparr> else st) st (unconfirmed st);
               st = st\<lparr>nextClient := nextClient st + 1\<rparr>;
               a = nextAddr st;
               c = zero_client\<lparr>c_id := nextClient st, c_ownerID := ownerID, c_verifier := verifier,
                 c_principal := princ, c_cb := cb, c_lastRenew := now, c_confirmVerf := rnd\<rparr>;
               st = st\<lparr>hclient := (hclient st)(a := c), nextAddr := Suc a\<rparr>;
               st = st\<lparr>unconfirmed := AList.update (c_id c) a (unconfirmed st)\<rparr>
           in ((c_id c, c_confirmVerf c, nfs4OK), st))"

text \<open>
  The repeat of a confirmation, the second half of \<^verbatim>\<open>confirmClientID\<close>. The third result is the list of files the caller closes once the mutex
  is released.
\<close>

definition confirmClientID_again :: "u64 \<Rightarrow> bytes \<Rightarrow> time \<Rightarrow> stateStore
    \<Rightarrow> (addr option \<times> nfsStat \<times> nat list) \<times> stateStore" where
  "confirmClientID_again cid verf now st =
     (case map_of (confirmed st) cid of
        Some c \<Rightarrow> if c_confirmVerf (hclient st c) = verf then ((None, nfs4OK, []), renewed now c st)
          else ((None, nfs4ErrStaleClientID, []), st)
      | None \<Rightarrow> ((None, nfs4ErrStaleClientID, []), st))"

definition confirmClientID :: "u64 \<Rightarrow> bytes \<Rightarrow> time \<Rightarrow> stateStore
    \<Rightarrow> (addr option \<times> nfsStat \<times> nat list) \<times> stateStore" where
  "confirmClientID cid verf now st =
     (case map_of (unconfirmed st) cid of
        Some c \<Rightarrow>
          if c_confirmVerf (hclient st c) = verf
          then let st = st\<lparr>unconfirmed := AList.delete cid (unconfirmed st)\<rparr>;
                   (st, files) = (case map_of (byOwner st) (c_ownerID (hclient st c)) of
                       Some old \<Rightarrow> releaseLocked old st
                     | None \<Rightarrow> (st, []));
                   st = st\<lparr>confirmed := AList.update (c_id (hclient st c)) c (confirmed st)\<rparr>;
                   st = st\<lparr>byOwner := AList.update (c_ownerID (hclient st c)) c (byOwner st)\<rparr>;
                   st = renewed now c st
               in ((Some c, nfs4OK, files), st)
          else confirmClientID_again cid verf now st
      | None \<Rightarrow> confirmClientID_again cid verf now st)"

definition st_renew :: "u64 \<Rightarrow> time \<Rightarrow> stateStore \<Rightarrow> nfsStat \<times> stateStore" where
  "st_renew cid now st =
     (case map_of (confirmed st) cid of
        None \<Rightarrow> (if map_of (expiredIDs st) cid \<noteq> None then nfs4ErrExpired else nfs4ErrStaleClientID, st)
      | Some c \<Rightarrow> (nfs4OK, renewed now c st))"

section \<open>Owners and stateids\<close>

definition fresh_owner :: "string \<Rightarrow> addr \<Rightarrow> owner" where
  "fresh_owner key c = \<lparr>w_key = key, w_client = c, w_seqid = 0, w_fresh = True, w_confirmed = False,
     w_lastOp = 0, w_lastReply = None, w_lastFH = []\<rparr>"

definition ownerOf :: "u64 \<Rightarrow> string \<Rightarrow> time \<Rightarrow> stateStore \<Rightarrow> (addr option \<times> nfsStat) \<times> stateStore" where
  "ownerOf clientID key now st =
     (case map_of (confirmed st) clientID of
        None \<Rightarrow> ((None, if map_of (expiredIDs st) clientID \<noteq> None then nfs4ErrExpired else nfs4ErrStaleClientID), st)
      | Some c \<Rightarrow>
          let st = renewed now c st
          in case map_of (c_openOwners (hclient st c)) key of
               Some w \<Rightarrow> ((Some w, nfs4OK), st)
             | None \<Rightarrow>
                 if length (c_openOwners (hclient st c)) \<ge> maxOwnersPerClient then ((None, nfs4ErrResource), st)
                 else let w = nextAddr st;
                          st = st\<lparr>howner := (howner st)(w := fresh_owner key c), nextAddr := Suc w\<rparr>;
                          st = upd_client c (\<lambda>x. x\<lparr>c_openOwners := AList.update key w (c_openOwners x)\<rparr>) st
                      in ((Some w, nfs4OK), st))"

definition lockOwnerOf :: "u64 \<Rightarrow> string \<Rightarrow> time \<Rightarrow> stateStore \<Rightarrow> (addr option \<times> nfsStat) \<times> stateStore" where
  "lockOwnerOf clientID key now st =
     (case map_of (confirmed st) clientID of
        None \<Rightarrow> ((None, if map_of (expiredIDs st) clientID \<noteq> None then nfs4ErrExpired else nfs4ErrStaleClientID), st)
      | Some c \<Rightarrow>
          let st = renewed now c st
          in case map_of (c_lockOwners (hclient st c)) key of
               Some w \<Rightarrow> ((Some w, nfs4OK), st)
             | None \<Rightarrow>
                 if length (c_lockOwners (hclient st c)) \<ge> maxOwnersPerClient then ((None, nfs4ErrResource), st)
                 else let w = nextAddr st;
                          st = st\<lparr>howner := (howner st)(w := fresh_owner key c), nextAddr := Suc w\<rparr>;
                          st = upd_client c (\<lambda>x. x\<lparr>c_lockOwners := AList.update key w (c_lockOwners x)\<rparr>) st
                      in ((Some w, nfs4OK), st))"

definition newOther :: "stateStore \<Rightarrow> other \<times> stateStore" where
  "newOther st =
     (let st = st\<lparr>nextOther := nextOther st + 1\<rparr>
      in (epoch st @ be_PutUint64 (nextOther st), st))"

definition zeroOther :: other where
  "zeroOther = replicate 12 0"

definition allOnesOther :: other where
  "allOnesOther = replicate 12 0xff"

definition ownerForStateid :: "other \<Rightarrow> time \<Rightarrow> stateStore \<Rightarrow> (addr option \<times> nfsStat) \<times> stateStore" where
  "ownerForStateid k now st =
     (if k = zeroOther \<or> k = allOnesOther then ((None, nfs4ErrBadStateID), st)
      else if take 4 k \<noteq> epoch st then ((None, nfs4ErrStaleStateID), st)
      else if map_of (expired st) k \<noteq> None then ((None, nfs4ErrExpired), st)
      else case map_of (stateOwners st) k of
             None \<Rightarrow> ((None, nfs4ErrBadStateID), st)
           | Some w \<Rightarrow> ((Some w, nfs4OK), renewed now (w_client (howner st w)) st))"

definition openOwnerForStateid :: "other \<Rightarrow> time \<Rightarrow> stateStore \<Rightarrow> (addr option \<times> nfsStat) \<times> stateStore" where
  "openOwnerForStateid k now st =
     (if k = zeroOther \<or> k = allOnesOther then ((None, nfs4ErrBadStateID), st)
      else if take 4 k \<noteq> epoch st then ((None, nfs4ErrStaleStateID), st)
      else if map_of (expired st) k \<noteq> None then ((None, nfs4ErrExpired), st)
      else case map_of (opens st) k of
             None \<Rightarrow> ((None, nfs4ErrBadStateID), st)
           | Some o' \<Rightarrow> ((Some (o_owner (hopen st o')), nfs4OK), renewed now (o_client (hopen st o')) st))"

definition clientForStateid :: "other \<Rightarrow> stateStore \<Rightarrow> addr option" where
  "clientForStateid k st =
     (if k = zeroOther \<or> k = allOnesOther then None
      else case map_of (opens st) k of Some o' \<Rightarrow> Some (o_client (hopen st o'))
      | None \<Rightarrow> (case map_of (locks st) k of Some l \<Rightarrow> Some (l_client (hlock st l))
      | None \<Rightarrow> (case map_of (delegs st) k of Some d \<Rightarrow> Some (dg_client (hdeleg st d)) | None \<Rightarrow> None)))"

text \<open>A nil open with status OK is a special stateid.\<close>

definition resolveStateid :: "u32 \<Rightarrow> other \<Rightarrow> string \<Rightarrow> time \<Rightarrow> stateStore \<Rightarrow> (addr option \<times> nfsStat) \<times> stateStore" where
  "resolveStateid sq k p now st =
     (if k = zeroOther \<or> k = allOnesOther
      then ((None, if k = zeroOther \<and> sq \<noteq> 0 \<or> k = allOnesOther \<and> sq \<noteq> NOT 0 then nfs4ErrBadStateID else nfs4OK), st)
      else if take 4 k \<noteq> epoch st then ((None, nfs4ErrStaleStateID), st)
      else if map_of (expired st) k \<noteq> None then ((None, nfs4ErrExpired), st)
      else case map_of (opens st) k of
             None \<Rightarrow> ((None, nfs4ErrBadStateID), st)
           | Some a \<Rightarrow>
               let st = renewed now (o_client (hopen st a)) st; x = hopen st a
               in (if sq < o_seq x then (None, nfs4ErrOldStateID)
                   else if sq > o_seq x then (None, nfs4ErrBadStateID)
                   else if o_path x \<noteq> p then (None, nfs4ErrBadStateID)
                   else if \<not> w_confirmed (howner st (o_owner x)) then (None, nfs4ErrBadStateID)
                   else (Some a, nfs4OK), st))"

definition resolveIOStateid :: "u32 \<Rightarrow> other \<Rightarrow> string \<Rightarrow> time \<Rightarrow> stateStore
    \<Rightarrow> (nat option \<times> u32 \<times> bool \<times> nfsStat) \<times> stateStore" where
  "resolveIOStateid sq k p now st =
     (if k = zeroOther \<or> k = allOnesOther
      then ((if k = zeroOther \<and> sq \<noteq> 0 \<or> k = allOnesOther \<and> sq \<noteq> NOT 0 then (None, 0, False, nfs4ErrBadStateID)
             else (None, 0, True, nfs4OK)), st)
      else if take 4 k \<noteq> epoch st then ((None, 0, False, nfs4ErrStaleStateID), st)
      else if map_of (expired st) k \<noteq> None then ((None, 0, False, nfs4ErrExpired), st)
      else if map_of (revokedDelegs st) k \<noteq> None then ((None, 0, False, nfs4ErrAdminRevoked), st)
      else case map_of (opens st) k of
        Some a \<Rightarrow>
          let st = renewed now (o_client (hopen st a)) st; x = hopen st a
          in (if sq < o_seq x then (None, 0, False, nfs4ErrOldStateID)
              else if sq > o_seq x \<or> o_path x \<noteq> p \<or> \<not> w_confirmed (howner st (o_owner x))
                then (None, 0, False, nfs4ErrBadStateID)
              else (o_file x, o_access x, False, nfs4OK), st)
      | None \<Rightarrow>
          (case map_of (locks st) k of
            Some l \<Rightarrow>
              let st = renewed now (l_client (hlock st l)) st; x = hlock st l
              in (if sq < l_seq x then (None, 0, False, nfs4ErrOldStateID)
                  else if sq > l_seq x \<or> l_path x \<noteq> p then (None, 0, False, nfs4ErrBadStateID)
                  else (o_file (hopen st (l_open x)), o_access (hopen st (l_open x)), False, nfs4OK), st)
          | None \<Rightarrow>
              (case map_of (delegs st) k of
                Some d \<Rightarrow>
                  let st = renewed now (dg_client (hdeleg st d)) st; x = hdeleg st d
                  in (if sq < dg_seq x then (None, 0, False, nfs4ErrOldStateID)
                      else if sq > dg_seq x \<or> dg_path x \<noteq> p then (None, 0, False, nfs4ErrBadStateID)
                      else (None, shareRead, False, nfs4OK), st)
              | None \<Rightarrow> ((None, 0, False, nfs4ErrBadStateID), st))))"

definition resolveLockStateid :: "u32 \<Rightarrow> other \<Rightarrow> string \<Rightarrow> time \<Rightarrow> stateStore \<Rightarrow> (addr option \<times> nfsStat) \<times> stateStore" where
  "resolveLockStateid sq k p now st =
     (if k = zeroOther \<or> k = allOnesOther then ((None, nfs4ErrBadStateID), st)
      else if take 4 k \<noteq> epoch st then ((None, nfs4ErrStaleStateID), st)
      else if map_of (expired st) k \<noteq> None then ((None, nfs4ErrExpired), st)
      else case map_of (locks st) k of
             None \<Rightarrow> ((None, nfs4ErrBadStateID), st)
           | Some a \<Rightarrow>
               let st = renewed now (l_client (hlock st a)) st; x = hlock st a
               in (if sq < l_seq x then (None, nfs4ErrOldStateID)
                   else if sq > l_seq x \<or> l_path x \<noteq> p then (None, nfs4ErrBadStateID)
                   else (Some a, nfs4OK), st))"

section \<open>Share reservations and byte-range conflicts\<close>

definition shareConflictLocked :: "string \<Rightarrow> addr \<Rightarrow> u32 \<Rightarrow> u32 \<Rightarrow> stateStore \<Rightarrow> bool" where
  "shareConflictLocked p w access deny st =
     list_ex (\<lambda>h. o_owner (hopen st h) \<noteq> w
       \<and> (access AND o_deny (hopen st h) \<noteq> 0 \<or> deny AND o_access (hopen st h) \<noteq> 0)) (idx_get p (byPath st))"

definition findOpenLocked :: "string \<Rightarrow> addr \<Rightarrow> stateStore \<Rightarrow> addr option" where
  "findOpenLocked p w st = find (\<lambda>h. o_owner (hopen st h) = w) (idx_get p (byPath st))"

definition denyBlocksAnonymous :: "string \<Rightarrow> bool \<Rightarrow> stateStore \<Rightarrow> bool" where
  "denyBlocksAnonymous p write st =
     (let needed = (if write then shareWrite else shareRead)
      in list_ex (\<lambda>h. o_deny (hopen st h) AND needed \<noteq> 0) (idx_get p (byPath st)))"

definition openFilesFor :: "string \<Rightarrow> stateStore \<Rightarrow> nat list" where
  "openFilesFor p st = List.map_filter (\<lambda>h. o_file (hopen st h)) (idx_get p (byPath st))"

definition findLockStateLocked :: "string \<Rightarrow> addr \<Rightarrow> stateStore \<Rightarrow> addr option" where
  "findLockStateLocked p w st = find (\<lambda>l. l_owner (hlock st l) = w) (idx_get p (locksByPath st))"

text \<open>The conflicting state and the first of its ranges that conflicts; the owner may be absent (\<^verbatim>\<open>LOCKT\<close>).\<close>

fun lock_conflict_in :: "(addr \<Rightarrow> lockState) \<Rightarrow> addr option \<Rightarrow> lockRange \<Rightarrow> addr list \<Rightarrow> (addr \<times> lockRange) option" where
  "lock_conflict_in h w r [] = None"
| "lock_conflict_in h w r (l # ls) =
     (if Some (l_owner (h l)) = w then lock_conflict_in h w r ls
      else case find (\<lambda>held. rangesOverlap held r \<and> (lwrite held \<or> lwrite r)) (l_ranges (h l)) of
             Some held \<Rightarrow> Some (l, held)
           | None \<Rightarrow> lock_conflict_in h w r ls)"

definition lockConflictLocked :: "string \<Rightarrow> addr option \<Rightarrow> lockRange \<Rightarrow> stateStore \<Rightarrow> (addr \<times> lockRange) option" where
  "lockConflictLocked p w r st = lock_conflict_in (hlock st) w r (idx_get p (locksByPath st))"

definition locksBlockCloseLocked :: "addr \<Rightarrow> stateStore \<Rightarrow> bool" where
  "locksBlockCloseLocked o' st =
     list_ex (\<lambda>l. l_open (hlock st l) = o' \<and> length (l_ranges (hlock st l)) \<noteq> 0)
       (idx_get (o_path (hopen st o')) (locksByPath st))"

definition locksBlockDowngradeLocked :: "addr \<Rightarrow> u32 \<Rightarrow> stateStore \<Rightarrow> bool" where
  "locksBlockDowngradeLocked o' access st =
     list_ex (\<lambda>l. l_open (hlock st l) = o'
         \<and> list_ex (\<lambda>r. lwrite r \<and> access AND shareWrite = 0 \<or> \<not> lwrite r \<and> access AND shareRead = 0)
             (l_ranges (hlock st l)))
       (idx_get (o_path (hopen st o')) (locksByPath st))"

definition drop_empty_lock :: "addr \<Rightarrow> stateStore \<Rightarrow> other \<times> addr \<Rightarrow> stateStore" where
  "drop_empty_lock o' st = (\<lambda>(k, l).
     if l_open (hlock st l) = o' \<and> length (l_ranges (hlock st l)) = 0
     then let st = st\<lparr>locks := AList.delete k (locks st)\<rparr>;
              st = st\<lparr>stateOwners := AList.delete k (stateOwners st)\<rparr>
          in removeLockStateLocked l st
     else st)"

definition removeEmptyLocksForOpenLocked :: "addr \<Rightarrow> stateStore \<Rightarrow> stateStore" where
  "removeEmptyLocksForOpenLocked o' st = foldl (drop_empty_lock o') st (locks st)"

section \<open>Delegations\<close>

definition grantDelegationLocked :: "string \<Rightarrow> addr \<Rightarrow> u32 \<Rightarrow> stateStore \<Rightarrow> addr option \<times> stateStore" where
  "grantDelegationLocked p w access st =
     (let c = w_client (howner st w)
      in if \<not> c_cbUp (hclient st c) \<or> \<not> w_confirmed (howner st w) \<or> access \<noteq> shareRead
           \<or> c_delegs (hclient st c) \<ge> int maxDelegationsPerClient then (None, st)
         else if list_ex (\<lambda>h. o_client (hopen st h) \<noteq> c
             \<and> (o_access (hopen st h) AND shareWrite \<noteq> 0 \<or> o_deny (hopen st h) AND denyRead \<noteq> 0))
             (idx_get p (byPath st)) then (None, st)
         else if list_ex (\<lambda>d. dg_client (hdeleg st d) = c \<or> dg_recalling (hdeleg st d))
             (idx_get p (delegsByPath st)) then (None, st)
         else let (k, st) = newOther st;
                  a = nextAddr st;
                  st = st\<lparr>hdeleg := (hdeleg st)(a := \<lparr>dg_other = k, dg_seq = 1, dg_client = c, dg_path = p,
                    dg_recalling = False, dg_recallAt = 0\<rparr>), nextAddr := Suc a\<rparr>;
                  st = st\<lparr>delegs := AList.update k a (delegs st)\<rparr>;
                  st = st\<lparr>delegsByPath := idx_append p a (delegsByPath st)\<rparr>;
                  st = upd_client c (\<lambda>x. x\<lparr>c_delegs := c_delegs x + 1\<rparr>) st
              in (Some a, st))"

definition returnDelegation :: "u32 \<Rightarrow> other \<Rightarrow> string \<Rightarrow> time \<Rightarrow> stateStore \<Rightarrow> nfsStat \<times> stateStore" where
  "returnDelegation sq k p now st =
     (if k = zeroOther \<or> k = allOnesOther then (nfs4ErrBadStateID, st)
      else if take 4 k \<noteq> epoch st then (nfs4ErrStaleStateID, st)
      else if map_of (expired st) k \<noteq> None then (nfs4ErrExpired, st)
      else if map_of (revokedDelegs st) k \<noteq> None then (nfs4ErrAdminRevoked, st)
      else case map_of (delegs st) k of
             None \<Rightarrow> (nfs4ErrBadStateID, st)
           | Some d \<Rightarrow>
               let x = hdeleg st d
               in if sq < dg_seq x then (nfs4ErrOldStateID, st)
                  else if sq > dg_seq x \<or> dg_path x \<noteq> p then (nfs4ErrBadStateID, st)
                  else (nfs4OK, renewed now (dg_client x) (dropDelegationLocked d st)))"

text \<open>
  \<^verbatim>\<open>recallDelegations\<close> of \<^verbatim>\<open>nfs4/callback.go\<close>. The jobs are the recalls its goroutines send: callback path,
  sequence number, stateid and path.
\<close>

type_synonym recallJob = "callbackPath \<times> u32 \<times> other \<times> string"

definition recall_one :: "addr option \<Rightarrow> time \<Rightarrow> stateStore \<times> bool \<times> recallJob list \<Rightarrow> addr
    \<Rightarrow> stateStore \<times> bool \<times> recallJob list" where
  "recall_one except now = (\<lambda>(st, blocked, jobs) d.
     let x = hdeleg st d
     in if Some (dg_client x) = except then (st, blocked, jobs)
        else if dg_recalling x \<and> now \<ge> dg_recallAt x + recallWait st
          then (revokeDelegationLocked d now st, blocked, jobs)
        else if \<not> dg_recalling x
          then (upd_deleg d (\<lambda>y. y\<lparr>dg_recalling := True, dg_recallAt := now\<rparr>) st, True,
                jobs @ [(c_cb (hclient st (dg_client x)), dg_seq x, dg_other x, dg_path x)])
        else (st, True, jobs))"

definition recallDelegations :: "string \<Rightarrow> addr option \<Rightarrow> time \<Rightarrow> stateStore
    \<Rightarrow> (nfsStat \<times> recallJob list) \<times> stateStore" where
  "recallDelegations p except now st =
     (let (st, blocked, jobs) = foldl (recall_one except now) (st, False, []) (idx_get p (delegsByPath st))
      in ((if blocked then nfs4ErrDelay else nfs4OK, jobs), st))"

text \<open>\<^verbatim>\<open>probeCallback\<close> after the dial: \<open>answered\<close> is whether \<^verbatim>\<open>CB_NULL\<close> was answered.\<close>

definition probeCallback :: "bool \<Rightarrow> addr \<Rightarrow> stateStore \<Rightarrow> stateStore" where
  "probeCallback answered c st =
     (if \<not> answered then st
      else if map_of (confirmed st) (c_id (hclient st c)) = Some c then upd_client c (\<lambda>x. x\<lparr>c_cbUp := True\<rparr>) st
      else st)"

section \<open>Renames\<close>

definition moved :: "string \<Rightarrow> string \<Rightarrow> string \<Rightarrow> string \<times> bool" where
  "moved from to p =
     (if p = from then (to, True)
      else if take (length (from @ ''/'')) p = from @ ''/'' then (to @ drop (length from) p, True)
      else (p, False))"

text \<open>
  One of the three loops of \<^verbatim>\<open>renamePath\<close>, over an index and the heap its objects live in. The loop visits the
  entries the index had when it started, once each.
\<close>

definition idx_range :: "(string \<times> addr list) list \<Rightarrow> (string \<times> addr list) list" where
  "idx_range idx = map (\<lambda>p. (p, idx_get p idx)) (remdups (map fst idx))"

definition move_entry :: "(string \<Rightarrow> 'x \<Rightarrow> 'x) \<Rightarrow> ('x \<Rightarrow> string) \<Rightarrow> string \<Rightarrow> string
    \<Rightarrow> (string \<times> addr list) list \<times> (addr \<Rightarrow> 'x) \<Rightarrow> string \<times> addr list
    \<Rightarrow> (string \<times> addr list) list \<times> (addr \<Rightarrow> 'x)" where
  "move_entry set_path get_path from to = (\<lambda>(idx, h) (key, xs).
     let (target, ok) = moved from to key
     in if \<not> ok then (idx, h)
        else let idx = AList.delete key idx;
                 h = foldl (\<lambda>h a. h(a := set_path (fst (moved from to (get_path (h a)))) (h a))) h xs
             in (AList.update target (idx_get target idx @ xs) idx, h))"

definition renamePath :: "string \<Rightarrow> string \<Rightarrow> stateStore \<Rightarrow> stateStore" where
  "renamePath from to st =
     (let (bp, ho) = foldl (move_entry (\<lambda>p x. x\<lparr>o_path := p\<rparr>) o_path from to) (byPath st, hopen st) (idx_range (byPath st));
          st = st\<lparr>byPath := bp, hopen := ho\<rparr>;
          (lp, hl) = foldl (move_entry (\<lambda>p x. x\<lparr>l_path := p\<rparr>) l_path from to) (locksByPath st, hlock st) (idx_range (locksByPath st));
          st = st\<lparr>locksByPath := lp, hlock := hl\<rparr>;
          (dp, hd) = foldl (move_entry (\<lambda>p x. x\<lparr>dg_path := p\<rparr>) dg_path from to) (delegsByPath st, hdeleg st) (idx_range (delegsByPath st))
      in st\<lparr>delegsByPath := dp, hdeleg := hd\<rparr>)"

section \<open>Leases\<close>

definition expire_client :: "time \<Rightarrow> stateStore \<times> nat list \<Rightarrow> u64 \<times> addr \<Rightarrow> stateStore \<times> nat list" where
  "expire_client now = (\<lambda>(st, files) (i, c).
     if now < c_lastRenew (hclient st c) + lease st then (st, files)
     else let st = st\<lparr>expiredIDs := AList.update (c_id (hclient st c)) now (expiredIDs st)\<rparr>;
              st = foldl (\<lambda>st (k, w). if w_client (howner st w) = c
                     then st\<lparr>expired := AList.update k now (expired st)\<rparr> else st) st (stateOwners st);
              st = foldl (\<lambda>st (k, d). if dg_client (hdeleg st d) = c
                     then st\<lparr>expired := AList.update k now (expired st)\<rparr> else st) st (delegs st);
              (st, fs) = releaseLocked c st
          in (st, files @ fs))"

definition sweepExpired :: "time \<Rightarrow> stateStore \<Rightarrow> stateStore \<times> nat list" where
  "sweepExpired now st =
     (let old = (\<lambda>t. now \<ge> t + lease st);
          st = st\<lparr>lastSweep := Some now\<rparr>;
          st = st\<lparr>expired := filter (\<lambda>(k, t). \<not> old t) (expired st)\<rparr>;
          st = st\<lparr>expiredIDs := filter (\<lambda>(k, t). \<not> old t) (expiredIDs st)\<rparr>;
          st = st\<lparr>revokedDelegs := filter (\<lambda>(k, t). \<not> old t) (revokedDelegs st)\<rparr>;
          st = foldl (\<lambda>st (k, d). if dg_recalling (hdeleg st d) \<and> now \<ge> dg_recallAt (hdeleg st d) + recallWait st
                 then revokeDelegationLocked d now st else st) st (delegs st);
          st = st\<lparr>unconfirmed := filter (\<lambda>(i, c). \<not> old (c_lastRenew (hclient st c))) (unconfirmed st)\<rparr>
      in foldl (expire_client now) (st, []) (confirmed st))"

definition sweepDue :: "time \<Rightarrow> stateStore \<Rightarrow> stateStore \<times> nat list" where
  "sweepDue now st =
     (let interval = lease st div 2;
          recent = interval > 0 \<and> (case lastSweep st of None \<Rightarrow> False | Some t \<Rightarrow> now - t < interval)
      in if \<not> recent then sweepExpired now st else (st, []))"

end
