(* ===== verification/Nfs_Rpc.thy ===== *)
theory Nfs_Rpc
  imports Nfs_State
begin

text \<open>
  The RPC layer under the NFS server: record marking and call headers of \<^verbatim>\<open>nfs4/conn.go\<close>, and the callback
  messages and universal addresses of \<^verbatim>\<open>nfs4/callback.go\<close>. A connection is the bytes that can still be
  read from it; \<open>parseIP\<close> stands for \<^verbatim>\<open>net.ParseIP\<close> and tells whether an address is IPv4 and whether it is
  unspecified.
\<close>

unbundle bit_operations_syntax

section \<open>Records\<close>

datatype rec_error = RecEOF | RecUnexpectedEOF | RecFraming

text \<open>The loop of \<^verbatim>\<open>readRecord\<close>: the record so far, and what is left of the stream.\<close>

function read_fragments :: "nat \<Rightarrow> bytes \<Rightarrow> bytes \<Rightarrow> (rec_error + bytes) \<times> bytes" where
  "read_fragments maxTotal record s =
     (if length s < 4 then (Inl (if record \<noteq> [] \<or> s \<noteq> [] then RecUnexpectedEOF else RecEOF), [])
      else let m = be_Uint32 (take 4 s);
               final = bit m 31;
               size = unat (m AND 0x7fffffff);
               s = drop 4 s
           in if size > maxTotal \<or> length record + size > maxTotal then (Inl RecFraming, s)
              else if length s < size then (Inl RecUnexpectedEOF, [])
              else if final then (Inr (record @ take size s), drop size s)
              else read_fragments maxTotal (record @ take size s) (drop size s))"
  by pat_completeness auto
termination
  by (relation "measure (\<lambda>(maxTotal, record, s). length s)") auto

declare read_fragments.simps [simp del]

definition readRecord :: "nat \<Rightarrow> bytes \<Rightarrow> (rec_error + bytes) \<times> bytes" where
  "readRecord maxTotal s = read_fragments maxTotal [] s"

definition writeRecord :: "bytes \<Rightarrow> bytes" where
  "writeRecord body = be_PutUint32 (word_of_nat (length body) OR push_bit 31 1) @ body"

section \<open>Headers\<close>

definition acceptedHeader :: "u32 \<Rightarrow> u32 \<Rightarrow> encoder \<Rightarrow> encoder" where
  "acceptedHeader xid stat e =
     (let e = e_uint32 xid e; e = e_uint32 msgReply e; e = e_uint32 replyAccepted e;
          e = e_uint32 authNone e; e = e_uint32 0 e
      in e_uint32 stat e)"

definition authError :: "u32 \<Rightarrow> u32 \<Rightarrow> encoder \<Rightarrow> encoder" where
  "authError xid stat e =
     (let e = e_uint32 xid e; e = e_uint32 msgReply e; e = e_uint32 replyDenied e; e = e_uint32 rejectAuthError e
      in e_uint32 stat e)"

definition skip_words :: "nat \<Rightarrow> decoder \<Rightarrow> decoder" where
  "skip_words n d = ((\<lambda>d. snd (d_uint32 d)) ^^ n) d"

record authSysCred =
  cr_uid :: u32
  cr_gid :: u32
  cr_machine :: string

definition parseAuthSys :: "bytes \<Rightarrow> authSysCred option" where
  "parseAuthSys body =
     (let d = newDecoder body;
          (_, d) = d_uint32 d;
          (machine, d) = d_string maxNameBytes d;
          (uid, d) = d_uint32 d;
          (gid, d) = d_uint32 d;
          (n, d) = d_uint32 d
      in if n > maxAuthSysGids then None
         else let d = skip_words (unat n) d
              in if derr d \<noteq> None then None else Some \<lparr>cr_uid = uid, cr_gid = gid, cr_machine = machine\<rparr>)"

section \<open>Callbacks\<close>

text \<open>\<open>True\<close> is a nil error.\<close>

definition parseAcceptedReply :: "bytes \<Rightarrow> u32 \<Rightarrow> bool" where
  "parseAcceptedReply record xid =
     (let d = newDecoder record;
          (gotXID, d) = d_uint32 d;
          (mtype, d) = d_uint32 d;
          (stat, d) = d_uint32 d;
          (_, d) = d_uint32 d;
          (_, d) = d_opaque maxCredBytes d;
          (accept, d) = d_uint32 d
      in \<not> (derr d \<noteq> None \<or> gotXID \<noteq> xid \<or> mtype \<noteq> msgReply \<or> stat \<noteq> replyAccepted \<or> accept \<noteq> acceptSuccess))"

definition cbHeader :: "u32 \<Rightarrow> u32 \<Rightarrow> callbackPath \<Rightarrow> encoder" where
  "cbHeader xid proc cb =
     foldl (\<lambda>e v. e_uint32 v e) []
       [xid, msgCall, rpcVersion, cb_program cb, callbackVersion, proc, authNone, 0, authNone, 0]"

text \<open>The call \<^verbatim>\<open>pingCallback\<close> sends, and the one \<^verbatim>\<open>sendCBRecall\<close> sends.\<close>

definition cbNullCall :: "callbackPath \<Rightarrow> bytes" where
  "cbNullCall cb = writeRecord (cbHeader cbNullXID cbProcNull cb)"

definition cbRecallCall :: "callbackPath \<Rightarrow> u32 \<Rightarrow> other \<Rightarrow> bytes \<Rightarrow> bytes" where
  "cbRecallCall cb sq k h =
     (let e = cbHeader cbRecallXID cbProcCompound cb;
          e = e_opaque [] e;
          e = e_uint32 0 e;
          e = e_uint32 (cb_ident cb) e;
          e = e_uint32 1 e;
          e = e_uint32 opCBRecall e;
          e = e_uint32 sq e;
          e = e_opaqueFixed k e;
          e = e_bool False e
      in writeRecord (e_opaque h e))"

text \<open>What the server makes of the bytes the client answers with.\<close>

definition cbAnswered :: "u32 \<Rightarrow> bytes \<Rightarrow> bool" where
  "cbAnswered xid s = (case readRecord maxCallbackReplyBytes s of (Inl _, _) \<Rightarrow> False | (Inr reply, _) \<Rightarrow> parseAcceptedReply reply xid)"

section \<open>Universal addresses\<close>

text \<open>\<^verbatim>\<open>strconv.ParseUint(s, 10, 8)\<close>.\<close>

definition dec_digit :: "char \<Rightarrow> nat option" where
  "dec_digit c = (if (48 :: nat) \<le> of_char c \<and> of_char c \<le> (57 :: nat) then Some (of_char c - 48) else None)"

definition parse_dec :: "string \<Rightarrow> nat option" where
  "parse_dec s = foldl (\<lambda>acc c. case (acc, dec_digit c) of (Some n, Some k) \<Rightarrow> Some (10 * n + k) | _ \<Rightarrow> None) (Some 0) s"

definition parse_octet :: "string \<Rightarrow> nat option" where
  "parse_octet s = (if s = [] then None else case parse_dec s of Some n \<Rightarrow> if n \<le> 255 then Some n else None | None \<Rightarrow> None)"

definition splitPortOctet :: "string \<Rightarrow> (string \<times> nat) option" where
  "splitPortOctet s =
     (let tail = takeWhile (\<lambda>c. c \<noteq> CHR ''.'') (rev s)
      in if length tail = length s then None
         else map_option (\<lambda>n. (take (length s - Suc (length tail)) s, n)) (parse_octet (rev tail)))"

text \<open>\<^verbatim>\<open>net.JoinHostPort\<close>.\<close>

definition joinHostPort :: "string \<Rightarrow> string \<Rightarrow> string" where
  "joinHostPort host port =
     (if CHR '':'' \<in> set host \<or> CHR ''%'' \<in> set host then ''['' @ host @ '']:'' @ port else host @ '':'' @ port)"

definition parseUniversalAddr :: "(string \<Rightarrow> (bool \<times> bool) option) \<Rightarrow> string \<Rightarrow> string \<Rightarrow> string option" where
  "parseUniversalAddr parseIP netid uaddr =
     (if netid \<noteq> ''tcp'' \<and> netid \<noteq> ''tcp6'' then None
      else case splitPortOctet uaddr of
        None \<Rightarrow> None
      | Some (rest, p2) \<Rightarrow>
          (case splitPortOctet rest of
             None \<Rightarrow> None
           | Some (host, p1) \<Rightarrow>
               (case parseIP host of
                  None \<Rightarrow> None
                | Some (is4, unspecified) \<Rightarrow>
                    if (netid = ''tcp'') \<noteq> is4 then None
                    else let port = p1 * 256 + p2
                         in if port = 0 \<or> unspecified then None else Some (joinHostPort host (dec_string port)))))"

section \<open>Reading back what was written\<close>

text \<open>A record sent in fragments: all but the last carry a marker without the final bit.\<close>

fun write_fragments :: "bytes list \<Rightarrow> bytes \<Rightarrow> bytes" where
  "write_fragments [] final = writeRecord final"
| "write_fragments (f # fs) final = be_PutUint32 (word_of_nat (length f)) @ f @ write_fragments fs final"

lemma marker_size:
  assumes "n < 2 ^ 31"
  shows "unat ((word_of_nat n :: u32) AND 0x7fffffff) = n" "\<not> bit (word_of_nat n :: u32) 31"
    "unat (((word_of_nat n :: u32) OR push_bit 31 1) AND 0x7fffffff) = n" "bit ((word_of_nat n :: u32) OR push_bit 31 1) 31"
proof -
  have mask: "(0x7fffffff :: u32) = Bit_Operations.mask 31" by (simp add: mask_eq_exp_minus_1)
  have "unat ((word_of_nat n :: u32) AND 0x7fffffff) = n mod 2 ^ 31"
    unfolding mask take_bit_eq_mask [symmetric] by (simp add: unsigned_take_bit_eq unat_of_nat take_bit_eq_mod mod_mod_cancel unat_mod)
  then show low: "unat ((word_of_nat n :: u32) AND 0x7fffffff) = n" using assms by simp
  have "\<not> bit n 31" using assms by (simp add: bit_iff_odd)
  then show "\<not> bit (word_of_nat n :: u32) 31" by (simp add: bit_of_nat_iff_bit bit_simps)
  show "bit ((word_of_nat n :: u32) OR push_bit 31 1) 31" by (simp add: bit_simps)
  have "((word_of_nat n :: u32) OR push_bit 31 1) AND 0x7fffffff = word_of_nat n AND 0x7fffffff"
    unfolding mask
    by (rule bit_word_eqI, simp only: bit_and_iff bit_or_iff bit_mask_iff bit_push_bit_iff bit_1_iff) auto
  then show "unat (((word_of_nat n :: u32) OR push_bit 31 1) AND 0x7fffffff) = n" using low by simp
qed

lemma be_Uint32_whole [simp]: "be_Uint32 (be_PutUint32 v) = v"
  using be_Uint32_Put [of v "[]"] by simp

lemma read_final:
  assumes "length body < 2 ^ 31" "length got + length body \<le> mx"
  shows "read_fragments mx got (writeRecord body @ rest) = (Inr (got @ body), rest)"
  using assms marker_size [of "length body"]
  by (subst read_fragments.simps) (simp add: writeRecord_def Let_def)

lemma read_write_fragments:
  assumes "\<forall>f \<in> set (final # fs). length f < 2 ^ 31" "length got + length (concat fs) + length final \<le> mx"
  shows "read_fragments mx got (write_fragments fs final @ rest) = (Inr (got @ concat fs @ final), rest)"
  using assms
proof (induction fs arbitrary: got)
  case (Cons f fs)
  have "read_fragments mx got (write_fragments (f # fs) final @ rest)
      = read_fragments mx (got @ f) (write_fragments fs final @ rest)"
    using Cons.prems marker_size [of "length f"] by (subst read_fragments.simps) (simp add: Let_def)
  then show ?case using Cons.IH [of "got @ f"] Cons.prems by simp
qed (simp add: read_final)

text \<open>
  C24. A record that a peer sends, whole or in fragments, is reassembled to exactly the bytes sent as long as it
  is within the cap, and the bytes after it stay on the stream for the next read.
\<close>

theorem readRecord_roundtrip:
  assumes "\<forall>f \<in> set (final # fs). length f < 2 ^ 31" "length (concat fs) + length final \<le> maxTotal"
  shows "readRecord maxTotal (write_fragments fs final @ rest) = (Inr (concat fs @ final), rest)"
  unfolding readRecord_def using read_write_fragments [of final fs "[]" maxTotal rest] assms by simp

theorem readRecord_roundtrip_witness:
  "readRecord 512 (write_fragments [[1, 2], []] [3] @ [9]) = (Inr [1, 2, 3], [9])"
  using readRecord_roundtrip [of "[3]" "[[1, 2], []]" 512 "[9]"] by simp

lemma read_fragments_bound:
  "read_fragments mx got s = (Inr r, rest) \<Longrightarrow> length got \<le> mx \<Longrightarrow> length r \<le> mx \<and> (\<exists>sent. s = sent @ rest)"
proof (induction mx got s rule: read_fragments.induct)
  case (1 mx got s)
  define size where "size = unat (be_Uint32 (take 4 s) AND 0x7fffffff)"
  have long: "\<not> length s < 4" "\<not> length got + size > mx" "\<not> length (drop 4 s) < size"
    using 1(2) by (subst (asm) read_fragments.simps, auto simp: size_def Let_def split: if_splits)+
  have s: "s = (take 4 s @ take size (drop 4 s)) @ drop size (drop 4 s)" by (metis append_assoc append_take_drop_id)
  show ?case
  proof (cases "bit (be_Uint32 (take 4 s)) 31")
    case True
    then have "r = got @ take size (drop 4 s)" "rest = drop size (drop 4 s)"
      using 1(2) long by (subst (asm) read_fragments.simps, simp add: size_def Let_def split: if_splits)+
    then show ?thesis using long s by (metis length_append length_take min.absorb2 not_less)
  next
    case False
    then have more: "read_fragments mx (got @ take size (drop 4 s)) (drop size (drop 4 s)) = (Inr r, rest)"
      using 1(2) long by (subst (asm) read_fragments.simps) (simp add: size_def Let_def split: if_splits)
    have "length (got @ take size (drop 4 s)) \<le> mx" using long by simp
    then have "length r \<le> mx \<and> (\<exists>sent. drop size (drop 4 s) = sent @ rest)"
      using 1(1) [OF long(1) refl refl refl refl] more False long by (simp add: size_def)
    then show ?thesis using s by (metis append.assoc)
  qed
qed

section \<open>Addresses\<close>

lemma of_char_digit: "k < 10 \<Longrightarrow> (of_char (char_of (48 + k)) :: nat) = 48 + k"
  by (simp add: of_char_of)

lemma dec_digit_char: "k < 10 \<Longrightarrow> dec_digit (char_of (48 + k)) = Some k"
  by (simp add: dec_digit_def of_char_digit)

lemma parse_dec_snoc:
  "parse_dec (s @ [c]) = (case (parse_dec s, dec_digit c) of (Some n, Some k) \<Rightarrow> Some (10 * n + k) | _ \<Rightarrow> None)"
  by (simp add: parse_dec_def)

lemma dec_string_ne [simp]: "dec_string n \<noteq> []"
  by (subst dec_string.simps) simp

lemma parse_dec_string [simp]: "parse_dec (dec_string n) = Some n"
proof (induction n rule: dec_string.induct)
  case (1 n)
  show ?case
  proof (cases "n < 10")
    case True
    then have "parse_dec ([] @ [char_of (48 + n)]) = Some n"
      unfolding parse_dec_snoc by (simp add: dec_digit_char parse_dec_def)
    with True show ?thesis by (simp add: dec_string.simps [of n])
  next
    case False
    then show ?thesis
      using 1 by (simp add: dec_string.simps [of n] parse_dec_snoc dec_digit_char)
  qed
qed

lemma dec_string_digits: "c \<in> set (dec_string n) \<Longrightarrow> dec_digit c \<noteq> None"
proof (induction n rule: dec_string.induct)
  case (1 n)
  then show ?case by (cases "n < 10") (auto simp: dec_string.simps [of n] dec_digit_char)
qed

lemma dot_not_digit: "CHR ''.'' \<notin> set (dec_string n)"
  using dec_string_digits [of "CHR ''.''" n] by (auto simp: dec_digit_def)

lemma splitPortOctet_dec [simp]:
  assumes "n \<le> 255"
  shows "splitPortOctet (h @ ''.'' @ dec_string n) = Some (h, n)"
proof -
  have "takeWhile (\<lambda>c. c \<noteq> CHR ''.'') (rev (dec_string n) @ CHR ''.'' # rev h) = rev (dec_string n)"
    using dot_not_digit [of n] by (subst takeWhile_append2) auto
  then show ?thesis
    using assms by (simp add: splitPortOctet_def parse_octet_def)
qed

text \<open>
  C37. A universal address written as the host followed by the two port octets is read back as the host and
  the port they make; a port of zero, an unspecified host, or a host of the other address family is refused.
\<close>

theorem parseUniversalAddr_roundtrip:
  assumes "p1 \<le> 255" "p2 \<le> 255" "parseIP host = Some (is4, unspecified)" "netid = (if is4' then ''tcp'' else ''tcp6'')"
  shows "parseUniversalAddr parseIP netid (host @ ''.'' @ dec_string p1 @ ''.'' @ dec_string p2)
    = (if is4 \<noteq> is4' \<or> p1 * 256 + p2 = 0 \<or> unspecified then None
       else Some (joinHostPort host (dec_string (p1 * 256 + p2))))"
  using assms splitPortOctet_dec [OF assms(2), of "host @ ''.'' @ dec_string p1"] splitPortOctet_dec [OF assms(1), of host]
  by (cases is4') (auto simp: parseUniversalAddr_def Let_def)

theorem parseUniversalAddr_roundtrip_witness:
  "parseUniversalAddr (\<lambda>h. Some (True, False)) ''tcp'' (''10.0.0.1'' @ ''.'' @ dec_string 8 @ ''.'' @ dec_string 1)
    = Some (joinHostPort ''10.0.0.1'' (dec_string 2049))"
  using parseUniversalAddr_roundtrip [of 8 1 "\<lambda>h. Some (True, False)" "''10.0.0.1''" True False "''tcp''" True] by simp

end
