(* ===== verification/Go_Path.thy ===== *)
theory Go_Path
  imports Facet_Prelude
begin

text \<open>
  The functions of Go's \<^verbatim>\<open>path\<close> and \<^verbatim>\<open>strings\<close> packages that the servers call on slash-separated names,
  and \<^verbatim>\<open>names.Validate\<close> of \<^verbatim>\<open>internal/names\<close>.
\<close>

section \<open>Splitting and cleaning\<close>

abbreviation slash :: char where "slash \<equiv> CHR ''/''"

text \<open>\<^verbatim>\<open>strings.Split(s, "/")\<close>.\<close>

fun split_slash :: "string \<Rightarrow> string list" where
  "split_slash [] = [[]]"
| "split_slash (c # cs) =
     (if c = slash then [] # split_slash cs
      else case split_slash cs of [] \<Rightarrow> [[c]] | w # ws \<Rightarrow> (c # w) # ws)"

text \<open>\<^verbatim>\<open>strings.Join(ws, "/")\<close>.\<close>

fun join_slash :: "string list \<Rightarrow> string" where
  "join_slash [] = []"
| "join_slash [w] = w"
| "join_slash (w # v # ws) = w @ slash # join_slash (v # ws)"

text \<open>The stack that \<^verbatim>\<open>path.Clean\<close> keeps, top first.\<close>

definition clean_step :: "bool \<Rightarrow> string list \<Rightarrow> string \<Rightarrow> string list" where
  "clean_step rooted st w =
     (if w = [] \<or> w = ''.'' then st
      else if w = ''..''
        then (case st of
                [] \<Rightarrow> if rooted then [] else [''..'']
              | t # ts \<Rightarrow> if t = ''..'' then ''..'' # st else ts)
      else w # st)"

definition path_Clean :: "string \<Rightarrow> string" where
  "path_Clean p =
     (let rooted = (p \<noteq> [] \<and> hd p = slash);
          segs = rev (foldl (clean_step rooted) [] (split_slash p))
      in if rooted then slash # join_slash segs
         else if segs = [] then ''.'' else join_slash segs)"

text \<open>\<^verbatim>\<open>path.Join(a, b)\<close>: empty elements are dropped.\<close>

definition path_Join :: "string \<Rightarrow> string \<Rightarrow> string" where
  "path_Join a b =
     (if a = [] then (if b = [] then [] else path_Clean b)
      else if b = [] then path_Clean a
      else path_Clean (a @ slash # b))"

text \<open>\<^verbatim>\<open>path.Split\<close>: everything up to and including the last slash, and the rest.\<close>

definition path_Split :: "string \<Rightarrow> string \<times> string" where
  "path_Split p = (rev (dropWhile (\<lambda>c. c \<noteq> slash) (rev p)), rev (takeWhile (\<lambda>c. c \<noteq> slash) (rev p)))"

definition path_Dir :: "string \<Rightarrow> string" where
  "path_Dir p = path_Clean (fst (path_Split p))"

definition hasPrefix :: "string \<Rightarrow> string \<Rightarrow> bool" where
  "hasPrefix s pre \<longleftrightarrow> take (length pre) s = pre"

section \<open>Segment validation\<close>

text \<open>
  \<^verbatim>\<open>utf8.ValidString\<close>: the byte sequences of the well-formed code points, with the second-byte ranges
  that exclude overlong forms and surrogates.
\<close>

definition cont :: "nat \<Rightarrow> bool" where
  "cont b \<longleftrightarrow> 128 \<le> b \<and> b \<le> 191"

fun utf8_valid :: "nat list \<Rightarrow> bool" where
  "utf8_valid [] = True"
| "utf8_valid (a # bs) =
     (if a < 128 then utf8_valid bs
      else if 194 \<le> a \<and> a \<le> 223 then (case bs of b # r \<Rightarrow> cont b \<and> utf8_valid r | _ \<Rightarrow> False)
      else if 224 \<le> a \<and> a \<le> 239
        then (case bs of b # c # r \<Rightarrow>
            (if a = 224 then 160 \<le> b \<and> b \<le> 191 else if a = 237 then 128 \<le> b \<and> b \<le> 159 else cont b)
            \<and> cont c \<and> utf8_valid r | _ \<Rightarrow> False)
      else if 240 \<le> a \<and> a \<le> 244
        then (case bs of b # c # d # r \<Rightarrow>
            (if a = 240 then 144 \<le> b \<and> b \<le> 191 else if a = 244 then 128 \<le> b \<and> b \<le> 143 else cont b)
            \<and> cont c \<and> cont d \<and> utf8_valid r | _ \<Rightarrow> False)
      else False)"

text \<open>Whether \<^verbatim>\<open>names.Validate\<close> returns no error.\<close>

definition names_Validate :: "string \<Rightarrow> bool" where
  "names_Validate name \<longleftrightarrow>
     \<not> (length name > 255)
     \<and> \<not> (name = [] \<or> name = ''.'' \<or> name = ''..'' \<or> \<not> utf8_valid (map of_char name)
          \<or> slash \<in> set name \<or> char_of (0 :: nat) \<in> set name)"

section \<open>Lemmas\<close>

lemma split_slash_not_Nil [simp]: "split_slash s \<noteq> []"
  by (induction s) (auto split: list.splits)

lemma split_slash_no_slash [simp]: "slash \<notin> set w \<Longrightarrow> split_slash w = [w]"
  by (induction w) auto

lemma split_slash_append: "slash \<notin> set w \<Longrightarrow> split_slash (w @ slash # s) = w # split_slash s"
  by (induction w) auto

lemma split_slash_join:
  "ws \<noteq> [] \<Longrightarrow> \<forall>w \<in> set ws. slash \<notin> set w \<Longrightarrow> split_slash (join_slash ws) = ws"
  by (induction ws rule: join_slash.induct) (auto simp: split_slash_append)

lemma join_slash_append:
  "ws \<noteq> [] \<Longrightarrow> join_slash (ws @ [w]) = join_slash ws @ slash # w"
  by (induction ws rule: join_slash.induct) auto

lemma split_slash_segments: "w \<in> set (split_slash s) \<Longrightarrow> slash \<notin> set w"
  by (induction s arbitrary: w) (auto split: if_splits list.splits)

text \<open>A segment that \<^verbatim>\<open>path.Clean\<close> keeps as it is.\<close>

definition plain_seg :: "string \<Rightarrow> bool" where
  "plain_seg w \<longleftrightarrow> w \<noteq> [] \<and> w \<noteq> ''.'' \<and> w \<noteq> ''..'' \<and> slash \<notin> set w"

lemma names_Validate_plain: "names_Validate w \<Longrightarrow> plain_seg w"
  by (simp add: names_Validate_def plain_seg_def)

lemma clean_fold_plain:
  "\<forall>w \<in> set ws. plain_seg w \<Longrightarrow> foldl (clean_step r) st ws = rev ws @ st"
  by (induction ws arbitrary: st) (auto simp: clean_step_def plain_seg_def)

text \<open>The rooted path of a list of plain segments.\<close>

definition rooted :: "string list \<Rightarrow> string" where
  "rooted ws = slash # join_slash ws"

lemma clean_rooted:
  assumes "\<forall>w \<in> set ws. plain_seg w"
  shows "path_Clean (rooted ws) = rooted ws"
proof (cases "ws = []")
  case False
  then have "split_slash (join_slash ws) = ws"
    using assms by (intro split_slash_join) (auto simp: plain_seg_def)
  with assms False show ?thesis
    by (simp add: path_Clean_def rooted_def clean_fold_plain clean_step_def Let_def)
qed (simp add: path_Clean_def rooted_def clean_step_def)

lemma join_rooted:
  assumes "\<forall>w \<in> set ws. plain_seg w" "plain_seg n"
  shows "path_Join (rooted ws) n = rooted (ws @ [n])"
proof -
  have "n \<noteq> []" using assms(2) by (simp add: plain_seg_def)
  have "path_Clean (rooted ws @ slash # n) = rooted (ws @ [n])"
  proof (cases "ws = []")
    case True
    then show ?thesis using assms(2)
      by (auto simp: path_Clean_def rooted_def clean_step_def plain_seg_def Let_def)
  next
    case False
    then have "rooted ws @ slash # n = rooted (ws @ [n])" by (simp add: rooted_def join_slash_append)
    then show ?thesis using clean_rooted [of "ws @ [n]"] assms by simp
  qed
  then show ?thesis using \<open>n \<noteq> []\<close> by (simp add: path_Join_def rooted_def)
qed

text \<open>Every cleaned rooted name is the rooted path of plain segments.\<close>

lemma clean_fold_rooted:
  assumes "\<forall>w \<in> set st. plain_seg w" "\<forall>w \<in> set ws. slash \<notin> set w"
  shows "\<forall>w \<in> set (foldl (clean_step True) st ws). plain_seg w"
  using assms
proof (induction ws arbitrary: st)
  case (Cons w ws)
  have "\<forall>v \<in> set (clean_step True st w). plain_seg v"
    using Cons.prems by (auto simp: clean_step_def plain_seg_def split: list.splits if_splits)
  with Cons show ?case by simp
qed simp

lemma clean_is_rooted:
  obtains ws where "path_Clean (slash # p) = rooted ws" "\<forall>w \<in> set ws. plain_seg w"
proof
  let ?ws = "rev (foldl (clean_step True) [] (split_slash (slash # p)))"
  show "path_Clean (slash # p) = rooted ?ws" by (simp add: path_Clean_def rooted_def Let_def)
  show "\<forall>w \<in> set ?ws. plain_seg w"
    using clean_fold_rooted [of "[]" "split_slash (slash # p)"] split_slash_segments
    by (metis empty_iff list.set(1) set_rev)
qed

end
