(* ===== verification/Nfs_Fh.thy ===== *)
theory Nfs_Fh
  imports Xdr Nfs_Const
begin

text \<open>
  The filehandle codec of \<^verbatim>\<open>nfs4/fh.go\<close>: a handle is a path, or the SHA-256 of a long one, sealed with a
  truncated HMAC. The HMAC under the server's key, SHA-256 and the caller's resolver are parameters; what
  the theorems need of them is the length of their output.
\<close>

section \<open>The codec\<close>

record fhCodec =
  fh_long :: "(bytes \<times> string) list"
  fh_order :: "bytes list"

definition newFHCodec :: fhCodec where
  "newFHCodec = \<lparr>fh_long = [], fh_order = []\<rparr>"

abbreviation (input) fhShort :: byte where "fhShort \<equiv> 1"
abbreviation (input) fhLong :: byte where "fhLong \<equiv> 2"
abbreviation (input) fhMacLen :: nat where "fhMacLen \<equiv> 16"
abbreviation (input) shortPathMax :: nat where "shortPathMax \<equiv> 111"
abbreviation (input) longTableMax :: nat where "longTableMax \<equiv> 4096"

definition path_bytes :: "string \<Rightarrow> bytes" where
  "path_bytes p = map char_byte p"

definition fh_remember :: "bytes \<Rightarrow> string \<Rightarrow> fhCodec \<Rightarrow> fhCodec" where
  "fh_remember digest p c =
     (if map_of (fh_long c) digest \<noteq> None then c
      else let c = (if length (fh_order c) \<ge> longTableMax
                    then c\<lparr>fh_long := AList.delete (hd (fh_order c)) (fh_long c), fh_order := tl (fh_order c)\<rparr> else c)
           in c\<lparr>fh_long := AList.update digest p (fh_long c), fh_order := fh_order c @ [digest]\<rparr>)"

text \<open>\<open>hmac\<close> is HMAC-SHA256 under the codec's key.\<close>

definition fh_mac :: "(bytes \<Rightarrow> bytes) \<Rightarrow> byte \<Rightarrow> bytes \<Rightarrow> bytes" where
  "fh_mac hmac form payload = take fhMacLen (hmac (form # payload))"

definition fh_seal :: "(bytes \<Rightarrow> bytes) \<Rightarrow> (bytes \<Rightarrow> bytes) \<Rightarrow> string \<Rightarrow> fhCodec \<Rightarrow> bytes \<times> fhCodec" where
  "fh_seal hmac sha p c =
     (if length p \<le> shortPathMax
      then (fhShort # fh_mac hmac fhShort (path_bytes p) @ path_bytes p, c)
      else let digest = sha (path_bytes p);
               c = fh_remember digest p c
           in (fhLong # fh_mac hmac fhLong digest @ digest, c))"

definition fh_unseal :: "(bytes \<Rightarrow> bytes) \<Rightarrow> (bytes \<Rightarrow> bytes) \<Rightarrow> (bytes \<Rightarrow> string option) option \<Rightarrow> bytes \<Rightarrow> fhCodec
    \<Rightarrow> (string \<times> nfsStat) \<times> fhCodec" where
  "fh_unseal hmac sha resolve h c =
     (if length h < 1 + fhMacLen \<or> length h > 128 then (([], nfs4ErrBadHandle), c)
      else let form = hd h; mac = take fhMacLen (tl h); payload = drop (1 + fhMacLen) h
           in if form = fhShort
              then (if mac \<noteq> fh_mac hmac fhShort payload then (([], nfs4ErrFHExpired), c)
                    else ((map byte_char payload, nfs4OK), c))
              else if form = fhLong
              then (if length payload \<noteq> 32 \<or> mac \<noteq> fh_mac hmac fhLong payload then (([], nfs4ErrFHExpired), c)
                    else case map_of (fh_long c) payload of
                           Some p \<Rightarrow> ((p, nfs4OK), c)
                         | None \<Rightarrow>
                             (case resolve of
                                None \<Rightarrow> (([], nfs4ErrFHExpired), c)
                              | Some f \<Rightarrow>
                                  (case f payload of
                                     None \<Rightarrow> (([], nfs4ErrFHExpired), c)
                                   | Some p \<Rightarrow>
                                       if sha (path_bytes p) = payload then ((p, nfs4OK), fh_remember payload p c)
                                       else (([], nfs4ErrFHExpired), c))))
              else (([], nfs4ErrBadHandle), c))"

section \<open>The table of long paths\<close>

text \<open>The order lists the table's keys once each, within the bound, and a key is the hash of its path.\<close>

definition fh_ok :: "(bytes \<Rightarrow> bytes) \<Rightarrow> fhCodec \<Rightarrow> bool" where
  "fh_ok sha c \<longleftrightarrow> distinct (fh_order c) \<and> set (fh_order c) = dom (map_of (fh_long c)) \<and> length (fh_order c) \<le> longTableMax
     \<and> (\<forall>digest p. map_of (fh_long c) digest = Some p \<longrightarrow> sha (path_bytes p) = digest)"

lemma byte_char_path_bytes [simp]: "map byte_char (path_bytes p) = p"
  by (simp add: path_bytes_def comp_def)

lemma length_path_bytes [simp]: "length (path_bytes p) = length p"
  by (simp add: path_bytes_def)

lemma fh_ok_new: "fh_ok sha newFHCodec"
  by (simp add: fh_ok_def newFHCodec_def)

lemma fh_ok_remember:
  assumes "fh_ok sha c" "sha (path_bytes p) = digest"
  shows "fh_ok sha (fh_remember digest p c)"
proof (cases "map_of (fh_long c) digest")
  case None
  define c' where "c' = (if length (fh_order c) \<ge> longTableMax
      then c\<lparr>fh_long := AList.delete (hd (fh_order c)) (fh_long c), fh_order := tl (fh_order c)\<rparr> else c)"
  have "fh_ok sha c' \<and> length (fh_order c') < longTableMax \<and> map_of (fh_long c') digest = None"
  proof (cases "length (fh_order c) \<ge> longTableMax")
    case True
    then obtain x xs where x: "fh_order c = x # xs" by (cases "fh_order c") auto
    with True assms(1) None show ?thesis by (auto simp: c'_def fh_ok_def split: if_splits)
  next
    case False
    with assms(1) None show ?thesis by (simp add: c'_def)
  qed
  moreover have "fh_remember digest p c = c'\<lparr>fh_long := AList.update digest p (fh_long c'), fh_order := fh_order c' @ [digest]\<rparr>"
    using None by (simp add: fh_remember_def c'_def)
  ultimately show ?thesis using assms(2) by (auto simp: fh_ok_def split: if_splits)
qed (use assms in \<open>simp add: fh_remember_def\<close>)

lemma fh_remember_has: "map_of (fh_long (fh_remember digest p c)) digest = (case map_of (fh_long c) digest of Some q \<Rightarrow> Some q | None \<Rightarrow> Some p)"
  by (simp add: fh_remember_def Let_def split: option.splits)

lemma fh_seal_ok: "fh_ok sha c \<Longrightarrow> fh_ok sha (snd (fh_seal hmac sha p c))"
  by (simp add: fh_seal_def Let_def fh_ok_remember)

lemma fh_unseal_ok: "fh_ok sha c \<Longrightarrow> fh_ok sha (snd (fh_unseal hmac sha resolve h c))"
  by (auto simp: fh_unseal_def Let_def fh_ok_remember split: option.splits)

section \<open>What handles promise\<close>

lemma seal_length:
  assumes "\<And>x. length (hmac x) = 32" "\<And>x. length (sha x) = 32"
  shows "1 + fhMacLen \<le> length (fst (fh_seal hmac sha p c))" "length (fst (fh_seal hmac sha p c)) \<le> 128"
  using assms by (simp_all add: fh_seal_def fh_mac_def Let_def)

text \<open>A handle of a codec whose table still has the path of its digest resolves to the path.\<close>

lemma unseal_seal:
  assumes "\<And>x. length (hmac x) = 32" "\<And>x. length (sha x) = 32"
    "length p > shortPathMax \<Longrightarrow> map_of (fh_long c') (sha (path_bytes p)) = Some p"
  shows "fh_unseal hmac sha resolve (fst (fh_seal hmac sha p c)) c' = ((p, nfs4OK), c')"
proof (cases "length p \<le> shortPathMax")
  case True
  have "drop 16 (fh_mac hmac x y) = []" "length (fh_mac hmac x y) = 16" for x y using assms(1) by (simp_all add: fh_mac_def)
  with True show ?thesis by (simp add: fh_seal_def fh_unseal_def Let_def)
next
  case False
  have "drop 16 (fh_mac hmac x y) = []" "length (fh_mac hmac x y) = 16" for x y using assms(1) by (simp_all add: fh_mac_def)
  with False assms(2,3) show ?thesis by (simp add: fh_seal_def fh_unseal_def Let_def)
qed



text \<open>
  C11. \<^verbatim>\<open>unseal\<close> accepts only authenticated handles: whatever the client sends, a path comes back only if the handle's
  MAC is the server's MAC of its payload, and the path is the payload itself or hashes to it.
\<close>

theorem fh_unseal_authentic:
  assumes "fh_ok sha c" "fh_unseal hmac sha resolve h c = ((p, s), c')"
  shows "fh_ok sha c' \<and> (s = nfs4OK \<longrightarrow>
    h = fhShort # fh_mac hmac fhShort (path_bytes p) @ path_bytes p
    \<or> h = fhLong # fh_mac hmac fhLong (sha (path_bytes p)) @ sha (path_bytes p) \<and> map_of (fh_long c') (sha (path_bytes p)) = Some p)"
proof
  show ok: "fh_ok sha c'" using fh_unseal_ok [OF assms(1), of hmac resolve h] assms(2) by simp
  show "s = nfs4OK \<longrightarrow> h = fhShort # fh_mac hmac fhShort (path_bytes p) @ path_bytes p
    \<or> h = fhLong # fh_mac hmac fhLong (sha (path_bytes p)) @ sha (path_bytes p) \<and> map_of (fh_long c') (sha (path_bytes p)) = Some p"
  proof
    assume s: "s = nfs4OK"
    have len: "1 + fhMacLen \<le> length h" using assms(2) s by (auto simp: fh_unseal_def split: if_splits)
    then obtain form rest where h: "h = form # rest" by (cases h) auto
    define mac where "mac = take fhMacLen rest"
    define payload where "payload = drop fhMacLen rest"
    have h': "h = form # mac @ payload" by (simp add: h mac_def payload_def)
    consider (short) "form = fhShort" "mac = fh_mac hmac fhShort payload" "p = map byte_char payload"
      | (known) "form = fhLong" "mac = fh_mac hmac fhLong payload" "map_of (fh_long c) payload = Some p" "c' = c"
      | (resolved) "form = fhLong" "mac = fh_mac hmac fhLong payload" "map_of (fh_long c) payload = None" "sha (path_bytes p) = payload" "c' = fh_remember payload p c"
      using assms(2) s by (auto simp: fh_unseal_def Let_def h mac_def payload_def split: if_splits option.splits)
    then show "h = fhShort # fh_mac hmac fhShort (path_bytes p) @ path_bytes p
      \<or> h = fhLong # fh_mac hmac fhLong (sha (path_bytes p)) @ sha (path_bytes p) \<and> map_of (fh_long c') (sha (path_bytes p)) = Some p"
    proof cases
      case short
      then show ?thesis using h' by (simp add: path_bytes_def comp_def)
    next
      case known
      then have "sha (path_bytes p) = payload" using assms(1) by (simp add: fh_ok_def)
      then show ?thesis using known h' by simp
    next
      case resolved
      then show ?thesis using h' by (simp add: fh_remember_has)
    qed
  qed
qed

theorem fh_unseal_authentic_witness:
  "fh_ok (\<lambda>x. replicate 32 0) newFHCodec \<and>
    (fhShort # replicate 16 7 @ path_bytes ''/a'' = fhShort # fh_mac (\<lambda>x. replicate 32 7) fhShort (path_bytes ''/a'') @ path_bytes ''/a''
    \<or> fhShort # replicate 16 7 @ path_bytes ''/a'' = fhLong # fh_mac (\<lambda>x. replicate 32 7) fhLong (replicate 32 0) @ replicate 32 0
      \<and> map_of (fh_long newFHCodec) (replicate 32 0) = Some ''/a'')"
proof -
  have "fh_unseal (\<lambda>x. replicate 32 7) (\<lambda>x. replicate 32 0) None (fhShort # replicate 16 7 @ path_bytes ''/a'') newFHCodec = ((''/a'', nfs4OK), newFHCodec)"
    by (simp add: fh_unseal_def fh_mac_def Let_def path_bytes_def)
  from fh_unseal_authentic [OF fh_ok_new this] show ?thesis by simp
qed

section \<open>How long a long handle lasts\<close>

lemma remember_keeps:
  assumes "map_of (fh_long c) digest = Some p" "fh_order c = xs @ [digest] @ ys" "length ys + 1 < longTableMax" "digest \<notin> set xs"
  shows "\<exists>xs' ys'. map_of (fh_long (fh_remember k q c)) digest = Some p \<and> fh_order (fh_remember k q c) = xs' @ [digest] @ ys'
    \<and> length ys' \<le> Suc (length ys) \<and> digest \<notin> set xs'"
proof (cases "map_of (fh_long c) k = None")
  case False
  then have "fh_remember k q c = c" by (simp add: fh_remember_def)
  then show ?thesis using assms by (intro exI [of _ xs] exI [of _ ys]) simp
next
  case True
  then have k: "k \<noteq> digest" using assms(1) by auto
  show ?thesis
  proof (cases "length (fh_order c) \<ge> longTableMax")
    case full: True
    then obtain x zs where x: "xs = x # zs" using assms(2,3) by (cases xs) auto
    show ?thesis using assms True full k x
      by (intro exI [of _ zs] exI [of _ "ys @ [k]"]) (simp add: fh_remember_def Let_def)
  next
    case False
    then show ?thesis using assms True k by (intro exI [of _ xs] exI [of _ "ys @ [k]"]) (simp add: fh_remember_def Let_def)
  qed
qed

lemma seals_keep:
  assumes "map_of (fh_long c) digest = Some p" "fh_order c = xs @ [digest] @ ys" "length ys + length ps < longTableMax" "digest \<notin> set xs"
  shows "map_of (fh_long (foldl (\<lambda>c q. snd (fh_seal hmac sha q c)) c ps)) digest = Some p"
  using assms
proof (induction ps arbitrary: c xs ys)
  case (Cons q ps)
  have "\<exists>xs' ys'. map_of (fh_long (snd (fh_seal hmac sha q c))) digest = Some p \<and> fh_order (snd (fh_seal hmac sha q c)) = xs' @ [digest] @ ys'
      \<and> length ys' \<le> Suc (length ys) \<and> digest \<notin> set xs'"
  proof (cases "length q \<le> shortPathMax")
    case True
    then show ?thesis using Cons.prems by (intro exI [of _ xs] exI [of _ ys]) (simp add: fh_seal_def)
  next
    case False
    then show ?thesis using remember_keeps [of c digest p xs ys "sha (path_bytes q)" q] Cons.prems by (simp add: fh_seal_def Let_def)
  qed
  then obtain xs' ys' where e: "map_of (fh_long (snd (fh_seal hmac sha q c))) digest = Some p" "fh_order (snd (fh_seal hmac sha q c)) = xs' @ [digest] @ ys'"
    "length ys' \<le> Suc (length ys)" "digest \<notin> set xs'" by blast
  have "length ys' + length ps < longTableMax" using e(3) Cons.prems(3) by simp
  from Cons.IH [OF e(1,2) this e(4)] show ?case by simp
qed simp

text \<open>
  C33. A long handle outlives later ones: sealing up to 4095 further paths after the first time a path was sealed
  does not expire its handle.
\<close>

theorem fh_long_survives:
  assumes "\<And>x. length (hmac x) = 32" "\<And>x. length (sha x) = 32" "fh_ok sha c" "map_of (fh_long c) (sha (path_bytes p)) = None"
    and "length ps < longTableMax"
  shows "fst (fh_unseal hmac sha resolve (fst (fh_seal hmac sha p c)) (foldl (\<lambda>c q. snd (fh_seal hmac sha q c)) (snd (fh_seal hmac sha p c)) ps))
    = (p, nfs4OK)"
proof -
  let ?c = "snd (fh_seal hmac sha p c)"
  have "map_of (fh_long (foldl (\<lambda>c q. snd (fh_seal hmac sha q c)) ?c ps)) (sha (path_bytes p)) = Some p" if long: "length p > shortPathMax"
  proof (rule seals_keep)
    have c: "?c = fh_remember (sha (path_bytes p)) p c" using long by (simp add: fh_seal_def Let_def)
    show "map_of (fh_long ?c) (sha (path_bytes p)) = Some p" using assms(4) by (simp add: c fh_remember_has)
    define xs where "xs = (if length (fh_order c) \<ge> longTableMax then tl (fh_order c) else fh_order c)"
    show "fh_order ?c = xs @ [sha (path_bytes p)] @ []" using assms(4) by (simp add: c fh_remember_def Let_def xs_def)
    have "sha (path_bytes p) \<notin> set (fh_order c)" using assms(3,4) by (auto simp: fh_ok_def)
    then show "sha (path_bytes p) \<notin> set xs" unfolding xs_def by (cases "fh_order c") auto
  qed (use assms(5) in simp)
  from unseal_seal [where hmac = hmac and sha = sha and p = p and c = c and resolve = resolve, OF assms(1,2) this] show ?thesis by simp
qed

theorem fh_long_survives_witness:
  "fst (fh_unseal (\<lambda>x. replicate 32 7) (\<lambda>x. replicate 32 0) None (fst (fh_seal (\<lambda>x. replicate 32 7) (\<lambda>x. replicate 32 0) (replicate 200 CHR ''a'') newFHCodec))
     (foldl (\<lambda>c q. snd (fh_seal (\<lambda>x. replicate 32 7) (\<lambda>x. replicate 32 0) q c))
       (snd (fh_seal (\<lambda>x. replicate 32 7) (\<lambda>x. replicate 32 0) (replicate 200 CHR ''a'') newFHCodec)) [''/b'', ''/c'']))
    = (replicate 200 CHR ''a'', nfs4OK)"
  by (rule fh_long_survives) (simp_all add: fh_ok_new, simp add: newFHCodec_def)

end
