(* ===== verification/Nfs_Dir.thy ===== *)
theory Nfs_Dir
  imports Facet_Prelude "HOL-Library.While_Combinator"
begin

text \<open>
  The snapshots of directory listings of \<^verbatim>\<open>nfs4/dircache.go\<close>. The clock reading is an argument, the entries are of
  any type, and the eviction loop is \<open>while_option\<close>: that it ends is a theorem about the invariant.
\<close>

section \<open>The cache\<close>

type_synonym dirKey = "string \<times> u64"
type_synonym 'e dirSnapshot = "'e list \<times> int"

record 'e dirCache =
  dc_ttl :: int
  dc_max :: nat
  dc_seq :: u64
  dc_total :: int
  dc_held :: "(dirKey \<times> 'e dirSnapshot) list"
  dc_order :: "dirKey list"

definition newDirCache :: "int \<Rightarrow> nat \<Rightarrow> 'e dirCache" where
  "newDirCache ttl mx = \<lparr>dc_ttl = ttl, dc_max = mx, dc_seq = 0, dc_total = 0, dc_held = [], dc_order = []\<rparr>"

definition dc_mint :: "'e dirCache \<Rightarrow> u64 \<times> 'e dirCache" where
  "dc_mint c = (dc_seq c + 1, c\<lparr>dc_seq := dc_seq c + 1\<rparr>)"

definition dc_lookup :: "string \<Rightarrow> u64 \<Rightarrow> int \<Rightarrow> 'e dirCache \<Rightarrow> 'e list option" where
  "dc_lookup p verf now c =
     (case map_of (dc_held c) (p, verf) of
        None \<Rightarrow> None
      | Some (entries, at) \<Rightarrow> if now - at > dc_ttl c then None else Some entries)"

definition dc_drop :: "dirKey \<Rightarrow> 'e dirCache \<Rightarrow> 'e dirCache" where
  "dc_drop key c =
     (case map_of (dc_held c) key of
        None \<Rightarrow> c
      | Some (entries, at) \<Rightarrow>
          c\<lparr>dc_total := dc_total c - int (length entries), dc_held := AList.delete key (dc_held c),
            dc_order := remove1 key (dc_order c)\<rparr>)"

definition dc_drop_stale :: "int \<Rightarrow> 'e dirCache \<Rightarrow> dirKey \<Rightarrow> 'e dirCache" where
  "dc_drop_stale now c older =
     (case map_of (dc_held c) older of
        None \<Rightarrow> c
      | Some (entries, at) \<Rightarrow> if now - at > dc_ttl c then dc_drop older c else c)"

definition dc_evict :: "nat \<Rightarrow> 'e dirCache \<Rightarrow> 'e dirCache option" where
  "dc_evict n = while_option (\<lambda>c. dc_total c + int n > int (dc_max c) \<and> length (dc_order c) > 0) (\<lambda>c. dc_drop (hd (dc_order c)) c)"

text \<open>\<open>None\<close> is an eviction loop that does not end.\<close>

definition dc_put :: "string \<Rightarrow> u64 \<Rightarrow> 'e list \<Rightarrow> int \<Rightarrow> 'e dirCache \<Rightarrow> 'e dirCache option" where
  "dc_put p verf entries now c =
     (if length entries > dc_max c then Some c
      else let key = (p, verf);
               c = dc_drop key c;
               c = foldl (dc_drop_stale now) c (dc_order c)
           in map_option (\<lambda>c. c\<lparr>dc_held := AList.update key (entries, now) (dc_held c), dc_order := dc_order c @ [key],
                dc_total := dc_total c + int (length entries)\<rparr>) (dc_evict (length entries) c))"

section \<open>The invariant\<close>

text \<open>The order lists the held keys once each; the total counts the entries held and is within the bound.\<close>

definition dc_ok :: "'e dirCache \<Rightarrow> bool" where
  "dc_ok c \<longleftrightarrow> distinct (dc_order c) \<and> set (dc_order c) = dom (map_of (dc_held c))
     \<and> dc_total c = (\<Sum>k \<leftarrow> dc_order c. int (length (fst (the (map_of (dc_held c) k))))) \<and> dc_total c \<le> int (dc_max c)"

lemma dc_ok_new: "dc_ok (newDirCache ttl mx)"
  by (simp add: dc_ok_def newDirCache_def)

lemma sum_remove1:
  assumes "distinct xs" "k \<in> set xs"
  shows "(\<Sum>x \<leftarrow> remove1 k xs. f x) = (\<Sum>x \<leftarrow> xs. f x) - (f k :: int)"
  using assms by (induction xs) auto

lemma dc_drop_ok:
  assumes "dc_ok c"
  shows "dc_ok (dc_drop key c)" "map_of (dc_held (dc_drop key c)) = (map_of (dc_held c))(key := None)"
    "dc_order (dc_drop key c) = remove1 key (dc_order c)" "dc_max (dc_drop key c) = dc_max c" "dc_ttl (dc_drop key c) = dc_ttl c"
    "dc_seq (dc_drop key c) = dc_seq c"
proof -
  have o': "distinct (dc_order c)" "set (dc_order c) = dom (map_of (dc_held c))" using assms by (simp_all add: dc_ok_def)
  show h: "map_of (dc_held (dc_drop key c)) = (map_of (dc_held c))(key := None)"
    by (auto simp: dc_drop_def fun_eq_iff split: option.splits)
  show r: "dc_order (dc_drop key c) = remove1 key (dc_order c)"
  proof (cases "map_of (dc_held c) key")
    case None
    then have "key \<notin> set (dc_order c)" using o' by auto
    then show ?thesis using None by (simp add: dc_drop_def remove1_idem)
  qed (simp add: dc_drop_def split: prod.splits)
  show m: "dc_max (dc_drop key c) = dc_max c" "dc_ttl (dc_drop key c) = dc_ttl c" "dc_seq (dc_drop key c) = dc_seq c"
    by (simp_all add: dc_drop_def split: option.splits)
  show "dc_ok (dc_drop key c)"
  proof (cases "map_of (dc_held c) key")
    case None
    then show ?thesis using assms by (simp add: dc_drop_def)
  next
    case (Some s)
    then obtain entries t where s: "map_of (dc_held c) key = Some (entries, t)" by (cases s) auto
    have k: "key \<in> set (dc_order c)" using o' s by auto
    have tot: "dc_total (dc_drop key c) = dc_total c - int (length entries)" by (simp add: dc_drop_def s)
    have "(\<Sum>x \<leftarrow> remove1 key (dc_order c). int (length (fst (the (map_of (dc_held (dc_drop key c)) x)))))
        = (\<Sum>x \<leftarrow> remove1 key (dc_order c). int (length (fst (the (map_of (dc_held c) x)))))"
      using o'(1) by (intro arg_cong [where f = sum_list] map_cong) (auto simp: h)
    also have "\<dots> = dc_total c - int (length entries)"
      using sum_remove1 [OF o'(1) k, of "\<lambda>x. int (length (fst (the (map_of (dc_held c) x))))"] assms s by (simp add: dc_ok_def)
    finally have t: "dc_total (dc_drop key c) = (\<Sum>x \<leftarrow> dc_order (dc_drop key c). int (length (fst (the (map_of (dc_held (dc_drop key c)) x)))))"
      by (simp add: tot r)
    have "set (remove1 key (dc_order c)) = dom ((map_of (dc_held c))(key := None))" using o' by simp
    moreover have "dc_total c \<le> int (dc_max c)" using assms by (simp add: dc_ok_def)
    ultimately show ?thesis using o'(1) t tot unfolding dc_ok_def r h m by (simp add: distinct_remove1)
  qed
qed

lemma dc_drop_stale_ok:
  assumes "dc_ok c"
  shows "dc_ok (dc_drop_stale now c k)" "map_of (dc_held (dc_drop_stale now c k)) \<subseteq>\<^sub>m map_of (dc_held c)"
    "dc_max (dc_drop_stale now c k) = dc_max c" "dc_ttl (dc_drop_stale now c k) = dc_ttl c"
  using dc_drop_ok [OF assms, of k] assms by (auto simp: dc_drop_stale_def map_le_def split: option.splits if_splits)

lemma dc_drop_stales_ok:
  assumes "dc_ok c"
  shows "dc_ok (foldl (dc_drop_stale now) c ks) \<and> map_of (dc_held (foldl (dc_drop_stale now) c ks)) \<subseteq>\<^sub>m map_of (dc_held c)
    \<and> dc_max (foldl (dc_drop_stale now) c ks) = dc_max c \<and> dc_ttl (foldl (dc_drop_stale now) c ks) = dc_ttl c"
  using assms
proof (induction ks arbitrary: c)
  case (Cons k ks)
  note s = dc_drop_stale_ok [OF Cons.prems, of now k]
  from Cons.IH [OF s(1)] s show ?case by (auto intro: map_le_trans)
qed simp

text \<open>The eviction loop ends with room for the new entries, or with nothing held.\<close>

lemma dc_evict_ok:
  assumes "dc_ok c"
  shows "\<exists>c'. dc_evict n c = Some c' \<and> dc_ok c' \<and> map_of (dc_held c') \<subseteq>\<^sub>m map_of (dc_held c) \<and> dc_max c' = dc_max c \<and> dc_ttl c' = dc_ttl c
    \<and> \<not> (dc_total c' + int n > int (dc_max c') \<and> length (dc_order c') > 0)"
proof -
  let ?b = "\<lambda>c. dc_total c + int n > int (dc_max c) \<and> length (dc_order c) > 0" and ?s = "\<lambda>c. dc_drop (hd (dc_order c)) c"
  let ?P = "\<lambda>c'. dc_ok c' \<and> map_of (dc_held c') \<subseteq>\<^sub>m map_of (dc_held c) \<and> dc_max c' = dc_max c \<and> dc_ttl c' = dc_ttl c"
  have step: "?P (?s c')" "length (dc_order (?s c')) < length (dc_order c')" if "?P c'" "?b c'" for c'
  proof -
    note d = dc_drop_ok [OF conjunct1 [OF that(1)], of "hd (dc_order c')"]
    have "(map_of (dc_held c'))(hd (dc_order c') := None) \<subseteq>\<^sub>m map_of (dc_held c)"
      using that(1) by (auto simp: map_le_def)
    then show "?P (?s c')" using that(1) d by simp
    show "length (dc_order (?s c')) < length (dc_order c')" using d(3) that(2) by (cases "dc_order c'") auto
  qed
  obtain c' where w: "while_option ?b ?s c = Some c'"
    using measure_while_option_Some [of ?P ?b ?s "\<lambda>c. length (dc_order c)" c] step assms by auto
  have "?P c'" by (rule while_option_rule [OF _ w, where P = ?P]) (use step assms in auto)
  moreover have "\<not> ?b c'" by (rule while_option_stop [OF w])
  ultimately show ?thesis using w by (auto simp: dc_evict_def)
qed

lemma dc_ok_insert:
  assumes "dc_ok c" "map_of (dc_held c) key = None" "dc_total c + int (length entries) \<le> int (dc_max c)"
  shows "dc_ok (c\<lparr>dc_held := AList.update key (entries, now) (dc_held c), dc_order := dc_order c @ [key], dc_total := dc_total c + int (length entries)\<rparr>)"
proof -
  have o': "distinct (dc_order c)" "set (dc_order c) = dom (map_of (dc_held c))" "key \<notin> set (dc_order c)" using assms by (auto simp: dc_ok_def)
  have "(\<Sum>k \<leftarrow> dc_order c. int (length (fst (the (map_of (AList.update key (entries, now) (dc_held c)) k)))))
      = (\<Sum>k \<leftarrow> dc_order c. int (length (fst (the (map_of (dc_held c) k)))))"
    using o'(3) by (intro arg_cong [where f = sum_list] map_cong) auto
  then show ?thesis using assms o' by (auto simp: dc_ok_def)
qed

text \<open>
  C31. Storing a listing ends, keeps the snapshots within the entry bound, and the listing can be resumed under its
  verifier until it ages out; a snapshot of another listing is either kept as it was or dropped.
\<close>

theorem dirCache_put_lookup:
  assumes "dc_ok c" "length entries \<le> dc_max c"
  shows "\<exists>c'. dc_put p verf entries now c = Some c' \<and> dc_ok c' \<and> dc_max c' = dc_max c
    \<and> (\<forall>t. dc_lookup p verf t c' = (if t - now > dc_ttl c then None else Some entries))
    \<and> (\<forall>q v t. (q, v) \<noteq> (p, verf) \<longrightarrow> dc_lookup q v t c' = None \<or> dc_lookup q v t c' = dc_lookup q v t c)"
proof -
  define c1 where "c1 = dc_drop (p, verf) c"
  note d = dc_drop_ok [OF assms(1), of "(p, verf)", folded c1_def]
  define c2 where "c2 = foldl (dc_drop_stale now) c1 (dc_order c1)"
  note s = dc_drop_stales_ok [OF d(1), of now "dc_order c1", folded c2_def]
  obtain c3 where e: "dc_evict (length entries) c2 = Some c3" "dc_ok c3" "map_of (dc_held c3) \<subseteq>\<^sub>m map_of (dc_held c2)" "dc_max c3 = dc_max c2"
    "dc_ttl c3 = dc_ttl c2" "\<not> (dc_total c3 + int (length entries) > int (dc_max c3) \<and> length (dc_order c3) > 0)"
    using dc_evict_ok [of c2 "length entries"] s by blast
  have le: "map_of (dc_held c3) \<subseteq>\<^sub>m (map_of (dc_held c))((p, verf) := None)" using map_le_trans [OF e(3)] s unfolding d(2) [symmetric] by blast
  have none: "map_of (dc_held c3) (p, verf) = None" using map_le_implies_dom_le [OF le] by (cases "map_of (dc_held c3) (p, verf)") auto
  have room: "dc_total c3 + int (length entries) \<le> int (dc_max c3)"
  proof (cases "dc_order c3")
    case Nil
    then show ?thesis using e(2,4) s d(4) assms(2) by (simp add: dc_ok_def)
  qed (use e(6) in simp)
  define c' where "c' = c3\<lparr>dc_held := AList.update (p, verf) (entries, now) (dc_held c3), dc_order := dc_order c3 @ [(p, verf)],
    dc_total := dc_total c3 + int (length entries)\<rparr>"
  have "dc_put p verf entries now c = Some c'"
    using assms(2) by (simp add: dc_put_def Let_def c1_def [symmetric] c2_def [symmetric] e(1) c'_def)
  moreover have "dc_ok c'" unfolding c'_def by (rule dc_ok_insert [OF e(2) none room])
  moreover have fields: "dc_max c' = dc_max c" "dc_ttl c' = dc_ttl c" using e(4,5) s d(4,5) by (simp_all add: c'_def)
  moreover have "dc_lookup p verf t c' = (if t - now > dc_ttl c then None else Some entries)" for t
    using fields(2) by (simp add: dc_lookup_def c'_def)
  moreover have "dc_lookup q v t c' = None \<or> dc_lookup q v t c' = dc_lookup q v t c" if "(q, v) \<noteq> (p, verf)" for q v t
  proof (cases "map_of (dc_held c3) (q, v)")
    case None
    then show ?thesis using that by (auto simp: dc_lookup_def c'_def)
  next
    case (Some x)
    then have "map_of (dc_held c) (q, v) = Some x" using le that unfolding map_le_def by (metis domI fun_upd_other)
    then show ?thesis using Some that fields(2) by (auto simp: dc_lookup_def c'_def)
  qed
  ultimately show ?thesis by blast
qed

theorem dirCache_put_lookup_witness:
  "\<exists>c'. dc_put ''/d'' 1 [''x''] 5 (newDirCache 60 10) = Some c' \<and> dc_lookup ''/d'' 1 7 c' = Some [''x'']"
proof -
  have "dc_ok (newDirCache 60 10 :: string dirCache)" "length [''x''] \<le> dc_max (newDirCache 60 10 :: string dirCache)"
    by (rule dc_ok_new, simp add: newDirCache_def)
  from dirCache_put_lookup [OF this, of "''/d''" 1 5] show ?thesis by (auto simp: newDirCache_def)
qed

end
