(* ===== verification/Nfs_Server.thy ===== *)
theory Nfs_Server
  imports Nfs_Rpc Go_Path Nfs_Fh Nfs_Dir
begin

text \<open>
  What the NFS operations share: the translation of file system errors (\<^verbatim>\<open>nfs4/error.go\<close>), the file
  system the server is given, the execution state of a COMPOUND (\<^verbatim>\<open>nfs4/compound.go\<close>), attribute bitmaps
  (\<^verbatim>\<open>nfs4/attr.go\<close>), the helpers of \<^verbatim>\<open>nfs4/ops_fh.go\<close>, and the sequence-id discipline
  of \<^verbatim>\<open>nfs4/ops_state.go\<close> and \<^verbatim>\<open>nfs4/ops_lock.go\<close>.

  A \<^verbatim>\<open>FileSystem\<close> is an interface: the record \<open>fsops\<close> holds its methods as functions on a backend state of
  any type. An optional interface that a file system may not implement is an \<open>option\<close>.
\<close>

unbundle bit_operations_syntax

section \<open>Errors\<close>

datatype errno = ENOSPC | EDQUOT | EROFS | EISDIR | ENOTDIR | ENOTEMPTY | EMLINK | EXDEV | ENXIO
  | ENAMETOOLONG | EFBIG | EBUSY | ETXTBSY | ENOENT | EEXIST | EACCES | EPERM | OtherErrno

text \<open>An error a file system returns: a wrapped system error number, or one of the sentinels.\<close>

datatype fserr = Errno errno | NotExist | Exist | Permission | Invalid | Canceled | DeadlineExceeded | EOF | UnexpectedEOF | OtherErr

text \<open>\<^verbatim>\<open>errors.Is\<close> against the sentinels of \<^verbatim>\<open>io/fs\<close>, with the rules of \<^verbatim>\<open>syscall.Errno.Is\<close>.\<close>

definition isNotExist :: "fserr \<Rightarrow> bool" where
  "isNotExist err \<longleftrightarrow> err = NotExist \<or> err = Errno ENOENT"

definition isExist :: "fserr \<Rightarrow> bool" where
  "isExist err \<longleftrightarrow> err = Exist \<or> err = Errno EEXIST \<or> err = Errno ENOTEMPTY"

definition isPermission :: "fserr \<Rightarrow> bool" where
  "isPermission err \<longleftrightarrow> err = Permission \<or> err = Errno EACCES \<or> err = Errno EPERM"

definition errnoStat :: "fserr \<Rightarrow> nfsStat option" where
  "errnoStat err =
     (case err of
        Errno n \<Rightarrow>
          (case n of
             ENOSPC \<Rightarrow> Some nfs4ErrNoSpc | EDQUOT \<Rightarrow> Some nfs4ErrDQuot | EROFS \<Rightarrow> Some nfs4ErrROFS
           | EISDIR \<Rightarrow> Some nfs4ErrIsDir | ENOTDIR \<Rightarrow> Some nfs4ErrNotDir | ENOTEMPTY \<Rightarrow> Some nfs4ErrNotEmpty
           | EMLINK \<Rightarrow> Some nfs4ErrMLink | EXDEV \<Rightarrow> Some nfs4ErrXDev | ENXIO \<Rightarrow> Some nfs4ErrNXIO
           | ENAMETOOLONG \<Rightarrow> Some nfs4ErrNameTooLong | EFBIG \<Rightarrow> Some nfs4ErrFBig
           | EBUSY \<Rightarrow> Some nfs4ErrFileOpen | ETXTBSY \<Rightarrow> Some nfs4ErrFileOpen | _ \<Rightarrow> None)
      | _ \<Rightarrow> None)"

definition nameErr :: "fserr \<Rightarrow> nfsStat" where
  "nameErr err =
     (case errnoStat err of
        Some s \<Rightarrow> s
      | None \<Rightarrow>
          if isNotExist err then nfs4ErrNoEnt
          else if isExist err then nfs4ErrExist
          else if isPermission err then nfs4ErrAccess
          else if err = Invalid then nfs4ErrInval
          else if err = Canceled \<or> err = DeadlineExceeded then nfs4ErrDelay
          else nfs4ErrIO)"

definition fhErr :: "fserr \<Rightarrow> nfsStat" where
  "fhErr err = (if isNotExist err then nfs4ErrStale else nameErr err)"

section \<open>The file system\<close>

record finfo =
  fi_isDir :: bool
  fi_isSymlink :: bool
  fi_mode :: u32
  fi_mtime :: int
  fi_size :: int
  fi_name :: string

record fsstat =
  vfs_totalBytes :: u64
  vfs_freeBytes :: u64
  vfs_availBytes :: u64
  vfs_totalFiles :: u64
  vfs_freeFiles :: u64

record 'b symlinkfs =
  sl_symlink :: "string \<Rightarrow> string \<Rightarrow> 'b \<Rightarrow> fserr option \<times> 'b"
  sl_readlink :: "string \<Rightarrow> 'b \<Rightarrow> fserr + string"
  sl_lstat :: "string \<Rightarrow> 'b \<Rightarrow> fserr + finfo"

record 'b setstat =
  ss_truncate :: "string \<Rightarrow> int \<Rightarrow> 'b \<Rightarrow> fserr option \<times> 'b"
  ss_chmod :: "string \<Rightarrow> u32 \<Rightarrow> 'b \<Rightarrow> fserr option \<times> 'b"
  ss_chtimes :: "string \<Rightarrow> int \<Rightarrow> int \<Rightarrow> 'b \<Rightarrow> fserr option \<times> 'b"

text \<open>
  An open file is the number \<open>fs_open\<close> gave for it. A read returns the count it reports, what it wrote into the
  caller's buffer and its error; \<open>fs_readFull\<close> is \<^verbatim>\<open>io.ReadFull\<close> on the file. \<open>fs_readerAt\<close>, \<open>fs_writerAt\<close> and
  \<open>fs_sync\<close> are \<open>None\<close> for a file without that method.
\<close>

record 'b fsops =
  fs_symlinks :: "'b symlinkfs option"
  fs_stat :: "string \<Rightarrow> 'b \<Rightarrow> fserr + finfo"
  fs_open :: "string \<Rightarrow> nat \<Rightarrow> u32 \<Rightarrow> 'b \<Rightarrow> (fserr + nat) \<times> 'b"
  fs_close :: "nat \<Rightarrow> 'b \<Rightarrow> fserr option \<times> 'b"
  fs_mkdir :: "string \<Rightarrow> u32 \<Rightarrow> 'b \<Rightarrow> fserr option \<times> 'b"
  fs_removeAll :: "string \<Rightarrow> 'b \<Rightarrow> fserr option \<times> 'b"
  fs_rename :: "string \<Rightarrow> string \<Rightarrow> 'b \<Rightarrow> fserr option \<times> 'b"
  fs_setstat :: "'b setstat option"
  fs_link :: "(string \<Rightarrow> string \<Rightarrow> 'b \<Rightarrow> fserr option \<times> 'b) option"
  fs_remove :: "(string \<Rightarrow> 'b \<Rightarrow> fserr option \<times> 'b) option"
  fs_statvfs :: "(string \<Rightarrow> 'b \<Rightarrow> fserr + fsstat) option"
  fs_readdir :: "nat \<Rightarrow> nat \<Rightarrow> 'b \<Rightarrow> (finfo list \<times> fserr option) \<times> 'b"
  fs_readerAt :: "nat \<Rightarrow> (nat \<Rightarrow> int \<Rightarrow> 'b \<Rightarrow> (int \<times> bytes \<times> fserr option) \<times> 'b) option"
  fs_writerAt :: "nat \<Rightarrow> (bytes \<Rightarrow> int \<Rightarrow> 'b \<Rightarrow> (int \<times> fserr option) \<times> 'b) option"
  fs_seek :: "nat \<Rightarrow> int \<Rightarrow> 'b \<Rightarrow> fserr option \<times> 'b"
  fs_readFull :: "nat \<Rightarrow> nat \<Rightarrow> 'b \<Rightarrow> (int \<times> bytes \<times> fserr option) \<times> 'b"
  fs_write :: "nat \<Rightarrow> bytes \<Rightarrow> 'b \<Rightarrow> (int \<times> fserr option) \<times> 'b"
  fs_sync :: "nat \<Rightarrow> ('b \<Rightarrow> fserr option \<times> 'b) option"
  fs_fstat :: "nat \<Rightarrow> 'b \<Rightarrow> fserr + finfo"

text \<open>Flags of \<^verbatim>\<open>os.OpenFile\<close>.\<close>

abbreviation (input) O_RDONLY :: nat where "O_RDONLY \<equiv> 0"
abbreviation (input) O_WRONLY :: nat where "O_WRONLY \<equiv> 1"
abbreviation (input) O_RDWR :: nat where "O_RDWR \<equiv> 2"
abbreviation (input) O_CREATE :: nat where "O_CREATE \<equiv> 64"
abbreviation (input) O_EXCL :: nat where "O_EXCL \<equiv> 128"
abbreviation (input) O_TRUNC :: nat where "O_TRUNC \<equiv> 512"

definition changeOf :: "finfo \<Rightarrow> u64" where
  "changeOf fi = word_of_int (fi_mtime fi) XOR push_bit 1 (word_of_int (fi_size fi))"

section \<open>Exclusive creates\<close>

text \<open>\<^verbatim>\<open>nfs4/exclusive.go\<close>: the verifiers of exclusive creates, by path.\<close>

record exclusiveCreates =
  x_ttl :: time
  x_max :: nat
  x_verfs :: "(string \<times> (bytes \<times> time)) list"

definition x_matches :: "string \<Rightarrow> bytes \<Rightarrow> time \<Rightarrow> exclusiveCreates \<Rightarrow> bool \<times> exclusiveCreates" where
  "x_matches p verf now x =
     (case map_of (x_verfs x) p of
        None \<Rightarrow> (False, x)
      | Some (v, at) \<Rightarrow>
          if now - at > x_ttl x then (False, x\<lparr>x_verfs := AList.delete p (x_verfs x)\<rparr>)
          else (v = verf, x))"

definition x_oldest :: "time \<Rightarrow> (string \<times> (bytes \<times> time)) list \<Rightarrow> string \<times> time" where
  "x_oldest now vs = foldl (\<lambda>(o', at) (p, (v, t)). if \<not> (t > at) then (p, t) else (o', at)) ([], now) vs"

definition x_record :: "string \<Rightarrow> bytes \<Rightarrow> time \<Rightarrow> exclusiveCreates \<Rightarrow> exclusiveCreates" where
  "x_record p verf now x =
     (let vs = filter (\<lambda>(q, (v, at)). \<not> (now - at > x_ttl x)) (x_verfs x);
          vs = (if length vs \<ge> x_max x then AList.delete (fst (x_oldest now vs)) vs else vs)
      in x\<lparr>x_verfs := AList.update p (verf, now) vs\<rparr>)"

definition x_forget :: "string \<Rightarrow> exclusiveCreates \<Rightarrow> exclusiveCreates" where
  "x_forget p x = x\<lparr>x_verfs := AList.delete p (x_verfs x)\<rparr>"

section \<open>Execution state\<close>

text \<open>
  One COMPOUND's filehandles with the server state it runs on. A file the server holds open is the
  number the backend gave for it; \<open>closed\<close> lists the files whose \<^verbatim>\<open>sync.Once\<close> has run and
  \<open>recalls\<close> the callback recalls the server has sent.
\<close>

record 'b compound =
  store :: stateStore
  exclusive :: exclusiveCreates
  backend :: 'b
  closed :: "nat list"
  recalls :: "recallJob list"
  fhc :: fhCodec
  dirs :: "finfo dirCache"
  cred :: "u32 option"
  fh :: string
  hasFH :: bool
  saved :: string
  hasSaved :: bool

record 'b config =
  fsys :: "'b fsops"
  readDelegations :: bool
  maxWriteBytes :: u32
  maxReadBytes :: u32
  supported :: "u32 list"
  maxDirectoryEntries :: int
  leaseDuration :: time
  verifier :: bytes
  handleHmac :: "bytes \<Rightarrow> bytes"
  sha256 :: "bytes \<Rightarrow> bytes"
  resolveLong :: "(bytes \<Rightarrow> string option) option"
  parseIP :: "string \<Rightarrow> (bool \<times> bool) option"

type_synonym 'b result = "nfsStat \<times> encoder \<times> 'b compound"

definition status :: "encoder \<Rightarrow> nfsStat \<Rightarrow> 'b compound \<Rightarrow> 'b result" where
  "status e s c = (s, e_uint32 s e, c)"

text \<open>A store operation run on the compound's store.\<close>

definition on_store :: "(stateStore \<Rightarrow> 'r \<times> stateStore) \<Rightarrow> 'b compound \<Rightarrow> 'r \<times> 'b compound" where
  "on_store f c = (let (r, st) = f (store c) in (r, c\<lparr>store := st\<rparr>))"

definition upd_store :: "(stateStore \<Rightarrow> stateStore) \<Rightarrow> 'b compound \<Rightarrow> 'b compound" where
  "upd_store f c = c\<lparr>store := f (store c)\<rparr>"

definition closeFile :: "'b config \<Rightarrow> nat \<Rightarrow> 'b compound \<Rightarrow> fserr option \<times> 'b compound" where
  "closeFile cfg f c =
     (if f \<in> set (closed c) then (None, c)
      else let (err, b) = fs_close (fsys cfg) f (backend c)
           in (err, c\<lparr>backend := b, closed := f # closed c\<rparr>))"

text \<open>\<^verbatim>\<open>nfs4/file.go\<close>: positioned I/O on an open file, with Seek where the file has no ReadAt or WriteAt.\<close>

definition file_ReadAt :: "'b config \<Rightarrow> nat \<Rightarrow> nat \<Rightarrow> int \<Rightarrow> 'b compound \<Rightarrow> (int \<times> bytes \<times> fserr option) \<times> 'b compound" where
  "file_ReadAt cfg f len off c =
     (case fs_readerAt (fsys cfg) f of
        Some ra \<Rightarrow> let (r, b) = ra len off (backend c) in (r, c\<lparr>backend := b\<rparr>)
      | None \<Rightarrow>
          let (err, b) = fs_seek (fsys cfg) f off (backend c); c = c\<lparr>backend := b\<rparr>
          in (case err of
                Some err \<Rightarrow> ((0, [], Some err), c)
              | None \<Rightarrow>
                  let ((n, buf, err), b) = fs_readFull (fsys cfg) f len (backend c)
                  in ((n, buf, if err = Some UnexpectedEOF then Some EOF else err), c\<lparr>backend := b\<rparr>)))"

definition file_WriteAt :: "'b config \<Rightarrow> nat \<Rightarrow> bytes \<Rightarrow> int \<Rightarrow> 'b compound \<Rightarrow> (int \<times> fserr option) \<times> 'b compound" where
  "file_WriteAt cfg f data off c =
     (case fs_writerAt (fsys cfg) f of
        Some wa \<Rightarrow> let (r, b) = wa data off (backend c) in (r, c\<lparr>backend := b\<rparr>)
      | None \<Rightarrow>
          let (err, b) = fs_seek (fsys cfg) f off (backend c); c = c\<lparr>backend := b\<rparr>
          in (case err of
                Some err \<Rightarrow> ((0, Some err), c)
              | None \<Rightarrow> let (r, b) = fs_write (fsys cfg) f data (backend c) in (r, c\<lparr>backend := b\<rparr>)))"

definition file_sync :: "'b config \<Rightarrow> nat \<Rightarrow> 'b compound \<Rightarrow> (bool \<times> fserr option) \<times> 'b compound" where
  "file_sync cfg f c =
     (case fs_sync (fsys cfg) f of
        None \<Rightarrow> ((False, None), c)
      | Some sync \<Rightarrow> let (err, b) = sync (backend c) in ((True, err), c\<lparr>backend := b\<rparr>))"

definition closeOpt :: "'b config \<Rightarrow> nat option \<Rightarrow> 'b compound \<Rightarrow> 'b compound" where
  "closeOpt cfg f c = (case f of None \<Rightarrow> c | Some f \<Rightarrow> snd (closeFile cfg f c))"

definition closeAll :: "'b config \<Rightarrow> nat list \<Rightarrow> 'b compound \<Rightarrow> 'b compound" where
  "closeAll cfg fs c = foldl (\<lambda>c f. snd (closeFile cfg f c)) c fs"

definition lstatOrStat :: "'b config \<Rightarrow> string \<Rightarrow> 'b compound \<Rightarrow> fserr + finfo" where
  "lstatOrStat cfg p c =
     (case fs_symlinks (fsys cfg) of Some sl \<Rightarrow> sl_lstat sl p (backend c) | None \<Rightarrow> fs_stat (fsys cfg) p (backend c))"

definition dirAt :: "'b config \<Rightarrow> string \<Rightarrow> 'b compound \<Rightarrow> nfsStat" where
  "dirAt cfg p c =
     (case lstatOrStat cfg p c of
        Inl err \<Rightarrow> fhErr err
      | Inr fi \<Rightarrow> if fi_isDir fi then nfs4OK else if fi_isSymlink fi then nfs4ErrSymlink else nfs4ErrNotDir)"

definition dirFH :: "'b config \<Rightarrow> 'b compound \<Rightarrow> nfsStat" where
  "dirFH cfg c =
     (if \<not> hasFH c then nfs4ErrNoFilehandle
      else case lstatOrStat cfg (fh c) c of
             Inl err \<Rightarrow> fhErr err
           | Inr fi \<Rightarrow> if fi_isDir fi then nfs4OK else if fi_isSymlink fi then nfs4ErrSymlink else nfs4ErrNotDir)"

definition changeOfDir :: "'b config \<Rightarrow> string \<Rightarrow> 'b compound \<Rightarrow> u64" where
  "changeOfDir cfg p c = (case fs_stat (fsys cfg) p (backend c) of Inl err \<Rightarrow> 0 | Inr fi \<Rightarrow> changeOf fi)"

definition encodeChangeInfo :: "u64 \<Rightarrow> u64 \<Rightarrow> encoder \<Rightarrow> encoder" where
  "encodeChangeInfo before' after e = e_uint64 after (e_uint64 before' (e_bool False e))"

definition srv_lease :: "'b config \<Rightarrow> time" where
  "srv_lease cfg = (if leaseDuration cfg > 0 then leaseDuration cfg else 90000000000)"

definition maxDirEntries :: "'b config \<Rightarrow> nat" where
  "maxDirEntries cfg = (if maxDirectoryEntries cfg > 0 then nat (maxDirectoryEntries cfg) else 100000)"

definition headroom :: nat where
  "headroom = 98304"

definition maxRead :: "'b config \<Rightarrow> u32" where
  "maxRead cfg = (if maxReadBytes cfg > 0 then maxReadBytes cfg else 1048576)"

definition maxWrite :: "'b config \<Rightarrow> u32" where
  "maxWrite cfg = (if maxWriteBytes cfg > 0 then maxWriteBytes cfg else 1048576)"

definition requestCap :: "'b config \<Rightarrow> nat" where
  "requestCap cfg = unat (maxWrite cfg) + headroom"

definition responseCap :: "'b config \<Rightarrow> nat" where
  "responseCap cfg = unat (maxRead cfg) + headroom"

definition c_recall :: "string \<Rightarrow> addr option \<Rightarrow> time \<Rightarrow> 'b compound \<Rightarrow> nfsStat \<times> 'b compound" where
  "c_recall p except now c =
     (let ((s, jobs), c) = on_store (recallDelegations p except now) c in (s, c\<lparr>recalls := recalls c @ jobs\<rparr>))"

section \<open>Stateids, names and bitmaps on the wire\<close>

definition encodeStateid :: "u32 \<Rightarrow> other \<Rightarrow> encoder \<Rightarrow> encoder" where
  "encodeStateid sq k e = e_opaqueFixed k (e_uint32 sq e)"

text \<open>\<^verbatim>\<open>copy(other[:], b)\<close> into a zeroed array of \<open>n\<close> bytes.\<close>

definition copy_array :: "nat \<Rightarrow> bytes \<Rightarrow> bytes" where
  "copy_array n b = take n (b @ replicate n 0)"

definition decodeStateid :: "decoder \<Rightarrow> (u32 \<times> other) \<times> decoder" where
  "decodeStateid d =
     (let (sq, d) = d_uint32 d; (b, d) = d_opaqueFixed 12 d in ((sq, copy_array 12 b), d))"

definition decodeName :: "decoder \<Rightarrow> (string \<times> nfsStat) \<times> decoder" where
  "decodeName d =
     (let (raw, d) = d_opaque (4 * maxNameBytes) d
      in (if derr d \<noteq> None then ([], nfs4ErrBadXDR)
          else if length raw = 0 then ([], nfs4ErrInval)
          else if length raw > 255 then ([], nfs4ErrNameTooLong)
          else let name = map byte_char raw
               in if name = ''.'' \<or> name = ''..'' then ([], nfs4ErrBadName)
                  else if \<not> names_Validate name then ([], nfs4ErrInval)
                  else (name, nfs4OK), d))"

type_synonym bitmap = "u32 list"

definition bm_has :: "bitmap \<Rightarrow> nat \<Rightarrow> bool" where
  "bm_has b n \<longleftrightarrow> n div 32 < length b \<and> (b ! (n div 32)) AND push_bit (n mod 32) 1 \<noteq> 0"

definition bm_set :: "nat \<Rightarrow> bitmap \<Rightarrow> bitmap" where
  "bm_set n b =
     (let b = b @ replicate (Suc (n div 32) - length b) 0
      in b[n div 32 := b ! (n div 32) OR push_bit (n mod 32) 1])"

fun d_words :: "nat \<Rightarrow> decoder \<Rightarrow> u32 list \<times> decoder" where
  "d_words 0 d = ([], d)"
| "d_words (Suc n) d = (let (w, d) = d_uint32 d; (ws, d) = d_words n d in (w # ws, d))"

abbreviation (input) maxBitmapWords :: nat where "maxBitmapWords \<equiv> 8"

definition decodeBitmap :: "decoder \<Rightarrow> bitmap \<times> decoder" where
  "decodeBitmap d =
     (let (n, d) = d_uint32 d
      in if n > 8 then ([], d_fail ErrBound d) else d_words (unat n) d)"

definition encodeBitmap :: "bitmap \<Rightarrow> encoder \<Rightarrow> encoder" where
  "encodeBitmap b e = foldl (\<lambda>e w. e_uint32 w e) (e_uint32 (word_of_nat (length b)) e) b"

section \<open>Sequence ids\<close>

definition noAdvance :: "nfsStat \<Rightarrow> bool" where
  "noAdvance s \<longleftrightarrow> s = nfs4ErrBadSeqID \<or> s = nfs4ErrStaleClientID \<or> s = nfs4ErrStaleStateID
     \<or> s = nfs4ErrBadStateID \<or> s = nfs4ErrBadXDR \<or> s = nfs4ErrResource
     \<or> s = nfs4ErrNoFilehandle \<or> s = nfs4ErrMoved"

text \<open>\<^verbatim>\<open>slices.Clone(result.Bytes())\<close>: nothing encoded is the nil slice.\<close>

definition clone_reply :: "encoder \<Rightarrow> bytes option" where
  "clone_reply e = (if e = [] then None else Some e)"

text \<open>
  \<^verbatim>\<open>withSeqid\<close>. \<open>replay\<close> runs on a replayed success, \<open>fn\<close> is the operation; both work on the compound. The
  status of a replay is its first four bytes.
\<close>

definition withSeqid :: "addr \<Rightarrow> u32 \<Rightarrow> u32 \<Rightarrow> encoder \<Rightarrow> ('b compound \<Rightarrow> 'b compound)
    \<Rightarrow> (encoder \<Rightarrow> 'b compound \<Rightarrow> 'b result) \<Rightarrow> 'b compound \<Rightarrow> 'b result" where
  "withSeqid w opnum sq e replay fn c =
     (let x = howner (store c) w;
          run = (\<lambda>c. let (s, result, c) = fn [] c
            in if noAdvance s
               then let c = upd_store (upd_owner w (\<lambda>x. x\<lparr>w_seqid := w_seqid x - 1\<rparr>)) c;
                        c = (if w_lastReply (howner (store c) w) = None
                             then upd_store (upd_owner w (\<lambda>x. x\<lparr>w_fresh := True\<rparr>)) c else c)
                    in status e s c
               else let c = upd_store (upd_owner w (\<lambda>x. x\<lparr>w_lastOp := opnum, w_lastReply := clone_reply result\<rparr>)) c
                    in (s, e_opaqueFixed result e, c))
      in if w_fresh x then run (upd_store (upd_owner w (\<lambda>x. x\<lparr>w_fresh := False, w_seqid := sq\<rparr>)) c)
         else if sq = w_seqid x
           then (case w_lastReply x of
                   None \<Rightarrow> status e nfs4ErrBadSeqID c
                 | Some reply \<Rightarrow>
                     if w_lastOp x \<noteq> opnum then status e nfs4ErrBadSeqID c
                     else let s = be_Uint32 reply
                          in (s, e_opaqueFixed reply e, if s = nfs4OK then replay c else c))
         else if sq = w_seqid x + 1 then run (upd_store (upd_owner w (\<lambda>x. x\<lparr>w_seqid := sq\<rparr>)) c)
         else status e nfs4ErrBadSeqID c)"

datatype seqstate = SeqFresh | SeqReplay | SeqNext

text \<open>How one owner's sequence id relates to the request; \<open>None\<close> is NFS4ERR_BAD_SEQID.\<close>

definition seq_class :: "owner \<Rightarrow> u32 \<Rightarrow> seqstate option" where
  "seq_class x want =
     (if w_fresh x then Some SeqFresh
      else if want = w_seqid x
        then (if w_lastOp x \<noteq> opLock \<or> w_lastReply x = None then None else Some SeqReplay)
      else if want = w_seqid x + 1 then Some SeqNext
      else None)"

definition withTwoSeqids :: "addr \<Rightarrow> addr \<Rightarrow> u32 \<Rightarrow> u32 \<Rightarrow> encoder
    \<Rightarrow> (encoder \<Rightarrow> 'b compound \<Rightarrow> 'b result) \<Rightarrow> 'b compound \<Rightarrow> 'b result" where
  "withTwoSeqids ow lw openSeq lockSeq e fn c =
     (let x = howner (store c) ow; y = howner (store c) lw
      in case (seq_class x openSeq, seq_class y lockSeq) of
        (Some a, Some b) \<Rightarrow>
          if (a = SeqReplay \<or> b = SeqReplay) \<and> (a \<noteq> SeqReplay \<or> b \<noteq> SeqReplay) then status e nfs4ErrBadSeqID c
          else if a = SeqReplay \<and> b = SeqReplay
            then (let reply = (case w_lastReply x of None \<Rightarrow> [] | Some r \<Rightarrow> r)
                  in (be_Uint32 reply, e_opaqueFixed reply e, c))
          else let c = upd_store (upd_owner ow (\<lambda>z. z\<lparr>w_fresh := False, w_seqid := openSeq\<rparr>)) c;
                   c = upd_store (upd_owner lw (\<lambda>z. z\<lparr>w_fresh := False, w_seqid := lockSeq\<rparr>)) c;
                   (s, result, c) = fn [] c
               in if noAdvance s
                  then let c = upd_store (upd_owner ow (\<lambda>z. z\<lparr>w_seqid := w_seqid x, w_fresh := w_fresh x\<rparr>)) c;
                           c = upd_store (upd_owner lw (\<lambda>z. z\<lparr>w_seqid := w_seqid y, w_fresh := w_fresh y\<rparr>)) c
                       in status e s c
                  else let c = upd_store (upd_owner ow (\<lambda>z. z\<lparr>w_lastOp := opLock, w_lastReply := clone_reply result\<rparr>)) c;
                           c = upd_store (upd_owner lw (\<lambda>z. z\<lparr>w_lastOp := opLock, w_lastReply := clone_reply result\<rparr>)) c
                       in (s, e_opaqueFixed result e, c)
      | _ \<Rightarrow> status e nfs4ErrBadSeqID c)"

end
