(* ===== verification/Nfs_Attr.thy ===== *)
theory Nfs_Attr
  imports Nfs_Server
begin

text \<open>
  File attributes on the wire, \<^verbatim>\<open>nfs4/attr.go\<close>. The values of a fattr4 are written in place after a
  placeholder for their length, which is filled in at the end; the theorem shows the result is the
  granted bitmap and an opaque value whose length is the one written and needs no padding.
\<close>

unbundle bit_operations_syntax

section \<open>Attribute values\<close>

definition statVFS :: "'b config \<Rightarrow> string \<Rightarrow> 'b compound \<Rightarrow> fsstat" where
  "statVFS cfg p c =
     (let zero = \<lparr>vfs_totalBytes = 0, vfs_freeBytes = 0, vfs_availBytes = 0, vfs_totalFiles = 0, vfs_freeFiles = 0\<rparr>
      in case fs_statvfs (fsys cfg) of
           None \<Rightarrow> zero
         | Some f \<Rightarrow> (case f p (backend c) of Inl _ \<Rightarrow> zero | Inr v \<Rightarrow> v))"

definition supportedAttrs :: "'b fsops \<Rightarrow> bitmap" where
  "supportedAttrs ops =
     (let b = foldl (\<lambda>b n. bm_set n b) []
            [attrSupportedAttrs, attrType, attrFHExpireType, attrChange, attrSize,
             attrLinkSupport, attrSymlinkSupport, attrNamedAttr, attrFSID,
             attrUniqueHandles, attrLeaseTime, attrRdattrError, attrACLSupport,
             attrCanSetTime, attrCaseInsensitive, attrCasePreserving,
             attrChownRestricted, attrFilehandle, attrFileID, attrHomogeneous,
             attrMaxFileSize, attrMaxLink, attrMaxName, attrMaxRead, attrMaxWrite,
             attrMode, attrNoTrunc, attrNumLinks, attrOwner, attrOwnerGroup,
             attrRawDev, attrSpaceUsed, attrTimeAccess, attrTimeDelta,
             attrTimeMetadata, attrTimeModify, attrMountedOnFileID];
          b = (if fs_statvfs ops \<noteq> None
               then foldl (\<lambda>b n. bm_set n b) b
                      [attrFilesAvail, attrFilesFree, attrFilesTotal, attrSpaceAvail, attrSpaceFree, attrSpaceTotal]
               else b)
      in if fs_setstat ops \<noteq> None then bm_set attrTimeModifySet (bm_set attrTimeAccessSet b) else b)"

text \<open>64-bit FNV-1a of the path.\<close>

definition fileID :: "string \<Rightarrow> u64" where
  "fileID p = foldl (\<lambda>h b. (h XOR ucast b) * 1099511628211) 14695981039346656037 (path_bytes p)"

definition fileType :: "finfo \<Rightarrow> u32" where
  "fileType fi = (if fi_isDir fi then nf4Dir else if fi_isSymlink fi then nf4Lnk else nf4Reg)"

definition encodeTime :: "finfo \<Rightarrow> encoder \<Rightarrow> encoder" where
  "encodeTime fi e =
     e_uint32 (word_of_int (fi_mtime fi mod 1000000000)) (e_uint64 (word_of_int (fi_mtime fi div 1000000000)) e)"

text \<open>Only the filehandle attribute changes the server: sealing a long path remembers it.\<close>

definition encodeAttrValue :: "'b config \<Rightarrow> string \<Rightarrow> finfo \<Rightarrow> nat \<Rightarrow> encoder \<Rightarrow> 'b compound \<Rightarrow> encoder \<times> 'b compound" where
  "encodeAttrValue cfg p fi attr e c =
     (if attr = attrSupportedAttrs then (encodeBitmap (supported cfg) e, c)
      else if attr = attrType then (e_uint32 (fileType fi) e, c)
      else if attr = attrFHExpireType then (e_uint32 fh4VolatileAny e, c)
      else if attr = attrChange then (e_uint64 (changeOf fi) e, c)
      else if attr = attrSize then (e_uint64 (word_of_int (fi_size fi)) e, c)
      else if attr = attrLinkSupport then (e_bool (fs_link (fsys cfg) \<noteq> None) e, c)
      else if attr = attrSymlinkSupport then (e_bool (fs_symlinks (fsys cfg) \<noteq> None) e, c)
      else if attr = attrNamedAttr then (e_bool False e, c)
      else if attr = attrFSID then (e_uint64 0 (e_uint64 0x66616365 e), c)
      else if attr = attrUniqueHandles then (e_bool False e, c)
      else if attr = attrLeaseTime then (e_uint32 (word_of_int (srv_lease cfg div 1000000000)) e, c)
      else if attr = attrRdattrError then (e_uint32 nfs4OK e, c)
      else if attr = attrACLSupport then (e_uint32 0 e, c)
      else if attr = attrCanSetTime then (e_bool (fs_setstat (fsys cfg) \<noteq> None) e, c)
      else if attr = attrCaseInsensitive then (e_bool False e, c)
      else if attr = attrCasePreserving then (e_bool True e, c)
      else if attr = attrChownRestricted then (e_bool True e, c)
      else if attr = attrFilehandle
        then (let (h, x) = fh_seal (handleHmac cfg) (sha256 cfg) p (fhc c) in (e_opaque h e, c\<lparr>fhc := x\<rparr>))
      else if attr = attrFileID then (e_uint64 (fileID p) e, c)
      else if attr = attrFilesAvail then (e_uint64 (vfs_freeFiles (statVFS cfg p c)) e, c)
      else if attr = attrFilesFree then (e_uint64 (vfs_freeFiles (statVFS cfg p c)) e, c)
      else if attr = attrFilesTotal then (e_uint64 (vfs_totalFiles (statVFS cfg p c)) e, c)
      else if attr = attrHomogeneous then (e_bool True e, c)
      else if attr = attrMaxFileSize then (e_uint64 (push_bit 62 1) e, c)
      else if attr = attrMaxLink then (e_uint32 255 e, c)
      else if attr = attrMaxName then (e_uint32 maxNameBytes e, c)
      else if attr = attrMaxRead then (e_uint64 (ucast (maxRead cfg)) e, c)
      else if attr = attrMaxWrite then (e_uint64 (ucast (maxWrite cfg)) e, c)
      else if attr = attrMode then (e_uint32 (fi_mode fi AND 0x1ff) e, c)
      else if attr = attrNoTrunc then (e_bool True e, c)
      else if attr = attrNumLinks then (e_uint32 1 e, c)
      else if attr = attrOwner then (e_string ''0'' e, c)
      else if attr = attrOwnerGroup then (e_string ''0'' e, c)
      else if attr = attrRawDev then (e_uint32 0 (e_uint32 0 e), c)
      else if attr = attrSpaceAvail then (e_uint64 (vfs_availBytes (statVFS cfg p c)) e, c)
      else if attr = attrSpaceFree then (e_uint64 (vfs_freeBytes (statVFS cfg p c)) e, c)
      else if attr = attrSpaceTotal then (e_uint64 (vfs_totalBytes (statVFS cfg p c)) e, c)
      else if attr = attrSpaceUsed then (e_uint64 (word_of_int (fi_size fi)) e, c)
      else if attr = attrTimeAccess \<or> attr = attrTimeMetadata \<or> attr = attrTimeModify then (encodeTime fi e, c)
      else if attr = attrTimeDelta then (e_uint32 1 (e_uint64 0 e), c)
      else if attr = attrMountedOnFileID then (e_uint64 (fileID p) e, c)
      else (e, c))"

definition encode_values :: "'b config \<Rightarrow> string \<Rightarrow> finfo \<Rightarrow> nat list \<Rightarrow> encoder \<Rightarrow> 'b compound \<Rightarrow> encoder \<times> 'b compound" where
  "encode_values cfg p fi attrs e c = foldl (\<lambda>(e, c) i. encodeAttrValue cfg p fi i e c) (e, c) attrs"

text \<open>The attributes an object can have, in the order they are encoded.\<close>

definition attr_range :: "nat list" where
  "attr_range = [0..<Suc attrMountedOnFileID]"

definition granted_attrs :: "bitmap \<Rightarrow> bitmap \<Rightarrow> bitmap" where
  "granted_attrs requested su = foldl (\<lambda>b i. bm_set i b) [] (filter (\<lambda>i. bm_has requested i \<and> bm_has su i) attr_range)"

definition encodeFattr :: "'b config \<Rightarrow> bitmap \<Rightarrow> string \<Rightarrow> finfo \<Rightarrow> encoder \<Rightarrow> 'b compound \<Rightarrow> encoder \<times> 'b compound" where
  "encodeFattr cfg requested p fi e c =
     (let granted = granted_attrs requested (supported cfg);
          e = encodeBitmap granted e;
          lengthAt = length e;
          e = e_uint32 0 e;
          start = length e;
          (e, c) = encode_values cfg p fi (filter (bm_has granted) attr_range) e c
      in (e_patchUint32 lengthAt (word_of_nat (length e - start)) e, c))"

section \<open>Bitmaps\<close>

lemma bm_has_Nil [simp]: "\<not> bm_has [] n"
  by (simp add: bm_has_def)

lemma and_single_bit: "w AND push_bit k 1 \<noteq> 0 \<longleftrightarrow> bit w k" if "k < 32" for w :: u32
  using that by (auto simp: bit_simps intro!: bit_word_eqI dest!: arg_cong [of _ 0 "\<lambda>v. bit v k"])

lemma bm_has_bit: "bm_has b n \<longleftrightarrow> n div 32 < length b \<and> bit (b ! (n div 32)) (n mod 32)"
  unfolding bm_has_def using and_single_bit [of "n mod 32" "b ! (n div 32)"] by simp

lemma bm_has_set [simp]: "bm_has (bm_set n b) m \<longleftrightarrow> m = n \<or> bm_has b m"
proof -
  define b' where "b' = b @ replicate (Suc (n div 32) - length b) 0"
  have has: "bm_has b' m \<longleftrightarrow> bm_has b m"
    by (auto simp: bm_has_bit b'_def nth_append)
  have len: "n div 32 < length b'"
    by (simp add: b'_def)
  have set_eq: "bm_set n b = b'[n div 32 := b' ! (n div 32) OR push_bit (n mod 32) 1]"
    unfolding bm_set_def b'_def Let_def ..
  have same: "m = n \<longleftrightarrow> m div 32 = n div 32 \<and> m mod 32 = n mod 32"
    by (metis div_mult_mod_eq)
  show ?thesis
    unfolding set_eq has [symmetric]
    using len by (auto simp: bm_has_bit nth_list_update bit_simps same)
qed

lemma bm_has_foldl_set: "bm_has (foldl (\<lambda>b i. bm_set i b) b is) n \<longleftrightarrow> n \<in> set is \<or> bm_has b n"
  by (induction "is" arbitrary: b) auto

lemma granted_attrs_iff:
  "bm_has (granted_attrs requested su) n \<longleftrightarrow> n \<le> attrMountedOnFileID \<and> bm_has requested n \<and> bm_has su n"
  by (auto simp: granted_attrs_def bm_has_foldl_set attr_range_def)

section \<open>The encoding of a fattr4\<close>

definition adds_words :: "encoder \<Rightarrow> encoder \<Rightarrow> bool" where
  "adds_words e e' \<longleftrightarrow> (\<exists>v. e' = e @ v \<and> 4 dvd length v)"

lemma adds_words_refl [simp]: "adds_words e e"
  by (simp add: adds_words_def)

lemma adds_words_trans: "adds_words a b \<Longrightarrow> adds_words b c \<Longrightarrow> adds_words a c"
  by (auto simp: adds_words_def)

lemma padded_words: "4 dvd n + unat (xdr_pad (word_of_nat n))"
proof -
  define w :: u32 where "w = word_of_nat n mod 4"
  have w: "unat w = n mod 4"
    by (simp add: w_def unat_mod unat_of_nat mod_mod_cancel)
  have "w \<le> 4"
    unfolding word_le_nat_alt w by simp
  then have "unat (4 - w) = 4 - n mod 4"
    using unat_sub [of w 4] w by simp
  then have "unat (xdr_pad (word_of_nat n)) = (4 - n mod 4) mod 4"
    unfolding xdr_pad_def w_def [symmetric] by (simp add: unat_mod)
  moreover have "4 dvd n + (4 - n mod 4) mod 4"
  proof (cases "n mod 4 = 0")
    case False
    have "n mod 4 < 4" by simp
    moreover from this False have "(4 - n mod 4) mod 4 = 4 - n mod 4"
      by (intro mod_less) linarith
    ultimately have "n + (4 - n mod 4) mod 4 = 4 * (n div 4) + 4"
      using mult_div_mod_eq [of 4 n] by linarith
    then show ?thesis by simp
  qed (simp add: dvd_eq_mod_eq_0)
  ultimately show ?thesis
    by simp
qed

lemma adds_words_enc [simp]:
  "adds_words e (e_uint32 v e)" "adds_words e (e_uint64 x e)" "adds_words e (e_bool y e)"
  "adds_words e (e_opaqueFixed b e)"
  by (simp_all add: adds_words_def e_uint32_def e_uint64_def e_bool_def e_opaqueFixed_def padded_words)

lemma adds_words_more [simp]: "adds_words e (e_opaque b e)" "adds_words e (e_string s e)"
proof -
  show "adds_words e (e_opaque b e)"
    unfolding e_opaque_def by (rule adds_words_trans [OF adds_words_enc(1) adds_words_enc(4)])
  have "4 dvd 4 + (length s + unat (xdr_pad (word_of_nat (length s))))"
    using padded_words by simp
  then show "adds_words e (e_string s e)"
    by (auto simp: adds_words_def e_string_def e_uint32_def add.assoc)
qed

lemma adds_words_words: "adds_words e (foldl (\<lambda>e w. e_uint32 w e) e ws)"
  by (induction ws arbitrary: e) (auto intro: adds_words_trans [OF adds_words_enc(1)])

lemma adds_words_bitmap [simp]: "adds_words e (encodeBitmap b e)"
  unfolding encodeBitmap_def by (rule adds_words_trans [OF adds_words_enc(1) adds_words_words])

lemma adds_words_pair [simp]:
  "adds_words e (e_uint64 x (e_uint64 y e))" "adds_words e (e_uint32 v (e_uint32 w e))"
  "adds_words e (e_uint32 v (e_uint64 x e))" "adds_words e (encodeTime fi e)"
  unfolding encodeTime_def
  by (rule adds_words_trans [OF adds_words_enc(2) adds_words_enc(2)] adds_words_trans [OF adds_words_enc(1) adds_words_enc(1)]
      adds_words_trans [OF adds_words_enc(2) adds_words_enc(1)])+

lemma encodeAttrValue_adds: "adds_words e (fst (encodeAttrValue cfg p fi i e c))"
  unfolding encodeAttrValue_def by (simp split: prod.split)

text \<open>What encoding attributes may change of the server: the table of long filehandles.\<close>

definition only_fhc :: "'b compound \<Rightarrow> 'b compound \<Rightarrow> bool" where
  "only_fhc c c' \<longleftrightarrow> (\<exists>x. c' = c\<lparr>fhc := x\<rparr>)"

lemma only_fhc_refl [simp]: "only_fhc c c"
  unfolding only_fhc_def by (rule exI [of _ "fhc c"]) simp

lemma only_fhc_trans: "only_fhc a b \<Longrightarrow> only_fhc b c \<Longrightarrow> only_fhc a c"
  by (auto simp: only_fhc_def)

lemma encodeAttrValue_only: "only_fhc c (snd (encodeAttrValue cfg p fi i e c))"
  unfolding encodeAttrValue_def by (simp split: prod.split) (auto simp: only_fhc_def)

lemma encode_values_adds:
  "adds_words e (fst (encode_values cfg p fi is e c)) \<and> only_fhc c (snd (encode_values cfg p fi is e c))"
proof (induction "is" arbitrary: e c)
  case Nil
  show ?case by (simp add: encode_values_def)
next
  case (Cons i "is")
  obtain e1 c1 where step: "encodeAttrValue cfg p fi i e c = (e1, c1)" by fastforce
  have "adds_words e e1" "only_fhc c c1"
    using encodeAttrValue_adds [of e cfg p fi i c] encodeAttrValue_only [of c cfg p fi i e] step by simp_all
  moreover have "encode_values cfg p fi (i # is) e c = encode_values cfg p fi is e1 c1"
    by (simp add: encode_values_def step)
  ultimately show ?case
    using Cons.IH [of e1 c1] by (auto intro: adds_words_trans only_fhc_trans)
qed

lemma encodeFattr_only: "only_fhc c (snd (encodeFattr cfg requested p fi e c))"
  unfolding encodeFattr_def Let_def by (simp add: encode_values_adds split: prod.split)
    (metis encode_values_adds snd_conv)

text \<open>
  C32. A fattr4 is the bitmap of the attributes that were both requested and supported, then the length of
  the values and the values themselves, a whole number of words, so that the opaque needs no padding. Of
  the server only the table of long filehandles may change.
\<close>

theorem encodeFattr_shape:
  "\<exists>vs. fst (encodeFattr cfg requested p fi e c)
       = encodeBitmap (granted_attrs requested (supported cfg)) e @ be_PutUint32 (word_of_nat (length vs)) @ vs
     \<and> 4 dvd length vs
     \<and> (\<forall>n. bm_has (granted_attrs requested (supported cfg)) n
              \<longleftrightarrow> n \<le> 55 \<and> bm_has requested n \<and> bm_has (supported cfg) n)
     \<and> only_fhc c (snd (encodeFattr cfg requested p fi e c))"
proof -
  define g where "g = granted_attrs requested (supported cfg)"
  define e1 where "e1 = encodeBitmap g e"
  define r where "r = encode_values cfg p fi (filter (bm_has g) attr_range) (e_uint32 0 e1) c"
  obtain vs where vs: "fst r = e_uint32 0 e1 @ vs" "4 dvd length vs"
    using encode_values_adds unfolding r_def adds_words_def by blast
  have "fst (encodeFattr cfg requested p fi e c)
      = e_patchUint32 (length e1) (word_of_nat (length (fst r) - length (e_uint32 0 e1))) (fst r)"
    unfolding encodeFattr_def Let_def g_def [symmetric] e1_def [symmetric] r_def [symmetric] by (simp add: case_prod_beta)
  also have "\<dots> = e1 @ be_PutUint32 (word_of_nat (length vs)) @ vs"
    by (simp add: vs(1) e_patchUint32_def e_uint32_def)
  finally show ?thesis
    using vs(2) granted_attrs_iff encodeFattr_only unfolding e1_def g_def by blast
qed

end
