(* ===== verification/Nfs_Fh_Ops.thy ===== *)
theory Nfs_Fh_Ops
  imports Nfs_Attr
begin

text \<open>
  The filehandle and lookup operations of \<^verbatim>\<open>nfs4/ops_fh.go\<close>: PUTFH and its relatives, LOOKUP, GETATTR, ACCESS,
  READLINK, SECINFO, VERIFY and NVERIFY.
\<close>

unbundle bit_operations_syntax

section \<open>Filehandles\<close>

definition op_putRootFH :: "decoder \<Rightarrow> encoder \<Rightarrow> 'b compound \<Rightarrow> 'b result \<times> decoder" where
  "op_putRootFH d e c = (status e nfs4OK (c\<lparr>fh := ''/'', hasFH := True\<rparr>), d)"

definition op_putFH :: "'b config \<Rightarrow> decoder \<Rightarrow> encoder \<Rightarrow> 'b compound \<Rightarrow> 'b result \<times> decoder" where
  "op_putFH cfg d e c =
     (let (h, d) = d_opaque maxFHBytes d
      in (if derr d \<noteq> None then status e nfs4ErrBadXDR c
          else let ((p, s), x) = fh_unseal (handleHmac cfg) (sha256 cfg) (resolveLong cfg) h (fhc c); c = c\<lparr>fhc := x\<rparr>
               in if s \<noteq> nfs4OK then status e s c
                  else if p \<noteq> ''/'' \<and> \<not> list_all names_Validate (split_slash (tl p)) then status e nfs4ErrBadHandle c
                  else status e nfs4OK (c\<lparr>fh := p, hasFH := True\<rparr>), d))"

definition op_getFH :: "'b config \<Rightarrow> decoder \<Rightarrow> encoder \<Rightarrow> 'b compound \<Rightarrow> 'b result \<times> decoder" where
  "op_getFH cfg d e c =
     (if \<not> hasFH c then status e nfs4ErrNoFilehandle c
      else let (h, x) = fh_seal (handleHmac cfg) (sha256 cfg) (fh c) (fhc c)
           in (nfs4OK, e_opaque h (e_uint32 nfs4OK e), c\<lparr>fhc := x\<rparr>), d)"

definition op_saveFH :: "decoder \<Rightarrow> encoder \<Rightarrow> 'b compound \<Rightarrow> 'b result \<times> decoder" where
  "op_saveFH d e c =
     (if \<not> hasFH c then status e nfs4ErrNoFilehandle c
      else status e nfs4OK (c\<lparr>saved := fh c, hasSaved := True\<rparr>), d)"

definition op_restoreFH :: "decoder \<Rightarrow> encoder \<Rightarrow> 'b compound \<Rightarrow> 'b result \<times> decoder" where
  "op_restoreFH d e c =
     (if \<not> hasSaved c then status e nfs4ErrRestoreFH c
      else status e nfs4OK (c\<lparr>fh := saved c, hasFH := True\<rparr>), d)"

definition op_lookup :: "'b config \<Rightarrow> decoder \<Rightarrow> encoder \<Rightarrow> 'b compound \<Rightarrow> 'b result \<times> decoder" where
  "op_lookup cfg d e c =
     (let ((name, s), d) = decodeName d
      in (if s \<noteq> nfs4OK then status e s c
          else if dirFH cfg c \<noteq> nfs4OK then status e (dirFH cfg c) c
          else let child = path_Join (fh c) name
               in case lstatOrStat cfg child c of
                    Inl err \<Rightarrow> status e (nameErr err) c
                  | Inr _ \<Rightarrow> status e nfs4OK (c\<lparr>fh := child\<rparr>), d))"

definition op_lookupP :: "'b config \<Rightarrow> decoder \<Rightarrow> encoder \<Rightarrow> 'b compound \<Rightarrow> 'b result \<times> decoder" where
  "op_lookupP cfg d e c =
     (if dirFH cfg c \<noteq> nfs4OK then status e (dirFH cfg c) c
      else if fh c = ''/'' then status e nfs4ErrNoEnt c
      else status e nfs4OK (c\<lparr>fh := path_Dir (fh c)\<rparr>), d)"

section \<open>Attributes and access\<close>

definition op_getAttr :: "'b config \<Rightarrow> decoder \<Rightarrow> encoder \<Rightarrow> 'b compound \<Rightarrow> 'b result \<times> decoder" where
  "op_getAttr cfg d e c =
     (let (requested, d) = decodeBitmap d
      in (if derr d \<noteq> None then status e nfs4ErrBadXDR c
          else if \<not> hasFH c then status e nfs4ErrNoFilehandle c
          else case lstatOrStat cfg (fh c) c of
                 Inl err \<Rightarrow> status e (fhErr err) c
               | Inr fi \<Rightarrow> (nfs4OK, encodeFattr cfg requested (fh c) fi (e_uint32 nfs4OK e) c), d))"

abbreviation (input) accessRead :: u32 where "accessRead \<equiv> 1"
abbreviation (input) accessLookup :: u32 where "accessLookup \<equiv> 2"
abbreviation (input) accessModify :: u32 where "accessModify \<equiv> 4"
abbreviation (input) accessExtend :: u32 where "accessExtend \<equiv> 8"
abbreviation (input) accessDelete :: u32 where "accessDelete \<equiv> 16"
abbreviation (input) accessExecute :: u32 where "accessExecute \<equiv> 32"

text \<open>The rights the server can check on an object, and those its permission bits give.\<close>

definition access_rights :: "finfo \<Rightarrow> u32 \<times> u32" where
  "access_rights fi =
     (let mode = fi_mode fi; give = (\<lambda>bits rights. if mode AND bits \<noteq> 0 then rights else 0)
      in if fi_isDir fi
         then (accessRead OR accessLookup OR accessModify OR accessExtend OR accessDelete,
               give 0x124 accessRead OR give 0x49 accessLookup OR give 0x92 (accessModify OR accessExtend OR accessDelete))
         else (accessRead OR accessModify OR accessExtend OR accessExecute,
               give 0x124 accessRead OR give 0x92 (accessModify OR accessExtend) OR give 0x49 accessExecute))"

definition op_access :: "'b config \<Rightarrow> decoder \<Rightarrow> encoder \<Rightarrow> 'b compound \<Rightarrow> 'b result \<times> decoder" where
  "op_access cfg d e c =
     (let (requested, d) = d_uint32 d
      in (if derr d \<noteq> None then status e nfs4ErrBadXDR c
          else if \<not> hasFH c then status e nfs4ErrNoFilehandle c
          else case lstatOrStat cfg (fh c) c of
                 Inl err \<Rightarrow> status e (fhErr err) c
               | Inr fi \<Rightarrow>
                   let (sup', granted) = access_rights fi
                   in (nfs4OK, e_uint32 (granted AND requested) (e_uint32 (sup' AND requested) (e_uint32 nfs4OK e)), c), d))"

definition op_readLink :: "'b config \<Rightarrow> decoder \<Rightarrow> encoder \<Rightarrow> 'b compound \<Rightarrow> 'b result \<times> decoder" where
  "op_readLink cfg d e c =
     (case fs_symlinks (fsys cfg) of
        None \<Rightarrow> status e nfs4ErrNotSupp c
      | Some sl \<Rightarrow>
          if \<not> hasFH c then status e nfs4ErrNoFilehandle c
          else (case sl_readlink sl (fh c) (backend c) of
                  Inl err \<Rightarrow> status e (fhErr err) c
                | Inr target \<Rightarrow>
                    if length target > 4096 then status e nfs4ErrServerFault c
                    else (nfs4OK, e_string target (e_uint32 nfs4OK e), c)), d)"

definition op_secInfo :: "'b config \<Rightarrow> decoder \<Rightarrow> encoder \<Rightarrow> 'b compound \<Rightarrow> 'b result \<times> decoder" where
  "op_secInfo cfg d e c =
     (let ((name, s), d) = decodeName d
      in (if s \<noteq> nfs4OK then status e s c
          else if dirFH cfg c \<noteq> nfs4OK then status e (dirFH cfg c) c
          else case lstatOrStat cfg (path_Join (fh c) name) c of
                 Inl err \<Rightarrow> status e (nameErr err) c
               | Inr _ \<Rightarrow> (nfs4OK, e_uint32 authNone (e_uint32 authSys (e_uint32 2 (e_uint32 nfs4OK e))), c), d))"

definition verifyCompare :: "'b config \<Rightarrow> bool \<Rightarrow> decoder \<Rightarrow> encoder \<Rightarrow> 'b compound \<Rightarrow> 'b result \<times> decoder" where
  "verifyCompare cfg wantSame d e c =
     (let (requested, d) = decodeBitmap d;
          (vs, d) = d_opaque (word_of_nat (requestCap cfg)) d
      in (if derr d \<noteq> None then status e nfs4ErrBadXDR c
          else if \<not> hasFH c then status e nfs4ErrNoFilehandle c
          else if bm_has requested attrTimeAccessSet \<or> bm_has requested attrTimeModifySet then status e nfs4ErrInval c
          else if list_ex (\<lambda>i. bm_has requested i \<and> \<not> bm_has (supported cfg) i) [0..<Suc (maxBitmapWords * 32)]
            then status e nfs4ErrAttrNotSupp c
          else case lstatOrStat cfg (fh c) c of
                 Inl err \<Rightarrow> status e (fhErr err) c
               | Inr fi \<Rightarrow>
                   let (ours, c) = encode_values cfg (fh c) fi (filter (bm_has requested) attr_range) [] c;
                       same = (vs = ours)
                   in if wantSame \<and> \<not> same then status e nfs4ErrNotSame c
                      else if \<not> wantSame \<and> same then status e nfs4ErrSame c
                      else status e nfs4OK c, d))"

definition op_verify :: "'b config \<Rightarrow> decoder \<Rightarrow> encoder \<Rightarrow> 'b compound \<Rightarrow> 'b result \<times> decoder" where
  "op_verify cfg = verifyCompare cfg True"

definition op_nVerify :: "'b config \<Rightarrow> decoder \<Rightarrow> encoder \<Rightarrow> 'b compound \<Rightarrow> 'b result \<times> decoder" where
  "op_nVerify cfg = verifyCompare cfg False"

end
