(* ===== verification/Nfs_Open_Ops.thy ===== *)
theory Nfs_Open_Ops
  imports Nfs_Server
begin

text \<open>
  The operations of \<^verbatim>\<open>nfs4/ops_state.go\<close> (OPEN, OPEN_CONFIRM, OPEN_DOWNGRADE, CLOSE, DELEGRETURN, SETCLIENTID,
  SETCLIENTID_CONFIRM, RENEW), and the attribute decoding and application of \<^verbatim>\<open>nfs4/ops_mutation.go\<close> that
  OPEN uses. OPEN is split where the code drops the store mutex: a check of the share reservations, the
  file system calls, and the commit.
\<close>

unbundle bit_operations_syntax

section \<open>Setting attributes\<close>

record setAttrValues =
  sa_size :: "int option"
  sa_mode :: "u32 option"
  sa_atime :: "(bool \<times> int) option"
  sa_mtime :: "(bool \<times> int) option"
  sa_applied :: bitmap


text \<open>A time to set: whether it is the server's clock, and the client's value in nanoseconds.\<close>

definition decodeSetTime :: "decoder \<Rightarrow> ((bool \<times> int) \<times> nfsStat) \<times> decoder" where
  "decodeSetTime d =
     (let (how, d) = d_uint32 d
      in if how = 0 then (((True, 0), nfs4OK), d)
         else if how = 1
           then let (sec, d) = d_uint64 d; (nsec, d) = d_uint32 d
                in if nsec \<ge> 1000000000 then (((False, 0), nfs4ErrInval), d)
                   else (((False, sint sec * 1000000000 + uint nsec), nfs4OK), d)
         else (((False, 0), nfs4ErrInval), d))"

fun set_attrs_loop :: "bitmap \<Rightarrow> bitmap \<Rightarrow> nat list \<Rightarrow> setAttrValues \<Rightarrow> decoder \<Rightarrow> (setAttrValues \<times> nfsStat) \<times> decoder" where
  "set_attrs_loop su mk [] a d = ((a, nfs4OK), d)"
| "set_attrs_loop su mk (i # is) a d =
     (if \<not> bm_has mk i then set_attrs_loop su mk is a d
      else if i = attrSize
        then let (n, d) = d_uint64 d
             in if n > 0x7fffffffffffffff then ((a, nfs4ErrFBig), d)
                else set_attrs_loop su mk is (a\<lparr>sa_size := Some (uint n)\<rparr>) d
      else if i = attrMode
        then let (v, d) = d_uint32 d in set_attrs_loop su mk is (a\<lparr>sa_mode := Some (v AND 0xfff)\<rparr>) d
      else if i = attrTimeAccessSet
        then let ((v, s), d) = decodeSetTime d
             in if s \<noteq> nfs4OK then ((a, s), d) else set_attrs_loop su mk is (a\<lparr>sa_atime := Some v\<rparr>) d
      else if i = attrTimeModifySet
        then let ((v, s), d) = decodeSetTime d
             in if s \<noteq> nfs4OK then ((a, s), d) else set_attrs_loop su mk is (a\<lparr>sa_mtime := Some v\<rparr>) d
      else ((a, if bm_has su i then nfs4ErrInval else nfs4ErrAttrNotSupp), d))"

definition decodeSetAttrs :: "bitmap \<Rightarrow> bitmap \<Rightarrow> bytes \<Rightarrow> setAttrValues \<times> nfsStat" where
  "decodeSetAttrs su mk vs =
     (let ((a, s), d) = set_attrs_loop su mk [0..<maxBitmapWords * 32]
            \<lparr>sa_size = None, sa_mode = None, sa_atime = None, sa_mtime = None, sa_applied = []\<rparr> (newDecoder vs)
      in if s \<noteq> nfs4OK then (a, s)
         else if derr d \<noteq> None \<or> d_remaining d \<noteq> 0 then (a, nfs4ErrBadXDR)
         else (a, nfs4OK))"

definition mutationErr :: "fserr \<Rightarrow> bool \<Rightarrow> nfsStat" where
  "mutationErr err named = (if named then nameErr err else fhErr err)"

definition apply_times :: "'b config \<Rightarrow> 'b setstat \<Rightarrow> time \<Rightarrow> string \<Rightarrow> bool \<Rightarrow> setAttrValues \<Rightarrow> 'b compound
    \<Rightarrow> nfsStat \<times> setAttrValues \<times> 'b compound" where
  "apply_times cfg ss now p named a c =
     (if sa_atime a = None \<and> sa_mtime a = None then (nfs4OK, a, c)
      else case lstatOrStat cfg p c of
             Inl err \<Rightarrow> (mutationErr err named, a, c)
           | Inr fi \<Rightarrow>
               let pick = (\<lambda>v. case v of None \<Rightarrow> fi_mtime fi | Some (server, t) \<Rightarrow> if server then now else t);
                   (r, b) = ss_chtimes ss p (pick (sa_atime a)) (pick (sa_mtime a)) (backend c);
                   c = c\<lparr>backend := b\<rparr>
               in (case r of
                     Some err \<Rightarrow> (mutationErr err named, a, c)
                   | None \<Rightarrow>
                       let a = (if sa_atime a \<noteq> None then a\<lparr>sa_applied := bm_set attrTimeAccessSet (sa_applied a)\<rparr> else a);
                           a = (if sa_mtime a \<noteq> None then a\<lparr>sa_applied := bm_set attrTimeModifySet (sa_applied a)\<rparr> else a)
                       in (nfs4OK, a, c)))"

definition apply_mode :: "'b config \<Rightarrow> 'b setstat \<Rightarrow> time \<Rightarrow> string \<Rightarrow> bool \<Rightarrow> setAttrValues \<Rightarrow> 'b compound
    \<Rightarrow> nfsStat \<times> setAttrValues \<times> 'b compound" where
  "apply_mode cfg ss now p named a c =
     (case sa_mode a of
        None \<Rightarrow> apply_times cfg ss now p named a c
      | Some m \<Rightarrow>
          let (r, b) = ss_chmod ss p m (backend c); c = c\<lparr>backend := b\<rparr>
          in (case r of
                Some err \<Rightarrow> (mutationErr err named, a, c)
              | None \<Rightarrow> apply_times cfg ss now p named (a\<lparr>sa_applied := bm_set attrMode (sa_applied a)\<rparr>) c))"

definition applySetAttrs :: "'b config \<Rightarrow> time \<Rightarrow> string \<Rightarrow> bool \<Rightarrow> setAttrValues \<Rightarrow> 'b compound
    \<Rightarrow> nfsStat \<times> setAttrValues \<times> 'b compound" where
  "applySetAttrs cfg now p named a c =
     (if sa_size a = None \<and> sa_mode a = None \<and> sa_atime a = None \<and> sa_mtime a = None then (nfs4OK, a, c)
      else case fs_setstat (fsys cfg) of
             None \<Rightarrow> (nfs4ErrNotSupp, a, c)
           | Some ss \<Rightarrow>
               (case sa_size a of
                  None \<Rightarrow> apply_mode cfg ss now p named a c
                | Some n \<Rightarrow>
                    let (r, b) = ss_truncate ss p n (backend c); c = c\<lparr>backend := b\<rparr>
                    in (case r of
                          Some err \<Rightarrow> (mutationErr err named, a, c)
                        | None \<Rightarrow> apply_mode cfg ss now p named (a\<lparr>sa_applied := bm_set attrSize (sa_applied a)\<rparr>) c)))"

section \<open>OPEN\<close>

definition openFlags :: "u32 \<Rightarrow> nat" where
  "openFlags access =
     (if access AND shareBoth = shareRead then O_RDONLY
      else if access AND shareBoth = shareWrite then O_WRONLY
      else O_RDWR)"

text \<open>The arguments of an OPEN after decoding.\<close>

record openArgs =
  oa_access :: u32
  oa_deny :: u32
  oa_openType :: u32
  oa_createMode :: u32
  oa_attrMask :: bitmap
  oa_attrVals :: bytes
  oa_createVerf :: bytes
  oa_claim :: u32
  oa_name :: string

text \<open>The first critical section: the open this owner already has, the union with it, and the share check.\<close>

definition open_check :: "string \<Rightarrow> addr \<Rightarrow> u32 \<Rightarrow> u32 \<Rightarrow> stateStore \<Rightarrow> (addr option \<times> u32 \<times> u32) option" where
  "open_check target w access deny st =
     (let held = findOpenLocked target w st;
          (ua, ud) = (case held of None \<Rightarrow> (access, deny)
            | Some h \<Rightarrow> (access OR o_access (hopen st h), deny OR o_deny (hopen st h)))
      in if shareConflictLocked target w ua ud st then None else Some (held, ua, ud))"

text \<open>
  The second critical section: check the reservation again, then add an open or update the one the
  owner has. The third result is the file that was replaced.
\<close>

definition open_commit :: "string \<Rightarrow> addr \<Rightarrow> u32 \<Rightarrow> u32 \<Rightarrow> nat option \<Rightarrow> nat \<Rightarrow> stateStore
    \<Rightarrow> (nfsStat \<times> addr \<times> nat option) \<times> stateStore" where
  "open_commit target w ua ud replacement flags st =
     (if shareConflictLocked target w ua ud st then ((nfs4ErrShareDenied, 0, None), st)
      else let cl = w_client (howner st w)
           in case findOpenLocked target w st of
                None \<Rightarrow>
                  if c_opens (hclient st cl) \<ge> int maxOpensPerClient then ((nfs4ErrResource, 0, None), st)
                  else let (k, st) = newOther st;
                           a = nextAddr st;
                           x = \<lparr>o_other = k, o_seq = 1, o_client = cl, o_owner = w, o_path = target,
                             o_access = ua, o_deny = ud, o_file = replacement, o_flag = flags\<rparr>;
                           st = st\<lparr>hopen := (hopen st)(a := x), nextAddr := Suc a\<rparr>;
                           st = st\<lparr>opens := AList.update k a (opens st)\<rparr>;
                           st = st\<lparr>stateOwners := AList.update k w (stateOwners st)\<rparr>;
                           st = st\<lparr>byPath := idx_append target a (byPath st)\<rparr>;
                           st = upd_client cl (\<lambda>x. x\<lparr>c_opens := c_opens x + 1\<rparr>) st
                       in ((nfs4OK, a, None), st)
              | Some h \<Rightarrow>
                  let old = o_file (hopen st h);
                      st = upd_open h (\<lambda>x. x\<lparr>o_seq := o_seq x + 1, o_access := ua, o_deny := ud\<rparr>) st
                  in (case replacement of
                        None \<Rightarrow> ((nfs4OK, h, None), st)
                      | Some f \<Rightarrow> ((nfs4OK, h, old), upd_open h (\<lambda>x. x\<lparr>o_file := Some f, o_flag := flags\<rparr>) st)))"

definition encode_open_reply :: "'b config \<Rightarrow> string \<Rightarrow> addr \<Rightarrow> bool \<Rightarrow> u64 \<Rightarrow> bitmap \<Rightarrow> addr option \<Rightarrow> encoder \<Rightarrow> 'b compound \<Rightarrow> encoder" where
  "encode_open_reply cfg target h confirm before' applied granted e c =
     (let st = store c;
          e = e_uint32 nfs4OK e;
          e = encodeStateid (o_seq (hopen st h)) (o_other (hopen st h)) e;
          e = encodeChangeInfo before' (changeOfDir cfg (path_Dir target) c) e;
          e = (if confirm then e_uint32 openResultConfirm e else e_uint32 0 e);
          e = encodeBitmap applied e
      in case granted of
           None \<Rightarrow> e_uint32 openDelegateNone e
         | Some g \<Rightarrow>
             let e = e_uint32 openDelegateRead e;
                 e = encodeStateid (dg_seq (hdeleg st g)) (dg_other (hdeleg st g)) e;
                 e = e_bool False e;
                 e = e_uint32 aceAllow e;
                 e = e_uint32 0 e;
                 e = e_uint32 (aceReadData OR aceReadAttributes) e
             in e_string ''EVERYONE@'' e)"

text \<open>From the second critical section to the end of \<^verbatim>\<open>openWith\<close>.\<close>

definition open_finish :: "'b config \<Rightarrow> time \<Rightarrow> string \<Rightarrow> addr \<Rightarrow> u32 \<Rightarrow> u32 \<Rightarrow> nat option \<Rightarrow> nat \<Rightarrow> u64 \<Rightarrow> bitmap
    \<Rightarrow> encoder \<Rightarrow> 'b compound \<Rightarrow> 'b result" where
  "open_finish cfg now target w ua ud replacement flags before' applied e c =
     (let ((s, h, old), c) = on_store (open_commit target w ua ud replacement flags) c
      in if s \<noteq> nfs4OK then status e s (closeOpt cfg replacement c)
         else let confirm = \<not> w_confirmed (howner (store c) w);
                  (granted, c) = (if readDelegations cfg then on_store (grantDelegationLocked target w ua) c else (None, c));
                  c = upd_store (renewed now (w_client (howner (store c) w))) c;
                  c = closeOpt cfg old c;
                  c = c\<lparr>fh := target\<rparr>;
                  c = upd_store (upd_owner w (\<lambda>x. x\<lparr>w_lastFH := target\<rparr>)) c
              in (nfs4OK, encode_open_reply cfg target h confirm before' applied granted e c, c))"

text \<open>The file system calls between the critical sections: open, then apply the create attributes.\<close>

definition open_attrs :: "'b config \<Rightarrow> time \<Rightarrow> openArgs \<Rightarrow> string \<Rightarrow> bool \<Rightarrow> nat option \<Rightarrow> setAttrValues \<Rightarrow> 'b compound
    \<Rightarrow> nfsStat \<times> setAttrValues \<times> 'b compound" where
  "open_attrs cfg now args target exists replacement attrs c =
     (if oa_openType args \<noteq> openCreate then (nfs4OK, attrs, c)
      else let skip = (\<not> exists \<and> sa_mode attrs \<noteq> None);
               a = (if skip then attrs\<lparr>sa_mode := None, sa_applied := bm_set attrMode (sa_applied attrs)\<rparr> else attrs);
               (s, a, c) = applySetAttrs cfg now target True a c
           in if s \<noteq> nfs4OK
              then let c = closeOpt cfg replacement c;
                       c = (if \<not> exists \<and> (oa_createMode args = createGuarded \<or> oa_createMode args = createExclusive)
                            then c\<lparr>backend := snd (fs_removeAll (fsys cfg) target (backend c)),
                                   exclusive := x_forget target (exclusive c)\<rparr>
                            else c)
                   in (s, a, c)
              else (nfs4OK, a, if oa_createMode args = createExclusive
                      then c\<lparr>exclusive := x_record target (oa_createVerf args) now (exclusive c)\<rparr> else c))"

definition open_file :: "'b config \<Rightarrow> openArgs \<Rightarrow> string \<Rightarrow> bool \<Rightarrow> bool \<Rightarrow> nat \<Rightarrow> setAttrValues \<Rightarrow> 'b compound
    \<Rightarrow> (fserr + nat) \<times> 'b compound" where
  "open_file cfg args target exists truncating flags attrs c =
     (let fl = (if oa_openType args = openCreate
                then flags OR O_CREATE OR (if oa_createMode args = createGuarded
                    \<or> oa_createMode args = createExclusive \<and> \<not> exists then O_EXCL else 0)
                else flags);
          fl = (if truncating then fl OR O_TRUNC else fl);
          perm = (case sa_mode attrs of None \<Rightarrow> 438 | Some m \<Rightarrow> m);
          (r, b) = fs_open (fsys cfg) target fl perm (backend c)
      in (r, c\<lparr>backend := b\<rparr>))"

text \<open>\<^verbatim>\<open>openWith\<close> from the share check on: the target is named and may be opened.\<close>

definition open_target :: "'b config \<Rightarrow> time \<Rightarrow> openArgs \<Rightarrow> addr \<Rightarrow> string \<Rightarrow> bool \<Rightarrow> u64 \<Rightarrow> setAttrValues
    \<Rightarrow> encoder \<Rightarrow> 'b compound \<Rightarrow> 'b result" where
  "open_target cfg now args w target exists before' attrs e c =
     (case open_check target w (oa_access args) (oa_deny args) (store c) of
        None \<Rightarrow> status e nfs4ErrShareDenied c
      | Some (held, ua, ud) \<Rightarrow>
          let truncating = (oa_openType args = openCreate \<and> sa_size attrs = Some 0);
              attrs = (if truncating then attrs\<lparr>sa_size := None, sa_applied := bm_set attrSize (sa_applied attrs)\<rparr> else attrs);
              (s, c) = (if oa_access args AND shareWrite \<noteq> 0 \<or> oa_deny args AND denyRead \<noteq> 0 \<or> truncating
                        then c_recall target (Some (w_client (howner (store c) w))) now c else (nfs4OK, c))
          in if s \<noteq> nfs4OK then status e s c
             else let flags = openFlags ua;
                      needOpen = (case held of None \<Rightarrow> True | Some h \<Rightarrow> o_flag (hopen (store c) h) \<noteq> flags \<or> truncating);
                      (r, c) = (if needOpen then open_file cfg args target exists truncating flags attrs c else (Inr 0, c))
                  in (case r of
                        Inl err \<Rightarrow> status e (nameErr err) c
                      | Inr f \<Rightarrow>
                          let replacement = (if needOpen then Some f else None);
                              (s, a, c) = open_attrs cfg now args target exists replacement attrs c
                          in if s \<noteq> nfs4OK then status e s c
                             else open_finish cfg now target w ua ud replacement flags before' (sa_applied a) e c))"

definition openWith :: "'b config \<Rightarrow> time \<Rightarrow> addr \<Rightarrow> openArgs \<Rightarrow> encoder \<Rightarrow> 'b compound \<Rightarrow> 'b result" where
  "openWith cfg now w args e c =
     (if oa_access args = 0 \<or> oa_access args AND NOT shareBoth \<noteq> 0 \<or> oa_deny args AND NOT denyBoth \<noteq> 0
        then status e nfs4ErrInval c
      else if oa_openType args \<noteq> openNoCreate \<and> oa_openType args \<noteq> openCreate then status e nfs4ErrInval c
      else if oa_claim args = claimPrevious then status e nfs4ErrNoGrace c
      else if oa_claim args \<noteq> claimNull then status e nfs4ErrNotSupp c
      else if dirFH cfg c \<noteq> nfs4OK then status e (dirFH cfg c) c
      else let (attrs, s) = decodeSetAttrs (supported cfg) (oa_attrMask args) (oa_attrVals args)
           in if s \<noteq> nfs4OK then status e s c
              else if oa_openType args = openNoCreate \<and> (length (oa_attrMask args) \<noteq> 0 \<or> length (oa_attrVals args) \<noteq> 0)
                then status e nfs4ErrBadXDR c
              else let target = path_Join (fh c) (oa_name args);
                       before' = changeOfDir cfg (fh c) c;
                       found = lstatOrStat cfg target c;
                       exists = (case found of Inl _ \<Rightarrow> False | Inr _ \<Rightarrow> True)
                   in if (case found of Inl err \<Rightarrow> nameErr err \<noteq> nfs4ErrNoEnt | Inr _ \<Rightarrow> False)
                        then status e (case found of Inl err \<Rightarrow> nameErr err | Inr _ \<Rightarrow> nfs4OK) c
                      else if oa_openType args = openNoCreate \<and> \<not> exists then status e nfs4ErrNoEnt c
                      else if oa_openType args = openCreate \<and> oa_createMode args = createGuarded \<and> exists
                        then status e nfs4ErrExist c
                      else let asks = (oa_openType args = openCreate \<and> oa_createMode args = createExclusive \<and> exists);
                               (m, x) = (if asks then x_matches target (oa_createVerf args) now (exclusive c) else (True, exclusive c));
                               c = c\<lparr>exclusive := x\<rparr>
                           in if asks \<and> \<not> m then status e nfs4ErrExist c
                              else case found of
                                     Inr fi \<Rightarrow>
                                       if fi_isDir fi then status e nfs4ErrIsDir c
                                       else if fi_isSymlink fi then status e nfs4ErrSymlink c
                                       else open_target cfg now args w target True before' attrs e c
                                   | Inl _ \<Rightarrow> open_target cfg now args w target False before' attrs e c)"

definition op_open :: "'b config \<Rightarrow> time \<Rightarrow> decoder \<Rightarrow> encoder \<Rightarrow> 'b compound \<Rightarrow> 'b result \<times> decoder" where
  "op_open cfg now d e c =
     (let (seqid, d) = d_uint32 d;
          (access, d) = d_uint32 d;
          (deny, d) = d_uint32 d;
          (clientID, d) = d_uint64 d;
          (ownerID, d) = d_opaque maxOpenOwnerID d;
          (openType, d) = d_uint32 d;
          (mode, d) = (if openType = openCreate then d_uint32 d else (0, d));
          plain = (openType = openCreate \<and> (mode = createUnchecked \<or> mode = createGuarded));
          (attr, d) = (if plain then decodeBitmap d else ([], d));
          (vs, d) = (if plain then d_opaque (word_of_nat (requestCap cfg)) d else ([], d));
          (verf, d) = (if openType = openCreate \<and> mode = createExclusive then d_opaqueFixed 8 d else ([], d));
          argStatus = (if openType = openCreate \<and> \<not> plain \<and> mode \<noteq> createExclusive then nfs4ErrInval else nfs4OK);
          (claim, d) = d_uint32 d;
          ((name, argStatus), d) =
            (if claim = claimNull then decodeName d
             else if claim = claimPrevious then let (_, d) = d_uint32 d in (([], argStatus), d)
             else if claim = claimDelegCur then let (_, d) = decodeStateid d in decodeName d
             else if claim = claimDelegPrev then decodeName d
             else (([], nfs4ErrInval), d))
      in (if derr d \<noteq> None then status e nfs4ErrBadXDR c
          else let ((w, s), c) = on_store (ownerOf clientID (map byte_char ownerID) now) c
               in if s \<noteq> nfs4OK then status e s c
                  else withSeqid (the w) opOpen seqid e
                         (\<lambda>c. c\<lparr>fh := w_lastFH (howner (store c) (the w)), hasFH := True\<rparr>)
                         (\<lambda>result c. if argStatus \<noteq> nfs4OK then status result argStatus c
                            else openWith cfg now (the w)
                              \<lparr>oa_access = access, oa_deny = deny, oa_openType = openType, oa_createMode = mode,
                               oa_attrMask = attr, oa_attrVals = vs, oa_createVerf = copy_array 8 verf,
                               oa_claim = claim, oa_name = name\<rparr> result c) c, d))"

section \<open>OPEN_CONFIRM, OPEN_DOWNGRADE, CLOSE\<close>

definition open_confirm :: "time \<Rightarrow> u32 \<Rightarrow> other \<Rightarrow> addr \<Rightarrow> encoder \<Rightarrow> 'b compound \<Rightarrow> 'b result" where
  "open_confirm now sq k w result c =
     (if \<not> hasFH c then status result nfs4ErrNoFilehandle c
      else case map_of (opens (store c)) k of
             None \<Rightarrow> status result nfs4ErrBadStateID c
           | Some h \<Rightarrow>
               let x = hopen (store c) h
               in if o_owner x \<noteq> w then status result nfs4ErrBadStateID c
                  else if sq < o_seq x then status result nfs4ErrOldStateID c
                  else if sq > o_seq x \<or> o_path x \<noteq> fh c then status result nfs4ErrBadStateID c
                  else let c = upd_store (upd_owner w (\<lambda>x. x\<lparr>w_confirmed := True\<rparr>)) c;
                           c = upd_store (renewed now (o_client x)) c
                       in (nfs4OK, encodeStateid (o_seq x) (o_other x) (e_uint32 nfs4OK result), c))"

definition op_openConfirm :: "time \<Rightarrow> decoder \<Rightarrow> encoder \<Rightarrow> 'b compound \<Rightarrow> 'b result \<times> decoder" where
  "op_openConfirm now d e c =
     (let ((sq, k), d) = decodeStateid d;
          (seqid, d) = d_uint32 d
      in (if derr d \<noteq> None then status e nfs4ErrBadXDR c
          else let ((w, s), c) = on_store (ownerForStateid k now) c
               in if s \<noteq> nfs4OK then status e s c
                  else withSeqid (the w) opOpenConfirm seqid e (\<lambda>c. c) (open_confirm now sq k (the w)) c, d))"

definition downgrade_commit :: "time \<Rightarrow> addr \<Rightarrow> u32 \<Rightarrow> u32 \<Rightarrow> nat option \<Rightarrow> nat \<Rightarrow> stateStore \<Rightarrow> stateStore" where
  "downgrade_commit now h access deny replacement flags st =
     (let st = upd_open h (\<lambda>x. x\<lparr>o_seq := o_seq x + 1, o_access := access, o_deny := deny\<rparr>) st;
          st = (case replacement of None \<Rightarrow> st
            | Some f \<Rightarrow> upd_open h (\<lambda>x. x\<lparr>o_file := Some f, o_flag := flags\<rparr>) st)
      in renewed now (o_client (hopen st h)) st)"

definition open_downgrade :: "'b config \<Rightarrow> time \<Rightarrow> u32 \<Rightarrow> other \<Rightarrow> u32 \<Rightarrow> u32 \<Rightarrow> encoder \<Rightarrow> 'b compound \<Rightarrow> 'b result" where
  "open_downgrade cfg now sq k access deny result c =
     (if \<not> hasFH c then status result nfs4ErrNoFilehandle c
      else if access = 0 \<or> access AND NOT shareBoth \<noteq> 0 \<or> deny AND NOT denyBoth \<noteq> 0
        then status result nfs4ErrInval c
      else let ((held, s), c) = on_store (resolveStateid sq k (fh c) now) c
           in if s \<noteq> nfs4OK then status result s c
              else let h = the held; x = hopen (store c) h
                   in if access AND o_access x \<noteq> access \<or> deny AND o_deny x \<noteq> deny then status result nfs4ErrInval c
                      else if locksBlockDowngradeLocked h access (store c) then status result nfs4ErrLocksHeld c
                      else let flags = openFlags access;
                               needOpen = (flags \<noteq> o_flag x);
                               (r, b) = (if needOpen then fs_open (fsys cfg) (o_path x) flags 0 (backend c) else (Inr 0, backend c));
                               c = c\<lparr>backend := b\<rparr>
                           in (case r of
                                 Inl err \<Rightarrow> status result (fhErr err) c
                               | Inr f \<Rightarrow>
                                   let replacement = (if needOpen then Some f else None)
                                   in if map_of (opens (store c)) k \<noteq> Some h \<or> o_seq (hopen (store c) h) \<noteq> sq
                                        then status result nfs4ErrBadStateID (closeOpt cfg replacement c)
                                      else if locksBlockDowngradeLocked h access (store c)
                                        then status result nfs4ErrLocksHeld (closeOpt cfg replacement c)
                                      else let old = o_file (hopen (store c) h);
                                               c = upd_store (downgrade_commit now h access deny replacement flags) c;
                                               newSeq = o_seq (hopen (store c) h);
                                               c = (if needOpen then closeOpt cfg old c else c)
                                           in (nfs4OK, encodeStateid newSeq k (e_uint32 nfs4OK result), c)))"

definition op_openDowngrade :: "'b config \<Rightarrow> time \<Rightarrow> decoder \<Rightarrow> encoder \<Rightarrow> 'b compound \<Rightarrow> 'b result \<times> decoder" where
  "op_openDowngrade cfg now d e c =
     (let ((sq, k), d) = decodeStateid d;
          (seqid, d) = d_uint32 d;
          (access, d) = d_uint32 d;
          (deny, d) = d_uint32 d
      in (if derr d \<noteq> None then status e nfs4ErrBadXDR c
          else let ((w, s), c) = on_store (ownerForStateid k now) c
               in if s \<noteq> nfs4OK then status e s c
                  else withSeqid (the w) opOpenDowngrade seqid e (\<lambda>c. c) (open_downgrade cfg now sq k access deny) c, d))"

text \<open>
  Dropping an open: its empty lock states, its table entry, its place in the index, and every other
  stateid that still routes to this owner without a live open.
\<close>

definition close_commit :: "time \<Rightarrow> addr \<Rightarrow> other \<Rightarrow> addr \<Rightarrow> stateStore \<Rightarrow> stateStore" where
  "close_commit now h k w st =
     (let st = removeEmptyLocksForOpenLocked h st;
          st = st\<lparr>opens := AList.delete k (opens st)\<rparr>;
          st = upd_client (o_client (hopen st h)) (\<lambda>x. x\<lparr>c_opens := c_opens x - 1\<rparr>) st;
          st = removePathLocked h st;
          st = foldl (\<lambda>st (prior, w'). if prior \<noteq> k \<and> w' = w \<and> map_of (opens st) prior = None
                 then st\<lparr>stateOwners := AList.delete prior (stateOwners st)\<rparr> else st) st (stateOwners st);
          st = upd_open h (\<lambda>x. x\<lparr>o_seq := o_seq x + 1\<rparr>) st
      in renewed now (o_client (hopen st h)) st)"

definition open_close :: "'b config \<Rightarrow> time \<Rightarrow> u32 \<Rightarrow> other \<Rightarrow> addr \<Rightarrow> encoder \<Rightarrow> 'b compound \<Rightarrow> 'b result" where
  "open_close cfg now sq k w result c =
     (if \<not> hasFH c then status result nfs4ErrNoFilehandle c
      else let ((held, s), c) = on_store (resolveStateid sq k (fh c) now) c
           in if s \<noteq> nfs4OK then status result s c
              else let h = the held
                   in if map_of (opens (store c)) k \<noteq> Some h \<or> o_seq (hopen (store c) h) \<noteq> sq
                        then status result nfs4ErrBadStateID c
                      else if locksBlockCloseLocked h (store c) then status result nfs4ErrLocksHeld c
                      else let c = upd_store (close_commit now h k w) c;
                               closedSeq = o_seq (hopen (store c) h);
                               (err, c) = closeFile cfg (the (o_file (hopen (store c) h))) c
                           in (case err of
                                 Some _ \<Rightarrow> status result nfs4ErrIO c
                               | None \<Rightarrow> (nfs4OK, encodeStateid closedSeq k (e_uint32 nfs4OK result), c)))"

definition op_close :: "'b config \<Rightarrow> time \<Rightarrow> decoder \<Rightarrow> encoder \<Rightarrow> 'b compound \<Rightarrow> 'b result \<times> decoder" where
  "op_close cfg now d e c =
     (let (seqid, d) = d_uint32 d;
          ((sq, k), d) = decodeStateid d
      in (if derr d \<noteq> None then status e nfs4ErrBadXDR c
          else let ((w, s), c) = on_store (ownerForStateid k now) c
               in if s \<noteq> nfs4OK then status e s c
                  else withSeqid (the w) opClose seqid e (\<lambda>c. c) (open_close cfg now sq k (the w)) c, d))"

section \<open>DELEGRETURN, SETCLIENTID, SETCLIENTID_CONFIRM, RENEW\<close>

definition op_delegReturn :: "time \<Rightarrow> decoder \<Rightarrow> encoder \<Rightarrow> 'b compound \<Rightarrow> 'b result \<times> decoder" where
  "op_delegReturn now d e c =
     (let ((sq, k), d) = decodeStateid d
      in (if derr d \<noteq> None then status e nfs4ErrBadXDR c
          else if \<not> hasFH c then status e nfs4ErrNoFilehandle c
          else let (s, c) = on_store (returnDelegation sq k (fh c) now) c in status e s c, d))"

text \<open>\<open>rnd\<close> is the random verifier. An unusable callback address is the empty string.\<close>

definition op_setClientID :: "'b config \<Rightarrow> bytes \<Rightarrow> time \<Rightarrow> decoder \<Rightarrow> encoder
    \<Rightarrow> 'b compound \<Rightarrow> 'b result \<times> decoder" where
  "op_setClientID cfg rnd now d e c =
     (let (v, d) = d_opaqueFixed 8 d;
          (ownerID, d) = d_opaque maxClientOwnerID d;
          (prog, d) = d_uint32 d;
          (netid, d) = d_string 16 d;
          (uaddr, d) = d_string 64 d;
          (ident, d) = d_uint32 d
      in (if derr d \<noteq> None then status e nfs4ErrBadXDR c
          else let cb = \<lparr>cb_program = prog, cb_ident = ident, 
                     cb_addr = (case parseUniversalAddr (parseIP cfg) netid uaddr of None \<Rightarrow> [] | Some a \<Rightarrow> a)\<rparr>;
                   ((i, verf, s), c) = on_store (st_setClientID (map byte_char ownerID) (copy_array 8 v) (principalOf (cred c)) cb rnd now) c
               in if s \<noteq> nfs4OK then (s, e_string [] (e_string ''tcp'' (e_uint32 s e)), c)
                  else (nfs4OK, e_opaqueFixed verf (e_uint64 i (e_uint32 nfs4OK e)), c), d))"

definition op_setClientIDConfirm :: "'b config \<Rightarrow> time \<Rightarrow> decoder \<Rightarrow> encoder \<Rightarrow> 'b compound \<Rightarrow> 'b result \<times> decoder" where
  "op_setClientIDConfirm cfg now d e c =
     (let (i, d) = d_uint64 d;
          (v, d) = d_opaqueFixed 8 d
      in (if derr d \<noteq> None then status e nfs4ErrBadXDR c
          else let ((_, s, files), c) = on_store (confirmClientID i (copy_array 8 v) now) c
               in status e s (closeAll cfg files c), d))"

definition op_renew :: "time \<Rightarrow> decoder \<Rightarrow> encoder \<Rightarrow> 'b compound \<Rightarrow> 'b result \<times> decoder" where
  "op_renew now d e c =
     (let (i, d) = d_uint64 d
      in (if derr d \<noteq> None then status e nfs4ErrBadXDR c
          else let (s, c) = on_store (st_renew i now) c in status e s c, d))"

end
