(* ===== verification/Nfs_Data_Ops.thy ===== *)
theory Nfs_Data_Ops
  imports Nfs_Fh_Ops Nfs_Open_Ops
begin

text \<open>
  The data operations of \<^verbatim>\<open>nfs4/ops_data.go\<close> (READ, WRITE, COMMIT), the directory listing of \<^verbatim>\<open>nfs4/ops_io.go\<close>
  (READDIR) and the namespace operations of \<^verbatim>\<open>nfs4/ops_mutation.go\<close> (SETATTR, CREATE, REMOVE, RENAME, LINK).
\<close>

unbundle bit_operations_syntax

section \<open>READ, WRITE, COMMIT\<close>

abbreviation (input) unstable4 :: u32 where "unstable4 \<equiv> 0"
abbreviation (input) fileSync4 :: u32 where "fileSync4 \<equiv> 2"
abbreviation (input) maxInt64 :: u64 where "maxInt64 \<equiv> 0x7fffffffffffffff"

text \<open>The file an I/O request runs on, and whether it was opened for this request alone.\<close>

definition ioState :: "'b config \<Rightarrow> time \<Rightarrow> u32 \<Rightarrow> other \<Rightarrow> bool \<Rightarrow> 'b compound \<Rightarrow> (nat \<times> bool \<times> nfsStat) \<times> 'b compound" where
  "ioState cfg now sq k write c =
     (if \<not> hasFH c then ((0, False, nfs4ErrNoFilehandle), c)
      else case lstatOrStat cfg (fh c) c of
        Inl err \<Rightarrow> ((0, False, fhErr err), c)
      | Inr fi \<Rightarrow>
          if fi_isDir fi then ((0, False, nfs4ErrIsDir), c)
          else if fi_isSymlink fi then ((0, False, nfs4ErrSymlink), c)
          else let ((file, access, special, s), c) = on_store (resolveIOStateid sq k (fh c) now) c;
                   needed = (if write then shareWrite else shareRead);
                   anon = (if denyBlocksAnonymous (fh c) write (store c) then ((0, False, nfs4ErrLocked), c)
                           else let (r, b) = fs_open (fsys cfg) (fh c) (if write then O_WRONLY else O_RDONLY) 0 (backend c);
                                    c = c\<lparr>backend := b\<rparr>
                                in (case r of Inl err \<Rightarrow> ((0, False, fhErr err), c) | Inr f \<Rightarrow> ((f, True, nfs4OK), c)))
               in if s \<noteq> nfs4OK then ((0, False, s), c)
                  else if special then anon
                  else if access AND needed = 0 then ((0, False, nfs4ErrOpenMode), c)
                  else (case file of Some f \<Rightarrow> ((f, False, nfs4OK), c) | None \<Rightarrow> anon))"

definition closeIf :: "'b config \<Rightarrow> bool \<Rightarrow> nat \<Rightarrow> 'b result \<Rightarrow> 'b result" where
  "closeIf cfg temporary f r = (case r of (s, e, c) \<Rightarrow> (s, e, if temporary then snd (closeFile cfg f c) else c))"

definition read_reply :: "'b config \<Rightarrow> nat \<Rightarrow> u64 \<Rightarrow> u32 \<Rightarrow> encoder \<Rightarrow> 'b compound \<Rightarrow> 'b result" where
  "read_reply cfg f offset count e0 c =
     (let mark = length e0;
          e = e_uint32 nfs4OK e0;
          eofAt = length e;
          e = e_bool False e;
          lengthAt = length e;
          e = e_uint32 0 e;
          at = length e;
          e = e_reserve count e;
          ((n, buf, err), c) = file_ReadAt cfg f (unat count) (uint offset) c;
          e = take at e @ copy_array (unat count) buf @ drop (at + unat count) e
      in if n < 0 \<or> n > uint count then status (e_truncate mark e) nfs4ErrServerFault c
         else if err \<noteq> None \<and> err \<noteq> Some EOF then status (e_truncate mark e) (fhErr (the err)) c
         else case fs_fstat (fsys cfg) f (backend c) of
                Inl err \<Rightarrow> status (e_truncate mark e) (fhErr err) c
              | Inr fi \<Rightarrow>
                  let e = (if offset + word_of_int n \<ge> word_of_int (max (fi_size fi) 0) then e_patchUint32 eofAt 1 e else e);
                      e = e_patchUint32 lengthAt (word_of_int n) e
                  in (nfs4OK, e_truncate (lengthAt + 4 + nat n + unat (xdr_pad (word_of_int n))) e, c))"

definition op_read :: "'b config \<Rightarrow> time \<Rightarrow> decoder \<Rightarrow> encoder \<Rightarrow> 'b compound \<Rightarrow> 'b result \<times> decoder" where
  "op_read cfg now d e c =
     (let ((sq, k), d) = decodeStateid d;
          (offset, d) = d_uint64 d;
          (count, d) = d_uint32 d
      in (if derr d \<noteq> None then status e nfs4ErrBadXDR c
          else if offset > maxInt64 \<or> ucast count > maxInt64 - offset then status e nfs4ErrInval c
          else let count = min count (maxRead cfg);
                   ((f, temporary, s), c) = ioState cfg now sq k False c
               in if s \<noteq> nfs4OK then status e s c
                  else closeIf cfg temporary f (read_reply cfg f offset count e c), d))"

definition write_reply :: "'b config \<Rightarrow> nat \<Rightarrow> u64 \<Rightarrow> u32 \<Rightarrow> bytes \<Rightarrow> encoder \<Rightarrow> 'b compound \<Rightarrow> 'b result" where
  "write_reply cfg f offset stability data e c =
     (let ((n, err), c) = file_WriteAt cfg f data (uint offset) c
      in if n < 0 \<or> n > int (length data) then status e nfs4ErrServerFault c
         else case err of
                Some err \<Rightarrow> status e (fhErr err) c
              | None \<Rightarrow>
                  let ((flushed, err), c) = (if stability \<noteq> unstable4 \<and> length data \<noteq> 0 then file_sync cfg f c else ((False, None), c))
                  in (case err of
                        Some err \<Rightarrow> status e (fhErr err) c
                      | None \<Rightarrow>
                          let e = e_uint32 nfs4OK e;
                              e = e_uint32 (word_of_int n) e;
                              e = e_uint32 (if flushed then fileSync4 else unstable4) e
                          in (nfs4OK, e_opaqueFixed (verifier cfg) e, c)))"

definition op_write :: "'b config \<Rightarrow> time \<Rightarrow> decoder \<Rightarrow> encoder \<Rightarrow> 'b compound \<Rightarrow> 'b result \<times> decoder" where
  "op_write cfg now d e c =
     (let ((sq, k), d) = decodeStateid d;
          (offset, d) = d_uint64 d;
          (stability, d) = d_uint32 d;
          (data, d) = d_opaque (word_of_nat (requestCap cfg)) d
      in (if derr d \<noteq> None then status e nfs4ErrBadXDR c
          else let data = (if word_of_nat (length data) > maxWrite cfg then take (unat (maxWrite cfg)) data else data)
               in if offset > maxInt64 \<or> word_of_nat (length data) > maxInt64 - offset then status e nfs4ErrInval c
                  else if stability > fileSync4 then status e nfs4ErrInval c
                  else let (s, c) = (if hasFH c then c_recall (fh c) (clientForStateid k (store c)) now c else (nfs4OK, c))
                       in if s \<noteq> nfs4OK then status e s c
                          else let ((f, temporary, s), c) = ioState cfg now sq k True c
                               in if s \<noteq> nfs4OK then status e s c
                                  else closeIf cfg temporary f (write_reply cfg f offset stability data e c), d))"

fun sync_all :: "'b config \<Rightarrow> nat list \<Rightarrow> 'b compound \<Rightarrow> fserr option \<times> 'b compound" where
  "sync_all cfg [] c = (None, c)"
| "sync_all cfg (f # fs) c =
     (let ((_, err), c) = file_sync cfg f c
      in case err of Some err \<Rightarrow> (Some err, c) | None \<Rightarrow> sync_all cfg fs c)"

definition op_commit :: "'b config \<Rightarrow> decoder \<Rightarrow> encoder \<Rightarrow> 'b compound \<Rightarrow> 'b result \<times> decoder" where
  "op_commit cfg d e c =
     (let (offset, d) = d_uint64 d;
          (count, d) = d_uint32 d
      in (if derr d \<noteq> None then status e nfs4ErrBadXDR c
          else if \<not> hasFH c then status e nfs4ErrNoFilehandle c
          else if offset > maxInt64 \<or> count \<noteq> 0 \<and> ucast count > maxInt64 - offset then status e nfs4ErrInval c
          else case lstatOrStat cfg (fh c) c of
            Inl err \<Rightarrow> status e (fhErr err) c
          | Inr fi \<Rightarrow>
              if fi_isDir fi then status e nfs4ErrIsDir c
              else if fi_isSymlink fi then status e nfs4ErrSymlink c
              else let files = openFilesFor (fh c) (store c);
                       (err, c) = sync_all cfg files c
                   in (case err of
                         Some err \<Rightarrow> status e (fhErr err) c
                       | None \<Rightarrow>
                           if files \<noteq> [] then (nfs4OK, e_opaqueFixed (verifier cfg) (e_uint32 nfs4OK e), c)
                           else let (r, b) = fs_open (fsys cfg) (fh c) O_WRONLY 0 (backend c); c = c\<lparr>backend := b\<rparr>
                                in (case r of
                                      Inl err \<Rightarrow> status e (fhErr err) c
                                    | Inr f \<Rightarrow>
                                        let ((_, err), c) = file_sync cfg f c; (_, c) = closeFile cfg f c
                                        in (case err of
                                              Some err \<Rightarrow> status e (fhErr err) c
                                            | None \<Rightarrow> (nfs4OK, e_opaqueFixed (verifier cfg) (e_uint32 nfs4OK e), c)))), d))"

section \<open>READDIR\<close>

text \<open>One page after another until the end of the directory, an error, an empty page or the bound.\<close>

function read_pages :: "'b config \<Rightarrow> nat \<Rightarrow> nat \<Rightarrow> finfo list \<Rightarrow> 'b compound \<Rightarrow> (finfo list \<times> nfsStat) \<times> 'b compound" where
  "read_pages cfg limit f entries c =
     (let ((page, err), b) = fs_readdir (fsys cfg) f 256 (backend c);
          c = c\<lparr>backend := b\<rparr>;
          entries' = entries @ page
      in if length entries' > limit then (([], nfs4ErrResource), c)
         else case err of
                Some err \<Rightarrow> if err = EOF then ((entries', nfs4OK), c) else (([], fhErr err), c)
              | None \<Rightarrow> if page = [] then ((entries', nfs4OK), c) else read_pages cfg limit f entries' c)"
  by pat_completeness auto
termination
  by (relation "measure (\<lambda>(cfg, limit, f, entries, c). Suc limit - length entries)")
    (auto simp: less_Suc_eq_le neq_Nil_conv)

declare read_pages.simps [simp del]

definition readAllEntries :: "'b config \<Rightarrow> 'b compound \<Rightarrow> (finfo list \<times> nfsStat) \<times> 'b compound" where
  "readAllEntries cfg c =
     (let (r, b) = fs_open (fsys cfg) (fh c) O_RDONLY 0 (backend c); c = c\<lparr>backend := b\<rparr>
      in case r of
           Inl err \<Rightarrow> (([], fhErr err), c)
         | Inr f \<Rightarrow>
             let (res, c) = read_pages cfg (maxDirEntries cfg) f [] c;
                 (_, b) = fs_close (fsys cfg) f (backend c)
             in (res, c\<lparr>backend := b\<rparr>))"

text \<open>
  The entries from index \<open>i\<close> on, as many as fit. The first result is the end-of-directory flag, \<open>None\<close> when not
  even one entry fits.
\<close>

fun readdir_emit :: "'b config \<Rightarrow> bitmap \<Rightarrow> nat \<Rightarrow> int \<Rightarrow> int \<Rightarrow> nat \<Rightarrow> nat \<Rightarrow> finfo list \<Rightarrow> encoder \<Rightarrow> 'b compound
    \<Rightarrow> bool option \<times> encoder \<times> 'b compound" where
  "readdir_emit cfg requested body sizeBudget nameBudget i emitted [] e c = (Some True, e, c)"
| "readdir_emit cfg requested body sizeBudget nameBudget i emitted (fi # fis) e c =
     (let entryAt = length e;
          e = e_bool True e;
          e = e_uint64 (word_of_nat i + 3) e;
          e = e_string (fi_name fi) e;
          (e, c) = encodeFattr cfg requested (path_Join (fh c) (fi_name fi)) fi e c;
          nameBudget = nameBudget - (int (length (fi_name fi)) + 8)
      in if int (length e) - int body > sizeBudget - 8 \<or> nameBudget < 0
         then (if emitted = 0 then None else Some False, e_truncate entryAt e, c)
         else readdir_emit cfg requested body sizeBudget nameBudget (Suc i) (Suc emitted) fis e c)"

text \<open>The snapshot a listing is served from: the one the verifier names, or a new one.\<close>

definition dir_snapshot :: "'b config \<Rightarrow> time \<Rightarrow> u64 \<Rightarrow> u64 \<Rightarrow> 'b compound \<Rightarrow> (finfo list \<times> u64 \<times> nfsStat) \<times> 'b compound" where
  "dir_snapshot cfg now cookie verf c =
     (case (if cookie \<noteq> 0 then dc_lookup (fh c) verf now (dirs c) else None) of
        Some entries \<Rightarrow> ((entries, verf, nfs4OK), c)
      | None \<Rightarrow>
          let ((entries, s), c) = readAllEntries cfg c
          in if s \<noteq> nfs4OK then (([], verf, s), c)
             else let (verf, dc) = (if cookie = 0 then dc_mint (dirs c) else (verf, dirs c))
                  in ((entries, verf, nfs4OK), c\<lparr>dirs := the (dc_put (fh c) verf entries now dc)\<rparr>))"

definition op_readDir :: "'b config \<Rightarrow> time \<Rightarrow> decoder \<Rightarrow> encoder \<Rightarrow> 'b compound \<Rightarrow> 'b result \<times> decoder" where
  "op_readDir cfg now d e c =
     (let (cookie, d) = d_uint64 d;
          (verfBytes, d) = d_opaqueFixed 8 d;
          (dircount, d) = d_uint32 d;
          (maxcount, d) = d_uint32 d;
          (requested, d) = decodeBitmap d
      in (if derr d \<noteq> None then status e nfs4ErrBadXDR c
          else if cookie = 1 \<or> cookie = 2 then status e nfs4ErrBadCookie c
          else if cookie = 0 \<and> verfBytes \<noteq> replicate 8 0 then status e nfs4ErrBadCookie c
          else if dirFH cfg c \<noteq> nfs4OK then status e (dirFH cfg c) c
          else let ((entries, verf, s), c) = dir_snapshot cfg now cookie (be_Uint64 verfBytes) c
               in if s \<noteq> nfs4OK then status e s c
                  else let start = (if cookie \<noteq> 0 then if cookie - 2 < word_of_nat (length entries) then unat (cookie - 2) else length entries
                                    else 0);
                           mark = length e;
                           sizeBudget = min (uint maxcount) (int (responseCap cfg) - int mark - 128);
                           e = e_uint32 nfs4OK e;
                           e = e_opaqueFixed (be_PutUint64 verf) e;
                           (eof, e, c) = readdir_emit cfg requested (length e) sizeBudget (uint dircount) start 0 (drop start entries) e c
                       in (case eof of
                             None \<Rightarrow> status (e_truncate mark e) nfs4ErrTooSmall c
                           | Some eof \<Rightarrow> (nfs4OK, e_bool eof (e_bool False e), c)), d))"

section \<open>SETATTR, CREATE\<close>

definition op_setAttr :: "'b config \<Rightarrow> time \<Rightarrow> decoder \<Rightarrow> encoder \<Rightarrow> 'b compound \<Rightarrow> 'b result \<times> decoder" where
  "op_setAttr cfg now d e c =
     (let ((sq, k), d) = decodeStateid d;
          (mk, d) = decodeBitmap d;
          (vs, d) = d_opaque (word_of_nat (requestCap cfg)) d
      in (if derr d \<noteq> None then (nfs4ErrBadXDR, encodeBitmap [] (e_uint32 nfs4ErrBadXDR e), c)
          else let (a, s) = decodeSetAttrs (supported cfg) mk vs;
                   s = (if s = nfs4OK \<and> \<not> hasFH c then nfs4ErrNoFilehandle else s);
                   s = (if s = nfs4OK \<and> sa_size a \<noteq> None
                        then (case lstatOrStat cfg (fh c) c of
                                Inl err \<Rightarrow> fhErr err
                              | Inr fi \<Rightarrow> if fi_isDir fi then nfs4ErrIsDir else s)
                        else s);
                   (s, c) = (if s = nfs4OK \<and> (sa_size a \<noteq> None \<or> sa_atime a \<noteq> None \<or> sa_mtime a \<noteq> None)
                             then c_recall (fh c) (clientForStateid k (store c)) now c else (s, c));
                   ((access, s), c) = (if s = nfs4OK
                             then let ((_, access, _, s), c) = on_store (resolveIOStateid sq k (fh c) now) c in ((access, s), c)
                             else ((0, s), c));
                   s = (if s = nfs4OK \<and> sa_size a \<noteq> None \<and> k \<noteq> zeroOther \<and> k \<noteq> allOnesOther \<and> access AND shareWrite = 0
                        then nfs4ErrOpenMode else s);
                   (s, a, c) = (if s = nfs4OK then applySetAttrs cfg now (fh c) False a c else (s, a, c))
               in (s, encodeBitmap (sa_applied a) (e_uint32 s e), c), d))"

text \<open>CREATE from the point where the object may be made.\<close>

definition create_object :: "'b config \<Rightarrow> time \<Rightarrow> u32 \<Rightarrow> string \<Rightarrow> string \<Rightarrow> setAttrValues \<Rightarrow> encoder \<Rightarrow> 'b compound \<Rightarrow> 'b result" where
  "create_object cfg now typ linkTarget target attrs e c =
     (let before' = changeOfDir cfg (fh c) c;
          perm = (case sa_mode attrs of None \<Rightarrow> 493 | Some m \<Rightarrow> m);
          (err, b) = (if typ = nf4Dir then fs_mkdir (fsys cfg) target perm (backend c)
                      else (case fs_symlinks (fsys cfg) of
                              None \<Rightarrow> (Some OtherErr, backend c)
                            | Some sl \<Rightarrow> sl_symlink sl linkTarget target (backend c)));
          c = c\<lparr>backend := b\<rparr>
      in case err of
           Some err \<Rightarrow> status e (nameErr err) c
         | None \<Rightarrow>
             let attrs = (if typ = nf4Dir \<and> sa_mode attrs \<noteq> None
                          then attrs\<lparr>sa_mode := None, sa_applied := bm_set attrMode (sa_applied attrs)\<rparr> else attrs);
                 (s, attrs, c) = (if typ \<noteq> nf4Lnk then applySetAttrs cfg now target True attrs c else (nfs4OK, attrs, c))
             in if s \<noteq> nfs4OK then status e s (c\<lparr>backend := snd (fs_removeAll (fsys cfg) target (backend c))\<rparr>)
                else let parent = fh c; c = c\<lparr>fh := target\<rparr>
                     in (nfs4OK, encodeBitmap (sa_applied attrs)
                           (encodeChangeInfo before' (changeOfDir cfg parent c) (e_uint32 nfs4OK e)), c))"

definition op_create :: "'b config \<Rightarrow> time \<Rightarrow> decoder \<Rightarrow> encoder \<Rightarrow> 'b compound \<Rightarrow> 'b result \<times> decoder" where
  "op_create cfg now d e c =
     (let (typ, d) = d_uint32 d;
          (linkTarget, d) =
            (if typ = nf4Lnk then d_string maxLinkData d
             else if typ = nf4Blk \<or> typ = nf4Chr then ([], snd (d_uint32 (snd (d_uint32 d))))
             else ([], d));
          ((name, nameStatus), d) = decodeName d;
          (mk, d) = decodeBitmap d;
          (vs, d) = d_opaque (word_of_nat (requestCap cfg)) d
      in (if derr d \<noteq> None then status e nfs4ErrBadXDR c
          else if nameStatus \<noteq> nfs4OK then status e nameStatus c
          else let (attrs, s) = decodeSetAttrs (supported cfg) mk vs
               in if s \<noteq> nfs4OK then status e s c
                  else if dirFH cfg c \<noteq> nfs4OK then status e (dirFH cfg c) c
                  else let bad = (if typ = nf4Reg then nfs4ErrInval
                                  else if typ = nf4Blk \<or> typ = nf4Chr \<or> typ = nf4Sock \<or> typ = nf4Fifo then nfs4ErrBadType
                                  else if typ = nf4Lnk
                                    then (if length linkTarget > 4096 then nfs4ErrNameTooLong
                                          else if fs_symlinks (fsys cfg) = None then nfs4ErrNotSupp else nfs4OK)
                                  else if typ = nf4Dir then (if sa_size attrs \<noteq> None then nfs4ErrInval else nfs4OK)
                                  else nfs4ErrBadType)
                       in if bad \<noteq> nfs4OK then status e bad c
                          else let target = path_Join (fh c) name
                               in (case lstatOrStat cfg target c of
                                     Inr _ \<Rightarrow> status e nfs4ErrExist c
                                   | Inl err \<Rightarrow>
                                       if nameErr err \<noteq> nfs4ErrNoEnt then status e (nameErr err) c
                                       else create_object cfg now typ linkTarget target attrs e c), d))"

section \<open>REMOVE, RENAME, LINK\<close>

definition requireEmptyDir :: "'b config \<Rightarrow> string \<Rightarrow> 'b compound \<Rightarrow> nfsStat \<times> 'b compound" where
  "requireEmptyDir cfg p c =
     (let (r, b) = fs_open (fsys cfg) p O_RDONLY 0 (backend c); c = c\<lparr>backend := b\<rparr>
      in case r of
           Inl err \<Rightarrow> (nameErr err, c)
         | Inr f \<Rightarrow>
             let ((entries, err), b) = fs_readdir (fsys cfg) f 1 (backend c);
                 (_, b) = fs_close (fsys cfg) f b;
                 c = c\<lparr>backend := b\<rparr>
             in (if err \<noteq> None \<and> err \<noteq> Some EOF then nameErr (the err)
                 else if length entries \<noteq> 0 then nfs4ErrNotEmpty else nfs4OK, c))"

definition remove_target :: "'b config \<Rightarrow> string \<Rightarrow> bool \<Rightarrow> 'b compound \<Rightarrow> nfsStat \<times> 'b compound" where
  "remove_target cfg target isDir c =
     (case fs_remove (fsys cfg) of
        Some f \<Rightarrow>
          let (err, b) = f target (backend c)
          in (case err of None \<Rightarrow> nfs4OK | Some err \<Rightarrow> nameErr err, c\<lparr>backend := b\<rparr>)
      | None \<Rightarrow>
          let (s, c) = (if isDir then requireEmptyDir cfg target c else (nfs4OK, c))
          in if s \<noteq> nfs4OK then (s, c)
             else let (err, b) = fs_removeAll (fsys cfg) target (backend c)
                  in (case err of None \<Rightarrow> nfs4OK | Some err \<Rightarrow> nameErr err, c\<lparr>backend := b\<rparr>))"

definition op_remove :: "'b config \<Rightarrow> time \<Rightarrow> decoder \<Rightarrow> encoder \<Rightarrow> 'b compound \<Rightarrow> 'b result \<times> decoder" where
  "op_remove cfg now d e c =
     (let ((name, s), d) = decodeName d
      in (if s \<noteq> nfs4OK then status e s c
          else if dirFH cfg c \<noteq> nfs4OK then status e (dirFH cfg c) c
          else let target = path_Join (fh c) name
               in case lstatOrStat cfg target c of
                    Inl err \<Rightarrow> status e (nameErr err) c
                  | Inr fi \<Rightarrow>
                      let (s, c) = c_recall target None now c
                      in if s \<noteq> nfs4OK then status e s c
                         else let before' = changeOfDir cfg (fh c) c;
                                  (s, c) = remove_target cfg target (fi_isDir fi) c
                              in if s \<noteq> nfs4OK then status e s c
                                 else (nfs4OK, encodeChangeInfo before' (changeOfDir cfg (fh c) c) (e_uint32 nfs4OK e), c), d))"

text \<open>The type rules a rename onto an existing name must meet.\<close>

definition rename_target :: "'b config \<Rightarrow> bool \<Rightarrow> string \<Rightarrow> 'b compound \<Rightarrow> nfsStat \<times> 'b compound" where
  "rename_target cfg isDir newPath c =
     (case lstatOrStat cfg newPath c of
        Inl err \<Rightarrow> (if nameErr err \<noteq> nfs4ErrNoEnt then nameErr err else nfs4OK, c)
      | Inr target \<Rightarrow>
          if isDir \<and> \<not> fi_isDir target then (nfs4ErrNotDir, c)
          else if \<not> isDir \<and> fi_isDir target then (nfs4ErrIsDir, c)
          else if fi_isDir target then requireEmptyDir cfg newPath c
          else (nfs4OK, c))"

definition rename_commit :: "'b config \<Rightarrow> time \<Rightarrow> string \<Rightarrow> string \<Rightarrow> 'b compound \<Rightarrow> nfsStat \<times> 'b compound" where
  "rename_commit cfg now oldPath newPath c =
     (let (s, c) = c_recall oldPath None now c
      in if s \<noteq> nfs4OK then (s, c)
         else let (s, c) = c_recall newPath None now c
              in if s \<noteq> nfs4OK then (s, c)
                 else let (err, b) = fs_rename (fsys cfg) oldPath newPath (backend c); c = c\<lparr>backend := b\<rparr>
                      in (case err of
                            Some err \<Rightarrow> (nameErr err, c)
                          | None \<Rightarrow> (nfs4OK, upd_store (renamePath oldPath newPath) c)))"

definition rename_paths :: "'b config \<Rightarrow> time \<Rightarrow> string \<Rightarrow> string \<Rightarrow> encoder \<Rightarrow> 'b compound \<Rightarrow> 'b result" where
  "rename_paths cfg now oldPath newPath e c =
     (case lstatOrStat cfg oldPath c of
        Inl err \<Rightarrow> status e (nameErr err) c
      | Inr fi \<Rightarrow>
          if fi_isDir fi \<and> (newPath = oldPath \<or> hasPrefix newPath (oldPath @ ''/'')) \<and> newPath \<noteq> oldPath
            then status e nfs4ErrInval c
          else let (s, c) = (if newPath \<noteq> oldPath then rename_target cfg (fi_isDir fi) newPath c else (nfs4OK, c))
               in if s \<noteq> nfs4OK then status e s c
                  else let oldBefore = changeOfDir cfg (saved c) c;
                           newBefore = changeOfDir cfg (fh c) c;
                           (s, c) = (if oldPath \<noteq> newPath then rename_commit cfg now oldPath newPath c else (nfs4OK, c))
                       in if s \<noteq> nfs4OK then status e s c
                          else (nfs4OK, encodeChangeInfo newBefore (changeOfDir cfg (fh c) c)
                                 (encodeChangeInfo oldBefore (changeOfDir cfg (saved c) c) (e_uint32 nfs4OK e)), c))"

definition op_rename :: "'b config \<Rightarrow> time \<Rightarrow> decoder \<Rightarrow> encoder \<Rightarrow> 'b compound \<Rightarrow> 'b result \<times> decoder" where
  "op_rename cfg now d e c =
     (let ((oldName, oldStatus), d) = decodeName d;
          ((newName, newStatus), d) = decodeName d
      in (if derr d \<noteq> None then status e nfs4ErrBadXDR c
          else if oldStatus \<noteq> nfs4OK then status e oldStatus c
          else if newStatus \<noteq> nfs4OK then status e newStatus c
          else if \<not> hasSaved c \<or> \<not> hasFH c then status e nfs4ErrNoFilehandle c
          else if dirAt cfg (saved c) c \<noteq> nfs4OK then status e (dirAt cfg (saved c) c) c
          else if dirAt cfg (fh c) c \<noteq> nfs4OK then status e (dirAt cfg (fh c) c) c
          else rename_paths cfg now (path_Join (saved c) oldName) (path_Join (fh c) newName) e c, d))"

definition op_link :: "'b config \<Rightarrow> time \<Rightarrow> decoder \<Rightarrow> encoder \<Rightarrow> 'b compound \<Rightarrow> 'b result \<times> decoder" where
  "op_link cfg now d e c =
     (let ((name, s), d) = decodeName d
      in (if s \<noteq> nfs4OK then status e s c
          else case fs_link (fsys cfg) of
            None \<Rightarrow> status e nfs4ErrNotSupp c
          | Some f \<Rightarrow>
              if \<not> hasSaved c \<or> \<not> hasFH c then status e nfs4ErrNoFilehandle c
              else if dirAt cfg (fh c) c \<noteq> nfs4OK then status e (dirAt cfg (fh c) c) c
              else (case lstatOrStat cfg (saved c) c of
                      Inl err \<Rightarrow> status e (fhErr err) c
                    | Inr fi \<Rightarrow>
                        if fi_isDir fi then status e nfs4ErrIsDir c
                        else let before' = changeOfDir cfg (fh c) c;
                                 (s, c) = c_recall (saved c) None now c
                             in if s \<noteq> nfs4OK then status e s c
                                else let (err, b) = f (saved c) (path_Join (fh c) name) (backend c); c = c\<lparr>backend := b\<rparr>
                                     in (case err of
                                           Some err \<Rightarrow> status e (nameErr err) c
                                         | None \<Rightarrow> (nfs4OK, encodeChangeInfo before' (changeOfDir cfg (fh c) c) (e_uint32 nfs4OK e), c))), d))"

end
