(* ===== verification/Nfs_Lock_Ops.thy ===== *)
theory Nfs_Lock_Ops
  imports Nfs_Server
begin

text \<open>
  The operations of \<^verbatim>\<open>nfs4/ops_lock.go\<close>: LOCK with a new or an existing lock-owner, LOCKT, LOCKU and
  RELEASE_LOCKOWNER. Each decodes its arguments, runs under the sequence discipline and encodes its reply,
  status first. The closures the code passes to \<^verbatim>\<open>withSeqid\<close> are definitions of their own.
\<close>

unbundle bit_operations_syntax

section \<open>Helpers\<close>

definition encodeDenied :: "addr \<Rightarrow> lockRange \<Rightarrow> encoder \<Rightarrow> 'b compound \<Rightarrow> 'b result" where
  "encodeDenied l held e c =
     (let st = store c;
          e = e_uint32 nfs4ErrDenied e;
          e = e_uint64 (lstart held) e;
          e = e_uint64 (lockRangeLength held) e;
          e = (if lwrite held then e_uint32 writeLT e else e_uint32 readLT e);
          e = e_uint64 (c_id (hclient st (l_client (hlock st l)))) e;
          e = e_opaque (map char_byte (w_key (howner st (l_owner (hlock st l))))) e
      in (nfs4ErrDenied, e, c))"

definition lockFH :: "'b config \<Rightarrow> 'b compound \<Rightarrow> nfsStat" where
  "lockFH cfg c =
     (if \<not> hasFH c then nfs4ErrNoFilehandle
      else case lstatOrStat cfg (fh c) c of
             Inl err \<Rightarrow> fhErr err
           | Inr fi \<Rightarrow> if fi_isDir fi then nfs4ErrIsDir else if fi_isSymlink fi then nfs4ErrSymlink else nfs4OK)"

definition lockTestOwner :: "u64 \<Rightarrow> string \<Rightarrow> time \<Rightarrow> stateStore \<Rightarrow> (addr option \<times> nfsStat) \<times> stateStore" where
  "lockTestOwner clientID key now st =
     (case map_of (confirmed st) clientID of
        None \<Rightarrow> ((None, if map_of (expiredIDs st) clientID \<noteq> None then nfs4ErrExpired else nfs4ErrStaleClientID), st)
      | Some c \<Rightarrow> let st = renewed now c st in ((map_of (c_lockOwners (hclient st c)) key, nfs4OK), st))"

text \<open>Whether an open's access admits a lock of the type asked for.\<close>

definition lock_mode_bad :: "bool \<Rightarrow> u32 \<Rightarrow> bool" where
  "lock_mode_bad write access \<longleftrightarrow> write \<and> access AND shareWrite = 0 \<or> \<not> write \<and> access AND shareRead = 0"

text \<open>Minting the lock state of a lock-owner's first LOCK on a file.\<close>

definition add_lock :: "addr \<Rightarrow> addr \<Rightarrow> string \<Rightarrow> lockRange \<Rightarrow> stateStore \<Rightarrow> addr \<times> stateStore" where
  "add_lock opened lw p r st =
     (let (k, st) = newOther st;
          a = nextAddr st;
          x = \<lparr>l_other = k, l_seq = 1, l_client = o_client (hopen st opened), l_owner = lw, l_open = opened,
            l_path = p, l_ranges = [r]\<rparr>;
          st = st\<lparr>hlock := (hlock st)(a := x), nextAddr := Suc a\<rparr>;
          st = st\<lparr>locks := AList.update k a (locks st)\<rparr>;
          st = st\<lparr>stateOwners := AList.update k lw (stateOwners st)\<rparr>
      in (a, st\<lparr>locksByPath := idx_append p a (locksByPath st)\<rparr>))"

section \<open>LOCK\<close>

definition lock_new :: "'b config \<Rightarrow> time \<Rightarrow> nfsStat \<Rightarrow> nfsStat \<Rightarrow> bool \<Rightarrow> bool \<Rightarrow> lockRange \<Rightarrow> u32 \<Rightarrow> other
    \<Rightarrow> addr \<Rightarrow> addr \<Rightarrow> encoder \<Rightarrow> 'b compound \<Rightarrow> 'b result" where
  "lock_new cfg now typeStatus rangeStatus reclaim write r sq k ow lw result c =
     (if typeStatus \<noteq> nfs4OK then status result typeStatus c
      else if rangeStatus \<noteq> nfs4OK then status result rangeStatus c
      else if reclaim then status result nfs4ErrNoGrace c
      else if lockFH cfg c \<noteq> nfs4OK then status result (lockFH cfg c) c
      else let ((opened, s), c) = on_store (resolveStateid sq k (fh c) now) c
           in if s \<noteq> nfs4OK then status result s c
              else let a = the opened; x = hopen (store c) a
                   in if o_owner x \<noteq> ow \<or> o_client x \<noteq> w_client (howner (store c) lw)
                        then status result nfs4ErrBadStateID c
                      else if map_of (opens (store c)) (o_other x) \<noteq> Some a
                        then status result nfs4ErrBadStateID c
                      else if lock_mode_bad write (o_access x) then status result nfs4ErrOpenMode c
                      else if findLockStateLocked (fh c) lw (store c) \<noteq> None
                        then status result nfs4ErrInval c
                      else case lockConflictLocked (fh c) (Some lw) r (store c) of
                             Some (l, held) \<Rightarrow> encodeDenied l held result c
                           | None \<Rightarrow>
                               let (l, st) = add_lock a lw (fh c) r (store c);
                                   x = hlock st l
                               in (nfs4OK, encodeStateid (l_seq x) (l_other x) (e_uint32 nfs4OK result), c\<lparr>store := st\<rparr>))"

definition lock_again :: "'b config \<Rightarrow> time \<Rightarrow> nfsStat \<Rightarrow> nfsStat \<Rightarrow> bool \<Rightarrow> bool \<Rightarrow> lockRange \<Rightarrow> u32 \<Rightarrow> other
    \<Rightarrow> addr \<Rightarrow> encoder \<Rightarrow> 'b compound \<Rightarrow> 'b result" where
  "lock_again cfg now typeStatus rangeStatus reclaim write r sq k lw result c =
     (if typeStatus \<noteq> nfs4OK then status result typeStatus c
      else if rangeStatus \<noteq> nfs4OK then status result rangeStatus c
      else if reclaim then status result nfs4ErrNoGrace c
      else if lockFH cfg c \<noteq> nfs4OK then status result (lockFH cfg c) c
      else let ((locked, s), c) = on_store (resolveLockStateid sq k (fh c) now) c
           in if s \<noteq> nfs4OK then status result s c
              else let l = the locked; st = store c; x = hlock st l
                   in if map_of (locks st) k \<noteq> Some l
                          \<or> map_of (opens st) (o_other (hopen st (l_open x))) \<noteq> Some (l_open x)
                        then status result nfs4ErrBadStateID c
                      else if lock_mode_bad write (o_access (hopen st (l_open x)))
                        then status result nfs4ErrOpenMode c
                      else case lockConflictLocked (fh c) (Some lw) r st of
                             Some (l', held) \<Rightarrow> encodeDenied l' held result c
                           | None \<Rightarrow>
                               let ranges = setLockRange (l_ranges x) r
                               in if length ranges > maxLockRanges then status result nfs4ErrResource c
                                  else let st = upd_lock l (\<lambda>y. y\<lparr>l_ranges := ranges, l_seq := l_seq y + 1\<rparr>) st;
                                           st = renewed now (l_client x) st;
                                           y = hlock st l
                                       in (nfs4OK, encodeStateid (l_seq y) (l_other y) (e_uint32 nfs4OK result),
                                           c\<lparr>store := st\<rparr>))"

definition op_lock :: "'b config \<Rightarrow> time \<Rightarrow> decoder \<Rightarrow> encoder \<Rightarrow> 'b compound \<Rightarrow> 'b result \<times> decoder" where
  "op_lock cfg now d e c =
     (let (typ, d) = d_uint32 d;
          (reclaim, d) = d_bool d;
          (offset, d) = d_uint64 d;
          (len, d) = d_uint64 d;
          (newOwner, d) = d_bool d;
          (openSeq, d) = (if newOwner then d_uint32 d else (0, d));
          ((sq, k), d) = decodeStateid d;
          (lockSeq, d) = d_uint32 d;
          (clientID, d) = (if newOwner then d_uint64 d else (0, d));
          (ownerID, d) = (if newOwner then d_opaque maxLockOwnerID d else ([], d))
      in (if derr d \<noteq> None then status e nfs4ErrBadXDR c
          else let (write, typeStatus) = lockType typ;
                   (r, rangeStatus) = makeLockRange offset len write
               in if newOwner
                  then let ((ow, s), c) = on_store (openOwnerForStateid k now) c
                       in if s \<noteq> nfs4OK then status e s c
                          else let ((lw, s), c) = on_store (lockOwnerOf clientID (map byte_char ownerID) now) c
                               in if s \<noteq> nfs4OK then status e s c
                                  else withTwoSeqids (the ow) (the lw) openSeq lockSeq e
                                    (lock_new cfg now typeStatus rangeStatus reclaim write r sq k (the ow) (the lw)) c
                  else let ((lw, s), c) = on_store (ownerForStateid k now) c
                       in if s \<noteq> nfs4OK then status e s c
                          else withSeqid (the lw) opLock lockSeq e (\<lambda>c. c)
                                 (lock_again cfg now typeStatus rangeStatus reclaim write r sq k (the lw)) c, d))"

section \<open>LOCKT and LOCKU\<close>

definition op_lockT :: "'b config \<Rightarrow> time \<Rightarrow> decoder \<Rightarrow> encoder \<Rightarrow> 'b compound \<Rightarrow> 'b result \<times> decoder" where
  "op_lockT cfg now d e c =
     (let (typ, d) = d_uint32 d;
          (offset, d) = d_uint64 d;
          (len, d) = d_uint64 d;
          (clientID, d) = d_uint64 d;
          (ownerID, d) = d_opaque maxLockOwnerID d
      in (if derr d \<noteq> None then status e nfs4ErrBadXDR c
          else let ((w, s), c) = on_store (lockTestOwner clientID (map byte_char ownerID) now) c
               in if s \<noteq> nfs4OK then status e s c
                  else let (write, s) = lockType typ
                       in if s \<noteq> nfs4OK then status e s c
                          else let (r, s) = makeLockRange offset len write
                               in if s \<noteq> nfs4OK then status e s c
                                  else if lockFH cfg c \<noteq> nfs4OK then status e (lockFH cfg c) c
                                  else case lockConflictLocked (fh c) w r (store c) of
                                         Some (l, held) \<Rightarrow> encodeDenied l held e c
                                       | None \<Rightarrow> status e nfs4OK c, d))"

definition lock_release :: "'b config \<Rightarrow> time \<Rightarrow> nfsStat \<Rightarrow> nfsStat \<Rightarrow> lockRange \<Rightarrow> u32 \<Rightarrow> other
    \<Rightarrow> encoder \<Rightarrow> 'b compound \<Rightarrow> 'b result" where
  "lock_release cfg now typeStatus rangeStatus r sq k result c =
     (if typeStatus \<noteq> nfs4OK then status result typeStatus c
      else if rangeStatus \<noteq> nfs4OK then status result rangeStatus c
      else if lockFH cfg c \<noteq> nfs4OK then status result (lockFH cfg c) c
      else let ((locked, s), c) = on_store (resolveLockStateid sq k (fh c) now) c
           in if s \<noteq> nfs4OK then status result s c
              else let l = the locked; st = store c; x = hlock st l
                   in if map_of (locks st) k \<noteq> Some l
                          \<or> map_of (opens st) (o_other (hopen st (l_open x))) \<noteq> Some (l_open x)
                        then status result nfs4ErrBadStateID c
                      else let st = upd_lock l (\<lambda>y. y\<lparr>l_ranges := subtractRange (l_ranges y) r, l_seq := l_seq y + 1\<rparr>) st;
                               st = renewed now (l_client x) st
                           in (nfs4OK, encodeStateid (l_seq (hlock st l)) k (e_uint32 nfs4OK result), c\<lparr>store := st\<rparr>))"

definition op_lockU :: "'b config \<Rightarrow> time \<Rightarrow> decoder \<Rightarrow> encoder \<Rightarrow> 'b compound \<Rightarrow> 'b result \<times> decoder" where
  "op_lockU cfg now d e c =
     (let (typ, d) = d_uint32 d;
          (seqid, d) = d_uint32 d;
          ((sq, k), d) = decodeStateid d;
          (offset, d) = d_uint64 d;
          (len, d) = d_uint64 d
      in (if derr d \<noteq> None then status e nfs4ErrBadXDR c
          else let (_, typeStatus) = lockType typ;
                   (r, rangeStatus) = makeLockRange offset len False;
                   ((w, s), c) = on_store (ownerForStateid k now) c
               in if s \<noteq> nfs4OK then status e s c
                  else withSeqid (the w) opLockU seqid e (\<lambda>c. c)
                         (lock_release cfg now typeStatus rangeStatus r sq k) c, d))"

section \<open>RELEASE_LOCKOWNER\<close>

definition drop_owner_lock :: "addr \<Rightarrow> stateStore \<Rightarrow> other \<times> addr \<Rightarrow> stateStore" where
  "drop_owner_lock w st = (\<lambda>(k, l).
     if l_owner (hlock st l) = w
     then let st = st\<lparr>locks := AList.delete k (locks st)\<rparr>;
              st = st\<lparr>stateOwners := AList.delete k (stateOwners st)\<rparr>
          in removeLockStateLocked l st
     else st)"

text \<open>
  Between the two critical sections the code re-reads the client and the owner; in one step nothing
  changes in between.
\<close>

definition op_releaseLockOwner :: "time \<Rightarrow> decoder \<Rightarrow> encoder \<Rightarrow> 'b compound \<Rightarrow> 'b result \<times> decoder" where
  "op_releaseLockOwner now d e c =
     (let (clientID, d) = d_uint64 d;
          (ownerID, d) = d_opaque maxLockOwnerID d
      in (if derr d \<noteq> None then status e nfs4ErrBadXDR c
          else case map_of (confirmed (store c)) clientID of
                 None \<Rightarrow> status e (if map_of (expiredIDs (store c)) clientID \<noteq> None then nfs4ErrExpired else nfs4ErrStaleClientID) c
               | Some cl \<Rightarrow>
                   let c = upd_store (renewed now cl) c;
                       key = map byte_char ownerID
                   in case map_of (c_lockOwners (hclient (store c) cl)) key of
                        None \<Rightarrow> status e nfs4OK c
                      | Some w \<Rightarrow>
                          if list_ex (\<lambda>(k, l). l_owner (hlock (store c) l) = w \<and> length (l_ranges (hlock (store c) l)) \<noteq> 0)
                               (locks (store c))
                          then status e nfs4ErrLocksHeld c
                          else let c = upd_store (\<lambda>st. foldl (drop_owner_lock w) st (locks st)) c;
                                   c = upd_store (upd_client cl (\<lambda>x. x\<lparr>c_lockOwners := AList.delete key (c_lockOwners x)\<rparr>)) c
                               in status e nfs4OK c, d))"

end
