(* ===== verification/Nfs_Compound.thy ===== *)
theory Nfs_Compound
  imports Nfs_Data_Ops Nfs_Lock_Ops
begin

text \<open>
  Dispatch: the operation table and the COMPOUND loop of \<^verbatim>\<open>nfs4/compound.go\<close>, the RPC entry point \<^verbatim>\<open>handleRecord\<close>
  of \<^verbatim>\<open>nfs4/conn.go\<close> and the state a server starts with (\<^verbatim>\<open>Server.init\<close> of \<^verbatim>\<open>nfs4/server.go\<close>). The clock and the
  random source are functions of the position of the operation in the request.
\<close>

section \<open>Dispatch\<close>

type_synonym 'b handler = "decoder \<Rightarrow> encoder \<Rightarrow> 'b compound \<Rightarrow> 'b result \<times> decoder"

definition opTable :: "'b config \<Rightarrow> bytes \<Rightarrow> time \<Rightarrow> u32 \<Rightarrow> 'b handler option" where
  "opTable cfg rnd now opnum =
     (if opnum = opAccess then Some (op_access cfg)
      else if opnum = opClose then Some (op_close cfg now)
      else if opnum = opCommit then Some (op_commit cfg)
      else if opnum = opCreate then Some (op_create cfg now)
      else if opnum = opDelegReturn then Some (op_delegReturn now)
      else if opnum = opGetAttr then Some (op_getAttr cfg)
      else if opnum = opGetFH then Some (op_getFH cfg)
      else if opnum = opLink then Some (op_link cfg now)
      else if opnum = opLock then Some (op_lock cfg now)
      else if opnum = opLockT then Some (op_lockT cfg now)
      else if opnum = opLockU then Some (op_lockU cfg now)
      else if opnum = opLookup then Some (op_lookup cfg)
      else if opnum = opLookupP then Some (op_lookupP cfg)
      else if opnum = opNVerify then Some (op_nVerify cfg)
      else if opnum = opOpen then Some (op_open cfg now)
      else if opnum = opOpenConfirm then Some (op_openConfirm now)
      else if opnum = opOpenDowngrade then Some (op_openDowngrade cfg now)
      else if opnum = opPutFH then Some (op_putFH cfg)
      else if opnum = opPutPubFH then Some op_putRootFH
      else if opnum = opPutRootFH then Some op_putRootFH
      else if opnum = opRead then Some (op_read cfg now)
      else if opnum = opReadDir then Some (op_readDir cfg now)
      else if opnum = opReadLink then Some (op_readLink cfg)
      else if opnum = opRemove then Some (op_remove cfg now)
      else if opnum = opRename then Some (op_rename cfg now)
      else if opnum = opRenew then Some (op_renew now)
      else if opnum = opRestoreFH then Some op_restoreFH
      else if opnum = opSaveFH then Some op_saveFH
      else if opnum = opSecInfo then Some (op_secInfo cfg)
      else if opnum = opSetAttr then Some (op_setAttr cfg now)
      else if opnum = opSetClientID then Some (op_setClientID cfg rnd now)
      else if opnum = opSetClientIDConfirm then Some (op_setClientIDConfirm cfg now)
      else if opnum = opVerify then Some (op_verify cfg)
      else if opnum = opWrite then Some (op_write cfg now)
      else if opnum = opReleaseLockOwner then Some (op_releaseLockOwner now)
      else None)"

abbreviation (input) opTableLen :: u32 where "opTableLen \<equiv> 40"

text \<open>
  The loop over the operations: how many are left, how many ran, and the position the results start at. It
  returns the status and the count of the reply.
\<close>

fun run_ops :: "'b config \<Rightarrow> (nat \<Rightarrow> time) \<Rightarrow> (nat \<Rightarrow> bytes) \<Rightarrow> nat \<Rightarrow> nat \<Rightarrow> nat \<Rightarrow> decoder \<Rightarrow> encoder \<Rightarrow> 'b compound
    \<Rightarrow> nfsStat \<times> nat \<times> encoder \<times> 'b compound" where
  "run_ops cfg clock rnd resultsFrom 0 count d e c = (nfs4OK, count, e, c)"
| "run_ops cfg clock rnd resultsFrom (Suc n) count d e c =
     (let (opnum, d) = d_uint32 d
      in if derr d \<noteq> None then (nfs4OK, count, e, c)
         else let mark = length e;
                  inside = (opnum \<ge> opAccess \<and> opnum < opTableLen)
              in case (if inside then opTable cfg (rnd count) (clock count) opnum else None) of
                   None \<Rightarrow>
                     if inside then (nfs4ErrNotSupp, Suc count, e_uint32 nfs4ErrNotSupp (e_uint32 opnum e), c)
                     else (nfs4ErrOpIllegal, Suc count, e_uint32 nfs4ErrOpIllegal (e_uint32 opIllegal e), c)
                 | Some op \<Rightarrow>
                     let ((s, e, c), d) = op d (e_uint32 opnum e) c;
                         (s, e) = (if length e - resultsFrom > responseCap cfg
                                   then (nfs4ErrResource, e_uint32 nfs4ErrResource (e_uint32 opnum (e_truncate mark e)))
                                   else (s, e))
                     in if s \<noteq> nfs4OK then (s, Suc count, e, c)
                        else run_ops cfg clock rnd resultsFrom n (Suc count) d e c)"

definition compound_sweep :: "'b config \<Rightarrow> time \<Rightarrow> 'b compound \<Rightarrow> 'b compound" where
  "compound_sweep cfg now c = (let (st, files) = sweepDue now (store c) in closeAll cfg files (c\<lparr>store := st\<rparr>))"

text \<open>\<open>None\<close> is arguments that did not decode, which the caller answers with GARBAGE_ARGS.\<close>

definition server_compound :: "'b config \<Rightarrow> (nat \<Rightarrow> time) \<Rightarrow> (nat \<Rightarrow> bytes) \<Rightarrow> u32 option \<Rightarrow> decoder \<Rightarrow> encoder \<Rightarrow> 'b compound
    \<Rightarrow> encoder option \<times> 'b compound" where
  "server_compound cfg clock rnd cr d e c =
     (let c = compound_sweep cfg (clock 0) c;
          (tag, d) = d_opaque maxTagBytes d;
          (minor, d) = d_uint32 d;
          (numOps, d) = d_uint32 d
      in if derr d \<noteq> None then (None, c)
         else let statusAt = length e;
                  e = e_uint32 0 e;
                  e = e_opaque tag e;
                  countAt = length e;
                  e = e_uint32 0 e;
                  (s, count, e, c) =
                    (if minor \<noteq> 0 then (nfs4ErrMinorVersMismatch, 0, e, c)
                     else if numOps > maxCompoundOps then (nfs4ErrResource, 0, e, c)
                     else run_ops cfg clock rnd (length e) (unat numOps) 0 d e
                            (c\<lparr>cred := cr, fh := [], hasFH := False, saved := [], hasSaved := False\<rparr>))
              in (Some (e_patchUint32 countAt (word_of_nat count) (e_patchUint32 statusAt s e)), c))"

section \<open>RPC\<close>

text \<open>\<open>None\<close> tears the connection down.\<close>

definition handleRecord :: "'b config \<Rightarrow> (nat \<Rightarrow> time) \<Rightarrow> (nat \<Rightarrow> bytes) \<Rightarrow> bytes \<Rightarrow> 'b compound \<Rightarrow> bytes option \<times> 'b compound" where
  "handleRecord cfg clock rnd data c =
     (let d = newDecoder data;
          (xid, d) = d_uint32 d;
          (mtype, d) = d_uint32 d;
          (rpcvers, d) = d_uint32 d
      in if derr d \<noteq> None \<or> mtype \<noteq> msgCall then (None, c)
         else if rpcvers \<noteq> rpcVersion
           then (Some (foldl (\<lambda>e v. e_uint32 v e) [] [xid, msgReply, replyDenied, rejectRPCMismatch, rpcVersion, rpcVersion]), c)
         else let (prog, d) = d_uint32 d;
                  (vers, d) = d_uint32 d;
                  (proc, d) = d_uint32 d;
                  (credFlavor, d) = d_uint32 d;
                  (credBody, d) = d_opaque maxCredBytes d;
                  (verfFlavor, d) = d_uint32 d;
                  (_, d) = d_opaque maxCredBytes d
              in if derr d \<noteq> None then (None, c)
                 else if verfFlavor \<noteq> authNone then (Some (authError xid authBadVerf []), c)
                 else let cr = (if credFlavor = authNone then Some None
                                else if credFlavor = authSys then map_option Some (parseAuthSys credBody)
                                else None)
                      in (case cr of
                            None \<Rightarrow> (Some (authError xid authBadCred []), c)
                          | Some cr \<Rightarrow>
                              if prog \<noteq> nfsProgram then (Some (acceptedHeader xid acceptProgUnavail []), c)
                              else if vers \<noteq> nfsVersion
                                then (Some (e_uint32 nfsVersion (e_uint32 nfsVersion (acceptedHeader xid acceptProgMismatch []))), c)
                              else if proc = procNull then (Some (acceptedHeader xid acceptSuccess []), c)
                              else if proc = procCompound
                                then let (r, c) = server_compound cfg clock rnd (map_option cr_uid cr) d (acceptedHeader xid acceptSuccess []) c
                                     in (case r of
                                           None \<Rightarrow> (Some (acceptedHeader xid acceptGarbageArgs []), c)
                                         | Some e \<Rightarrow> (Some e, c))
                              else (Some (acceptedHeader xid acceptProcUnavail []), c)))"

section \<open>A new server\<close>

definition server_init :: "'b config \<Rightarrow> bytes \<Rightarrow> 'b \<Rightarrow> 'b compound" where
  "server_init cfg rnd b =
     \<lparr>store = newStateStore (srv_lease cfg) 90000000000 rnd,
      exclusive = \<lparr>x_ttl = srv_lease cfg, x_max = maxExclusiveCreates, x_verfs = []\<rparr>,
      backend = b, closed = [], recalls = [],
      fhc = newFHCodec, dirs = newDirCache (srv_lease cfg) maxCachedDirEntries,
      cred = None, fh = [], hasFH = False, saved = [], hasSaved = False\<rparr>"

end
