(* ===== verification/Nfs_Inv.thy ===== *)
theory Nfs_Inv
  imports Nfs_Lock_Ops Nfs_Open_Ops
begin

text \<open>
  The invariant of the NFS state store and its preservation by the store's primitive changes: adding,
  updating and dropping opens, lock states and delegations. Each part of the invariant is a predicate on
  the fields it reads, so that a change to other fields leaves it alone.
\<close>

unbundle bit_operations_syntax

named_theorems nfs_frame \<open>reading a field after a primitive change\<close>

section \<open>Path indexes\<close>

text \<open>What a path index promises: which objects are listed where, each once.\<close>

definition idx_ok :: "(string \<Rightarrow> addr list) \<Rightarrow> addr set \<Rightarrow> (addr \<Rightarrow> string) \<Rightarrow> bool" where
  "idx_ok get live path \<longleftrightarrow> (\<forall>p. distinct (get p) \<and> set (get p) = {a \<in> live. path a = p})"

lemma idx_ok_cong: "(\<And>a. a \<in> live \<Longrightarrow> path a = path' a) \<Longrightarrow> idx_ok get live path = idx_ok get live path'"
  by (simp add: idx_ok_def cong: conj_cong)

lemma idx_okD: "idx_ok get live path \<Longrightarrow> a \<in> set (get p) \<longleftrightarrow> a \<in> live \<and> path a = p"
  by (simp add: idx_ok_def)

locale path_index =
  fixes get :: "string \<Rightarrow> 'i \<Rightarrow> addr list" and add :: "string \<Rightarrow> addr \<Rightarrow> 'i \<Rightarrow> 'i" and del :: "string \<Rightarrow> addr \<Rightarrow> 'i \<Rightarrow> 'i"
  assumes get_add: "get q (add p a i) = (if q = p then get p i @ [a] else get q i)"
    and get_del: "get q (del p a i) = (if q = p then remove1 a (get p i) else get q i)"
begin

lemma add_ok:
  assumes "idx_ok (\<lambda>p. get p i) live path" "a \<notin> live"
  shows "idx_ok (\<lambda>p. get p (add (path a) a i)) (insert a live) path"
  using assms by (auto simp: idx_ok_def get_add)

lemma del_ok:
  assumes "idx_ok (\<lambda>p. get p i) live path"
  shows "idx_ok (\<lambda>p. get p (del (path a) a i)) (live - {a}) path"
  using assms by (auto simp: idx_ok_def get_del distinct_remove1)

end

lemma idx_get_append: "idx_get q (idx_append p a idx) = (if q = p then idx_get p idx @ [a] else idx_get q idx)"
  by (simp add: idx_get_def idx_append_def)

lemma idx_get_remove: "idx_get q (idx_remove p a idx) = (if q = p then remove1 a (idx_get p idx) else idx_get q idx)"
  by (auto simp: idx_get_def idx_remove_def Let_def)

interpretation pidx: path_index idx_get idx_append idx_remove
  by unfold_locales (simp_all add: idx_get_append idx_get_remove)

section \<open>Tables\<close>

text \<open>A table from stateids to objects, each object carrying its own key.\<close>

definition tab_ok :: "(other \<times> addr) list \<Rightarrow> (addr \<Rightarrow> other) \<Rightarrow> bool" where
  "tab_ok tab key \<longleftrightarrow> distinct (map fst tab) \<and> (\<forall>k a. map_of tab k = Some a \<longrightarrow> key a = k)"

lemma tab_ok_Nil [simp]: "tab_ok [] key"
  by (simp add: tab_ok_def)

lemma tab_okD: "tab_ok tab key \<Longrightarrow> map_of tab k = Some a \<Longrightarrow> key a = k"
  by (simp add: tab_ok_def)

lemma tab_ok_vals: "tab_ok tab key \<Longrightarrow> a \<in> vals tab \<longleftrightarrow> map_of tab (key a) = Some a"
  by (auto simp: tab_ok_def vals_iff)

lemma tab_ok_set: "tab_ok tab key \<Longrightarrow> (k, a) \<in> set tab \<longleftrightarrow> a \<in> vals tab \<and> key a = k"
proof -
  assume t: "tab_ok tab key"
  then have "(k, a) \<in> set tab \<longleftrightarrow> map_of tab k = Some a" by (simp add: tab_ok_def map_of_eq_Some_iff)
  then show ?thesis using tab_okD [OF t, of k a] by (auto simp: tab_ok_vals [OF t])
qed

lemma tab_ok_cong:
  assumes "\<And>a. a \<in> vals tab \<Longrightarrow> key a = key' a"
  shows "tab_ok tab key = tab_ok tab key'"
proof -
  have "(map_of tab k = Some a \<longrightarrow> key a = k) = (map_of tab k = Some a \<longrightarrow> key' a = k)" for k a
  proof (cases "a \<in> vals tab")
    case False
    then show ?thesis by (auto simp: vals_iff)
  qed (simp add: assms)
  then show ?thesis by (simp add: tab_ok_def)
qed

lemma tab_ok_update:
  "tab_ok tab key \<Longrightarrow> key a = k \<Longrightarrow> tab_ok (AList.update k a tab) key"
  unfolding tab_ok_def by simp

lemma tab_ok_delete: "tab_ok tab key \<Longrightarrow> tab_ok (AList.delete k tab) key"
  unfolding tab_ok_def by simp

lemma vals_delete_one:
  assumes "tab_ok tab key" "key a = k" "a \<in> vals tab"
  shows "vals (AList.delete k tab) = vals tab - {a}"
proof (rule set_eqI)
  fix b
  note t = tab_ok_vals [OF assms(1)] and d = tab_ok_vals [OF tab_ok_delete [OF assms(1)], of _ k]
  have "b \<in> vals (AList.delete k tab) \<longleftrightarrow> key b \<noteq> k \<and> b \<in> vals tab" unfolding d t by simp
  moreover have "key b = k \<longleftrightarrow> b = a" if "b \<in> vals tab" using t that assms(2,3) by (metis option.inject)
  ultimately show "b \<in> vals (AList.delete k tab) \<longleftrightarrow> b \<in> vals tab - {a}" by blast
qed

section \<open>The invariant\<close>

abbreviation openset :: "stateStore \<Rightarrow> addr set" where "openset st \<equiv> vals (opens st)"
abbreviation lockset :: "stateStore \<Rightarrow> addr set" where "lockset st \<equiv> vals (locks st)"
abbreviation delegset :: "stateStore \<Rightarrow> addr set" where "delegset st \<equiv> vals (delegs st)"
abbreviation clientset :: "stateStore \<Rightarrow> addr set" where "clientset st \<equiv> vals (confirmed st)"

text \<open>Two opens of one path have different owners, and neither asks for what the other denies.\<close>

definition shares_ok :: "(addr \<Rightarrow> openState) \<Rightarrow> addr set \<Rightarrow> bool" where
  "shares_ok h A \<longleftrightarrow> (\<forall>a \<in> A. \<forall>b \<in> A. a \<noteq> b \<longrightarrow> o_path (h a) = o_path (h b)
     \<longrightarrow> o_owner (h a) \<noteq> o_owner (h b) \<and> o_access (h a) AND o_deny (h b) = 0)"

text \<open>
  Two lock states of one path have different owners, and no byte that one holds for writing is held by
  the other; every lock state's ranges are canonical.
\<close>

definition lockconf_ok :: "(addr \<Rightarrow> lockState) \<Rightarrow> addr set \<Rightarrow> bool" where
  "lockconf_ok h L \<longleftrightarrow> (\<forall>l \<in> L. lr_inv (l_ranges (h l)))
     \<and> (\<forall>l \<in> L. \<forall>m \<in> L. l \<noteq> m \<longrightarrow> l_path (h l) = l_path (h m)
         \<longrightarrow> l_owner (h l) \<noteq> l_owner (h m) \<and> held_as True (l_ranges (h l)) \<inter> held_bytes (l_ranges (h m)) = {})"

text \<open>Every lock state belongs to a live open of the same client on the same path.\<close>

definition lockopen_ok :: "(addr \<Rightarrow> lockState) \<Rightarrow> addr set \<Rightarrow> (addr \<Rightarrow> openState) \<Rightarrow> addr set \<Rightarrow> bool" where
  "lockopen_ok hl L ho A \<longleftrightarrow> (\<forall>l \<in> L. l_open (hl l) \<in> A \<and> o_path (ho (l_open (hl l))) = l_path (hl l)
     \<and> o_client (ho (l_open (hl l))) = l_client (hl l))"

text \<open>While a client holds a read delegation, no other client has the file open for writing or denies reading it.\<close>

definition deleg_ok :: "(addr \<Rightarrow> delegation) \<Rightarrow> addr set \<Rightarrow> (addr \<Rightarrow> openState) \<Rightarrow> addr set \<Rightarrow> bool" where
  "deleg_ok hg D ho A \<longleftrightarrow> (\<forall>d \<in> D. \<forall>a \<in> A. dg_path (hg d) = o_path (ho a) \<longrightarrow> dg_client (hg d) \<noteq> o_client (ho a)
     \<longrightarrow> o_access (ho a) AND shareWrite = 0 \<and> o_deny (ho a) AND denyRead = 0)"

text \<open>
  Every open and lock stateid routes to its owner, an open-owner or lock-owner of the client that holds it.
\<close>

definition routes_ok :: "(other \<times> addr) list \<Rightarrow> (addr \<Rightarrow> owner) \<Rightarrow> (addr \<Rightarrow> client) \<Rightarrow> addr set \<Rightarrow> (addr \<Rightarrow> openState)
    \<Rightarrow> addr set \<Rightarrow> (addr \<Rightarrow> lockState) \<Rightarrow> bool" where
  "routes_ok so hw hc A ho L hl \<longleftrightarrow>
     (\<forall>a \<in> A. map_of so (o_other (ho a)) = Some (o_owner (ho a)) \<and> w_client (hw (o_owner (ho a))) = o_client (ho a)
       \<and> o_owner (ho a) \<in> vals (c_openOwners (hc (o_client (ho a)))))
     \<and> (\<forall>l \<in> L. map_of so (l_other (hl l)) = Some (l_owner (hl l)) \<and> w_client (hw (l_owner (hl l))) = l_client (hl l)
       \<and> l_owner (hl l) \<in> vals (c_lockOwners (hc (l_client (hl l)))))"

text \<open>Stateids are the epoch followed by a number already issued; the three tables share none.\<close>

definition issued :: "bytes \<Rightarrow> u64 \<Rightarrow> other set" where
  "issued ep n = {k. \<exists>m. m \<le> n \<and> k = ep @ be_PutUint64 m}"

definition keys_ok :: "bytes \<Rightarrow> u64 \<Rightarrow> (other \<times> addr) list \<Rightarrow> (other \<times> addr) list \<Rightarrow> (other \<times> addr) list
    \<Rightarrow> (other \<times> addr) list \<Rightarrow> bool" where
  "keys_ok ep n so ot lt dt \<longleftrightarrow>
     dom (map_of so) \<union> dom (map_of ot) \<union> dom (map_of lt) \<union> dom (map_of dt) \<subseteq> issued ep n
     \<and> dom (map_of ot) \<inter> dom (map_of lt) = {} \<and> dom (map_of ot) \<inter> dom (map_of dt) = {}
     \<and> dom (map_of lt) \<inter> dom (map_of dt) = {}"

text \<open>The counters of a confirmed client count what it holds, within the limits.\<close>

definition counts_ok :: "addr set \<Rightarrow> (addr \<Rightarrow> client) \<Rightarrow> addr set \<Rightarrow> (addr \<Rightarrow> openState) \<Rightarrow> addr set
    \<Rightarrow> (addr \<Rightarrow> delegation) \<Rightarrow> bool" where
  "counts_ok C hc A ho D hg \<longleftrightarrow> (\<forall>c \<in> C.
     c_opens (hc c) = int (card {a \<in> A. o_client (ho a) = c}) \<and> c_opens (hc c) \<le> int maxOpensPerClient
     \<and> c_delegs (hc c) = int (card {d \<in> D. dg_client (hg d) = c}) \<and> c_delegs (hc c) \<le> int maxDelegationsPerClient)"

text \<open>Everything a client holds belongs to a confirmed client, except what client \<open>x\<close> holds while it is being dropped.\<close>

definition held_ok :: "addr set \<Rightarrow> addr set \<Rightarrow> (addr \<Rightarrow> openState) \<Rightarrow> addr set \<Rightarrow> (addr \<Rightarrow> lockState) \<Rightarrow> addr set
    \<Rightarrow> (addr \<Rightarrow> delegation) \<Rightarrow> bool" where
  "held_ok C A ho L hl D hg \<longleftrightarrow> (\<forall>a \<in> A. o_client (ho a) \<in> C) \<and> (\<forall>l \<in> L. l_client (hl l) \<in> C)
     \<and> (\<forall>d \<in> D. dg_client (hg d) \<in> C)"

text \<open>Addresses in use are below the allocation counter.\<close>

definition addrs_ok :: "addr \<Rightarrow> addr set \<Rightarrow> addr set \<Rightarrow> addr set \<Rightarrow> addr set \<Rightarrow> addr set \<Rightarrow> addr set \<Rightarrow> bool" where
  "addrs_ok n A L D C U W \<longleftrightarrow> (\<forall>a \<in> A \<union> L \<union> D \<union> C \<union> U \<union> W. a < n)"

text \<open>Each client's owner tables hold owners of that client, and no owner is both an open-owner and a lock-owner.\<close>

definition owners_ok :: "addr \<Rightarrow> (addr \<Rightarrow> client) \<Rightarrow> (addr \<Rightarrow> owner) \<Rightarrow> bool" where
  "owners_ok n hc hw \<longleftrightarrow> (\<forall>c. \<forall>w \<in> vals (c_openOwners (hc c)) \<union> vals (c_lockOwners (hc c)). w < n \<and> w_client (hw w) = c)
     \<and> (\<forall>c. vals (c_openOwners (hc c)) \<inter> vals (c_lockOwners (hc c)) = {})"

text \<open>Client records: the tables agree with the records, and one client identifier has one confirmed record.\<close>

definition clients_ok :: "u64 \<Rightarrow> (u64 \<times> addr) list \<Rightarrow> (u64 \<times> addr) list \<Rightarrow> (string \<times> addr) list \<Rightarrow> (addr \<Rightarrow> client) \<Rightarrow> bool" where
  "clients_ok n cf un bo hc \<longleftrightarrow>
     (\<forall>i c. map_of cf i = Some c \<longrightarrow> c_id (hc c) = i \<and> i \<le> n \<and> map_of bo (c_ownerID (hc c)) = Some c)
     \<and> (\<forall>i c. map_of un i = Some c \<longrightarrow> c_id (hc c) = i \<and> i \<le> n)
     \<and> (\<forall>i. map_of cf i = None \<or> map_of un i = None)
     \<and> (\<forall>i c. map_of un i = Some c \<longrightarrow> c_opens (hc c) = 0 \<and> c_delegs (hc c) = 0)
     \<and> (\<forall>p c. map_of bo p = Some c \<longrightarrow> c \<in> vals cf \<and> c_ownerID (hc c) = p)"

text \<open>
  The invariant, with \<open>X\<close> the clients that are being dropped: what they hold need not be routed or backed
  any more.
\<close>

definition inv_tables :: "stateStore \<Rightarrow> bool" where
  "inv_tables st \<longleftrightarrow> tab_ok (opens st) (\<lambda>a. o_other (hopen st a)) \<and> tab_ok (locks st) (\<lambda>l. l_other (hlock st l))
     \<and> tab_ok (delegs st) (\<lambda>d. dg_other (hdeleg st d))
     \<and> idx_ok (\<lambda>p. idx_get p (byPath st)) (openset st) (\<lambda>a. o_path (hopen st a))
     \<and> idx_ok (\<lambda>p. idx_get p (locksByPath st)) (lockset st) (\<lambda>l. l_path (hlock st l))
     \<and> idx_ok (\<lambda>p. idx_get p (delegsByPath st)) (delegset st) (\<lambda>d. dg_path (hdeleg st d))
     \<and> keys_ok (epoch st) (nextOther st) (stateOwners st) (opens st) (locks st) (delegs st)
     \<and> addrs_ok (nextAddr st) (openset st) (lockset st) (delegset st) (clientset st) (vals (unconfirmed st)) (vals (stateOwners st))
     \<and> distinct (map fst (stateOwners st)) \<and> distinct (map fst (confirmed st)) \<and> distinct (map fst (unconfirmed st))"

definition inv_conflicts :: "stateStore \<Rightarrow> bool" where
  "inv_conflicts st \<longleftrightarrow> shares_ok (hopen st) (openset st) \<and> lockconf_ok (hlock st) (lockset st)
     \<and> deleg_ok (hdeleg st) (delegset st) (hopen st) (openset st)"

definition inv_clients :: "addr set \<Rightarrow> stateStore \<Rightarrow> bool" where
  "inv_clients X st \<longleftrightarrow>
     lockopen_ok (hlock st) {l \<in> lockset st. l_client (hlock st l) \<notin> X} (hopen st) (openset st)
     \<and> routes_ok (stateOwners st) (howner st) (hclient st) {a \<in> openset st. o_client (hopen st a) \<notin> X} (hopen st)
         {l \<in> lockset st. l_client (hlock st l) \<notin> X} (hlock st)
     \<and> counts_ok (clientset st) (hclient st) (openset st) (hopen st) (delegset st) (hdeleg st)
     \<and> held_ok (clientset st \<union> X) (openset st) (hopen st) (lockset st) (hlock st) (delegset st) (hdeleg st)
     \<and> owners_ok (nextAddr st) (hclient st) (howner st)
     \<and> clients_ok (nextClient st) (confirmed st) (unconfirmed st) (byOwner st) (hclient st)"

definition invx :: "addr set \<Rightarrow> stateStore \<Rightarrow> bool" where
  "invx X st \<longleftrightarrow> inv_tables st \<and> inv_conflicts st \<and> inv_clients X st"

abbreviation nfs_inv :: "stateStore \<Rightarrow> bool" where
  "nfs_inv \<equiv> invx {}"

lemmas inv_defs = invx_def inv_tables_def inv_conflicts_def inv_clients_def

section \<open>How each part changes\<close>

lemma finite_vals [simp]: "finite (vals m)"
  by (rule finite_subset [of _ "snd ` set m"]) (force simp: vals_iff dest: map_of_SomeD)+

lemma shares_ok_cong: "(\<And>a. a \<in> A \<Longrightarrow> h a = h' a) \<Longrightarrow> shares_ok h A = shares_ok h' A"
  by (simp add: shares_ok_def)

lemma shares_ok_subset: "shares_ok h A \<Longrightarrow> B \<subseteq> A \<Longrightarrow> shares_ok h B"
  by (auto simp: shares_ok_def)

lemma shares_ok_insert:
  assumes "shares_ok h A"
    and "\<And>b. b \<in> A \<Longrightarrow> b \<noteq> a \<Longrightarrow> o_path (h b) = o_path x \<Longrightarrow> o_owner (h b) \<noteq> o_owner x
      \<and> o_access x AND o_deny (h b) = 0 \<and> o_access (h b) AND o_deny x = 0"
  shows "shares_ok (h(a := x)) (insert a A)"
  unfolding shares_ok_def
proof (intro ballI impI)
  fix b c assume *: "b \<in> insert a A" "c \<in> insert a A" "b \<noteq> c" "o_path ((h(a := x)) b) = o_path ((h(a := x)) c)"
  consider "b = a" "c \<noteq> a" "c \<in> A" | "c = a" "b \<noteq> a" "b \<in> A" | "b \<noteq> a" "c \<noteq> a" "b \<in> A" "c \<in> A" using * by auto
  then show "o_owner ((h(a := x)) b) \<noteq> o_owner ((h(a := x)) c) \<and> o_access ((h(a := x)) b) AND o_deny ((h(a := x)) c) = 0"
  proof cases
    case 1
    with assms(2) [of c] * show ?thesis by auto
  next
    case 2
    with assms(2) [of b] * show ?thesis by auto
  next
    case 3
    with assms(1) * show ?thesis by (auto simp: shares_ok_def)
  qed
qed

lemma deleg_ok_cong:
  "(\<And>d. d \<in> D \<Longrightarrow> hg d = hg' d) \<Longrightarrow> (\<And>a. a \<in> A \<Longrightarrow> ho a = ho' a) \<Longrightarrow> deleg_ok hg D ho A = deleg_ok hg' D ho' A"
  by (simp add: deleg_ok_def)

lemma deleg_ok_subset: "deleg_ok hg D ho A \<Longrightarrow> D' \<subseteq> D \<Longrightarrow> A' \<subseteq> A \<Longrightarrow> deleg_ok hg D' ho A'"
  unfolding deleg_ok_def by blast

lemma deleg_ok_insert_open:
  assumes "deleg_ok hg D ho A"
    and "\<And>d. d \<in> D \<Longrightarrow> dg_path (hg d) = o_path x \<Longrightarrow> dg_client (hg d) \<noteq> o_client x
      \<Longrightarrow> o_access x AND shareWrite = 0 \<and> o_deny x AND denyRead = 0"
  shows "deleg_ok hg D (ho(a := x)) (insert a A)"
  using assms by (auto simp: deleg_ok_def)

lemma deleg_ok_insert_deleg:
  assumes "deleg_ok hg D ho A"
    and "\<And>b. b \<in> A \<Longrightarrow> o_path (ho b) = dg_path x \<Longrightarrow> o_client (ho b) \<noteq> dg_client x
      \<Longrightarrow> o_access (ho b) AND shareWrite = 0 \<and> o_deny (ho b) AND denyRead = 0"
  shows "deleg_ok (hg(d := x)) (insert d D) ho A"
  using assms by (auto simp: deleg_ok_def)

text \<open>Two range lists that can be held by different owners.\<close>

definition compat :: "lockRange list \<Rightarrow> lockRange list \<Rightarrow> bool" where
  "compat rs ss \<longleftrightarrow> held_as True rs \<inter> held_bytes ss = {} \<and> held_as True ss \<inter> held_bytes rs = {}"

lemma lockconf_ok_cong: "(\<And>a. a \<in> A \<Longrightarrow> h a = h' a) \<Longrightarrow> lockconf_ok h A = lockconf_ok h' A"
  by (simp add: lockconf_ok_def)

lemma lockconf_ok_subset: "lockconf_ok h A \<Longrightarrow> B \<subseteq> A \<Longrightarrow> lockconf_ok h B"
  unfolding lockconf_ok_def by blast

lemma lockconf_ok_insert:
  assumes "lockconf_ok h L" "lr_inv (l_ranges x)"
    and "\<And>m. m \<in> L \<Longrightarrow> m \<noteq> a \<Longrightarrow> l_path (h m) = l_path x \<Longrightarrow> l_owner (h m) \<noteq> l_owner x \<and> compat (l_ranges x) (l_ranges (h m))"
  shows "lockconf_ok (h(a := x)) (insert a L)"
  unfolding lockconf_ok_def
proof (intro conjI ballI impI)
  show "lr_inv (l_ranges ((h(a := x)) l))" if "l \<in> insert a L" for l
    using assms(1,2) that by (auto simp: lockconf_ok_def)
  fix l m assume *: "l \<in> insert a L" "m \<in> insert a L" "l \<noteq> m" "l_path ((h(a := x)) l) = l_path ((h(a := x)) m)"
  consider "l = a" "m \<noteq> a" "m \<in> L" | "m = a" "l \<noteq> a" "l \<in> L" | "l \<noteq> a" "m \<noteq> a" "l \<in> L" "m \<in> L" using * by auto
  then show "l_owner ((h(a := x)) l) \<noteq> l_owner ((h(a := x)) m)"
    "held_as True (l_ranges ((h(a := x)) l)) \<inter> held_bytes (l_ranges ((h(a := x)) m)) = {}"
    using assms(1) assms(3) [of l] assms(3) [of m] * by (cases; auto simp: lockconf_ok_def compat_def)+
qed

lemma no_conflict_disjoint:
  assumes "lr_inv rs" "lr_ok r" "find (\<lambda>h. rangesOverlap h r \<and> (lwrite h \<or> lwrite r)) rs = None"
  shows "held_as True rs \<inter> lcover r = {}" "lwrite r \<Longrightarrow> held_bytes rs \<inter> lcover r = {}"
proof -
  have ok: "\<And>h. h \<in> set rs \<Longrightarrow> lr_ok h" using assms(1) by (simp add: lr_inv_def)
  have no: "\<And>h. h \<in> set rs \<Longrightarrow> lwrite h \<or> lwrite r \<Longrightarrow> lcover h \<inter> lcover r = {}"
    using assms(3) overlap_iff [OF ok assms(2)] by (auto simp: find_None_iff)
  show "held_as True rs \<inter> lcover r = {}" using no by (fastforce simp: held_as_def)
  show "held_bytes rs \<inter> lcover r = {}" if "lwrite r" using no that by (fastforce simp: held_bytes_def)
qed

lemma held_bytes_single [simp]: "held_bytes [r] = lcover r"
  by (simp add: held_bytes_def)

lemma compat_single:
  assumes "lr_inv rs" "lr_ok r" "find (\<lambda>h. rangesOverlap h r \<and> (lwrite h \<or> lwrite r)) rs = None"
  shows "compat [r] rs"
  using no_conflict_disjoint [OF assms] by (auto simp: compat_def)

lemma compat_set:
  assumes "lr_inv mine" "compat mine rs" "lr_inv rs" "lr_ok r"
    "find (\<lambda>h. rangesOverlap h r \<and> (lwrite h \<or> lwrite r)) rs = None"
  shows "compat (setLockRange mine r) rs"
proof -
  note s = setLockRange_correct(2) [OF assms(1,4)]
  have "held_bytes (setLockRange mine r) \<subseteq> held_bytes mine \<union> lcover r"
    unfolding held_bytes_as s by auto
  moreover have "held_as True (setLockRange mine r) \<subseteq> held_as True mine \<union> (if lwrite r then lcover r else {})"
    unfolding s by auto
  ultimately show ?thesis
    using assms(2) no_conflict_disjoint [OF assms(3,4,5)] unfolding compat_def by (auto split: if_splits)
qed

lemma compat_subtract:
  assumes "lr_inv mine" "compat mine rs" "lr_ok r"
  shows "compat (subtractRange mine r) rs"
  using assms(2) unfolding compat_def held_bytes_as subtractRange_correct(2) [OF assms(1,3)] by blast

lemma lock_conflict_None:
  assumes "lock_conflict_in h w r ls = None" "l \<in> set ls" "Some (l_owner (h l)) \<noteq> w"
  shows "find (\<lambda>held. rangesOverlap held r \<and> (lwrite held \<or> lwrite r)) (l_ranges (h l)) = None"
  using assms
  by (induction h w r ls rule: lock_conflict_in.induct) (auto split: if_splits option.splits)

lemma addrs_ok_mono: "addrs_ok n A L D C U W \<Longrightarrow> n \<le> n' \<Longrightarrow> addrs_ok n' A L D C U W"
  unfolding addrs_ok_def using order_less_le_trans by blast

lemma held_ok_mono: "held_ok C A ho L hl D hg \<Longrightarrow> C \<subseteq> C' \<Longrightarrow> A' \<subseteq> A \<Longrightarrow> L' \<subseteq> L \<Longrightarrow> D' \<subseteq> D \<Longrightarrow> held_ok C' A' ho L' hl D' hg"
  unfolding held_ok_def by blast

section \<open>Changes to clients and owners\<close>

text \<open>A client record changed in fields the invariant does not read.\<close>

definition same_client :: "client \<Rightarrow> client \<Rightarrow> bool" where
  "same_client x y \<longleftrightarrow> c_id x = c_id y \<and> c_ownerID x = c_ownerID y \<and> c_opens x = c_opens y \<and> c_delegs x = c_delegs y
     \<and> c_openOwners x = c_openOwners y \<and> c_lockOwners x = c_lockOwners y"

lemma inv_clients_hclient:
  assumes "\<And>c. same_client (hc c) (hclient st c)"
  shows "inv_clients X (st\<lparr>hclient := hc\<rparr>) = inv_clients X st"
  using assms
  by (simp add: inv_clients_def routes_ok_def counts_ok_def owners_ok_def clients_ok_def same_client_def)

lemma invx_upd_client:
  assumes "same_client (f (hclient st c)) (hclient st c)"
  shows "invx X (upd_client c f st) = invx X st"
  using inv_clients_hclient [of "(hclient st)(c := f (hclient st c))" st X] assms
  by (simp add: upd_client_def invx_def inv_tables_def inv_conflicts_def same_client_def)

lemma invx_renewed [simp]: "invx X (renewed now c st) = invx X st"
  by (simp add: renewed_def invx_upd_client same_client_def)

lemma inv_clients_howner:
  assumes "\<And>w. w_client (hw w) = w_client (howner st w)"
  shows "inv_clients X (st\<lparr>howner := hw\<rparr>) = inv_clients X st"
  using assms by (simp add: inv_clients_def routes_ok_def owners_ok_def)

lemma invx_upd_owner:
  assumes "w_client (f (howner st w)) = w_client (howner st w)"
  shows "invx X (upd_owner w f st) = invx X st"
  using inv_clients_howner [of "(howner st)(w := f (howner st w))" st X] assms
  by (simp add: upd_owner_def invx_def inv_tables_def inv_conflicts_def)

text \<open>Tables the invariant does not read.\<close>

lemma invx_tombstones [simp]:
  "invx X (st\<lparr>expired := m\<rparr>) = invx X st" "invx X (st\<lparr>expiredIDs := i\<rparr>) = invx X st"
  "invx X (st\<lparr>revokedDelegs := m\<rparr>) = invx X st" "invx X (st\<lparr>lastSweep := t\<rparr>) = invx X st"
  by (simp_all add: inv_defs)

lemma owners_ok_new:
  assumes "owners_ok n hc hw" "map_of (c_openOwners (hc c)) key = None \<or> map_of (c_lockOwners (hc c)) key = None"
    "hc' = hc(c := (hc c)\<lparr>c_openOwners := AList.update key n (c_openOwners (hc c))\<rparr>) \<and> map_of (c_openOwners (hc c)) key = None
     \<or> hc' = hc(c := (hc c)\<lparr>c_lockOwners := AList.update key n (c_lockOwners (hc c))\<rparr>) \<and> map_of (c_lockOwners (hc c)) key = None"
  shows "owners_ok (Suc n) hc' (hw(n := fresh_owner key c))"
proof -
  have lt: "w < n" "w_client (hw w) = d" if "w \<in> vals (c_openOwners (hc d)) \<or> w \<in> vals (c_lockOwners (hc d))" for w d
    using assms(1) that by (auto simp: owners_ok_def)
  have disj: "vals (c_openOwners (hc d)) \<inter> vals (c_lockOwners (hc d)) = {}" for d
    using assms(1) by (simp add: owners_ok_def)
  from assms(3) show ?thesis
  proof
    assume h: "hc' = hc(c := (hc c)\<lparr>c_openOwners := AList.update key n (c_openOwners (hc c))\<rparr>) \<and> map_of (c_openOwners (hc c)) key = None"
    then have v: "vals (c_openOwners (hc' d)) = (if d = c then insert n (vals (c_openOwners (hc c))) else vals (c_openOwners (hc d)))"
      "c_lockOwners (hc' d) = c_lockOwners (hc d)" for d by (auto simp: vals_update_fresh)
    show ?thesis unfolding owners_ok_def v using lt disj
      by (auto simp: fresh_owner_def less_Suc_eq dest: lt split: if_splits)
  next
    assume h: "hc' = hc(c := (hc c)\<lparr>c_lockOwners := AList.update key n (c_lockOwners (hc c))\<rparr>) \<and> map_of (c_lockOwners (hc c)) key = None"
    then have v: "vals (c_lockOwners (hc' d)) = (if d = c then insert n (vals (c_lockOwners (hc c))) else vals (c_lockOwners (hc d)))"
      "c_openOwners (hc' d) = c_openOwners (hc d)" for d by (auto simp: vals_update_fresh)
    show ?thesis unfolding owners_ok_def v using lt disj
      by (auto simp: fresh_owner_def less_Suc_eq dest: lt split: if_splits)
  qed
qed

lemma routes_ok_new_owner:
  assumes "routes_ok so hw hc A ho L hl" "owners_ok n hc hw"
    "\<And>d. vals (c_openOwners (hc d)) \<subseteq> vals (c_openOwners (hc' d))" "\<And>d. vals (c_lockOwners (hc d)) \<subseteq> vals (c_lockOwners (hc' d))"
  shows "routes_ok so (hw(n := x)) hc' A ho L hl"
proof -
  have "o_owner (ho a) < n" if "a \<in> A" for a
    using assms(1,2) that unfolding routes_ok_def owners_ok_def by blast
  moreover have "l_owner (hl l) < n" if "l \<in> L" for l
    using assms(1,2) that unfolding routes_ok_def owners_ok_def by blast
  ultimately have "\<forall>a \<in> A. o_owner (ho a) \<noteq> n" "\<forall>l \<in> L. l_owner (hl l) \<noteq> n"
    by (blast dest: less_imp_neq)+
  then show ?thesis
    using assms(1) subsetD [OF assms(3)] subsetD [OF assms(4)] unfolding routes_ok_def
    by auto
qed

lemma counts_ok_hc:
  assumes "\<And>c. c_opens (hc' c) = c_opens (hc c)" "\<And>c. c_delegs (hc' c) = c_delegs (hc c)"
  shows "counts_ok C hc' A ho D hg = counts_ok C hc A ho D hg"
  by (simp add: counts_ok_def assms)

lemma clients_ok_hc:
  assumes "\<And>c. c_opens (hc' c) = c_opens (hc c)" "\<And>c. c_delegs (hc' c) = c_delegs (hc c)"
    "\<And>c. c_id (hc' c) = c_id (hc c)" "\<And>c. c_ownerID (hc' c) = c_ownerID (hc c)"
  shows "clients_ok n cf un bo hc' = clients_ok n cf un bo hc"
  by (simp add: clients_ok_def assms)

text \<open>A new owner in one of a client's owner tables.\<close>

lemma invx_new_owner:
  assumes "invx X st"
    and f: "f = (\<lambda>x. x\<lparr>c_openOwners := AList.update key (nextAddr st) (c_openOwners x)\<rparr>) \<and> map_of (c_openOwners (hclient st c)) key = None
      \<or> f = (\<lambda>x. x\<lparr>c_lockOwners := AList.update key (nextAddr st) (c_lockOwners x)\<rparr>) \<and> map_of (c_lockOwners (hclient st c)) key = None"
  shows "invx X (upd_client c f
    (st\<lparr>howner := (howner st)(nextAddr st := fresh_owner key c), nextAddr := Suc (nextAddr st)\<rparr>))"
proof -
  let ?hc = "(hclient st)(c := f (hclient st c))" and ?hw = "(howner st)(nextAddr st := fresh_owner key c)"
  have i: "inv_tables st" "inv_conflicts st" "inv_clients X st" using assms(1) by (auto simp: invx_def)
  have o: "owners_ok (nextAddr st) (hclient st) (howner st)" using i(3) by (simp add: inv_clients_def)
  have "owners_ok (Suc (nextAddr st)) ?hc ?hw" using f by (intro owners_ok_new [OF o, of c key]) auto
  moreover have "routes_ok (stateOwners st) ?hw ?hc {a \<in> openset st. o_client (hopen st a) \<notin> X} (hopen st)
      {l \<in> lockset st. l_client (hlock st l) \<notin> X} (hlock st)"
    using i(3) f by (intro routes_ok_new_owner [OF _ o]) (auto simp: inv_clients_def vals_update_fresh)
  moreover have "counts_ok (clientset st) ?hc (openset st) (hopen st) (delegset st) (hdeleg st)"
    using i(3) f by (subst counts_ok_hc [of _ "hclient st"]) (auto simp: inv_clients_def)
  moreover have "clients_ok (nextClient st) (confirmed st) (unconfirmed st) (byOwner st) ?hc"
    using i(3) f by (subst clients_ok_hc [of _ "hclient st"]) (auto simp: inv_clients_def)
  moreover have "addrs_ok (Suc (nextAddr st)) (openset st) (lockset st) (delegset st) (clientset st) (vals (unconfirmed st)) (vals (stateOwners st))"
    by (rule addrs_ok_mono [of "nextAddr st"]) (use i(1) in \<open>simp_all add: inv_tables_def\<close>)
  ultimately show ?thesis
    using i by (simp add: invx_def inv_tables_def inv_conflicts_def inv_clients_def upd_client_def)
qed

text \<open>What an owner lookup returns.\<close>

lemma vals_mapI: "map_of m k = Some a \<Longrightarrow> a \<in> vals m"
  by (auto simp: vals_iff)

lemma owner_of_client:
  "invx X st \<Longrightarrow> w \<in> vals (c_openOwners (hclient st c)) \<union> vals (c_lockOwners (hclient st c)) \<Longrightarrow> w_client (howner st w) = c"
  by (auto simp: inv_defs owners_ok_def)

text \<open>Both owner lookups, over the table they use.\<close>

definition owner_in :: "(client \<Rightarrow> (string \<times> addr) list) \<Rightarrow> ((string \<times> addr) list \<Rightarrow> client \<Rightarrow> client)
    \<Rightarrow> u64 \<Rightarrow> string \<Rightarrow> time \<Rightarrow> stateStore \<Rightarrow> (addr option \<times> nfsStat) \<times> stateStore" where
  "owner_in tab put i key now st =
     (case map_of (confirmed st) i of
        None \<Rightarrow> ((None, if map_of (expiredIDs st) i \<noteq> None then nfs4ErrExpired else nfs4ErrStaleClientID), st)
      | Some c \<Rightarrow>
          let st = renewed now c st
          in case map_of (tab (hclient st c)) key of
               Some w \<Rightarrow> ((Some w, nfs4OK), st)
             | None \<Rightarrow>
                 if length (tab (hclient st c)) \<ge> maxOwnersPerClient then ((None, nfs4ErrResource), st)
                 else let w = nextAddr st;
                          st = st\<lparr>howner := (howner st)(w := fresh_owner key c), nextAddr := Suc w\<rparr>;
                          st = upd_client c (\<lambda>x. put (AList.update key w (tab x)) x) st
                      in ((Some w, nfs4OK), st))"

lemma ownerOf_in: "ownerOf = owner_in c_openOwners (\<lambda>m x. x\<lparr>c_openOwners := m\<rparr>)"
  by (simp add: fun_eq_iff ownerOf_def owner_in_def)

lemma lockOwnerOf_in: "lockOwnerOf = owner_in c_lockOwners (\<lambda>m x. x\<lparr>c_lockOwners := m\<rparr>)"
  by (simp add: fun_eq_iff lockOwnerOf_def owner_in_def)

lemma owner_in_inv:
  assumes "invx X st" "owner_in tab put i key now st = ((w, s), st')"
    and tab: "tab = c_openOwners \<and> put = (\<lambda>m x. x\<lparr>c_openOwners := m\<rparr>) \<or> tab = c_lockOwners \<and> put = (\<lambda>m x. x\<lparr>c_lockOwners := m\<rparr>)"
  shows "invx X st' \<and> (s = nfs4OK \<longrightarrow> (\<exists>c u. map_of (confirmed st') i = Some c
      \<and> w = Some u \<and> u \<in> vals (tab (hclient st' c)) \<and> w_client (howner st' u) = c))"
proof (cases "map_of (confirmed st) i")
  case None
  then show ?thesis using assms by (auto simp: owner_in_def split: if_splits)
next
  case (Some c)
  let ?st = "renewed now c st"
  have inv: "invx X ?st" using assms(1) by simp
  have cf: "map_of (confirmed ?st) i = Some c" using Some by (simp add: renewed_def upd_client_def)
  have own: "w_client (howner s' u) = c" if "invx X s'" "u \<in> vals (tab (hclient s' c))" for s' u
    using owner_of_client [OF that(1), of u c] that(2) tab by blast
  show ?thesis
  proof (cases "map_of (tab (hclient ?st c)) key")
    case u: (Some u)
    then have "st' = ?st" "w = Some u" using assms(2) Some by (auto simp: owner_in_def Let_def)
    then show ?thesis using inv cf vals_mapI [OF u] own [OF inv] by blast
  next
    case none: None
    show ?thesis
    proof (cases "length (tab (hclient ?st c)) \<ge> maxOwnersPerClient")
      case True
      then show ?thesis using assms(2) none Some inv by (auto simp: owner_in_def Let_def)
    next
      case False
      let ?new = "upd_client c (\<lambda>x. put (AList.update key (nextAddr ?st) (tab x)) x)
        (?st\<lparr>howner := (howner ?st)(nextAddr ?st := fresh_owner key c), nextAddr := Suc (nextAddr ?st)\<rparr>)"
      have new: "invx X ?new" using none tab by (intro invx_new_owner [OF inv]) auto
      have eq: "st' = ?new" "w = Some (nextAddr ?st)"
        using assms(2) none False Some by (auto simp: owner_in_def Let_def)
      have "nextAddr ?st \<in> vals (tab (hclient ?new c))"
        using none tab by (auto simp: upd_client_def vals_update_fresh)
      moreover have "map_of (confirmed ?new) i = Some c" using cf by (simp add: upd_client_def)
      ultimately show ?thesis using new eq own [OF new] by blast
    qed
  qed
qed

lemmas ownerOf_inv = owner_in_inv [where tab = c_openOwners and put = "\<lambda>m x. x\<lparr>c_openOwners := m\<rparr>", folded ownerOf_in, simplified]
  and lockOwnerOf_inv = owner_in_inv [where tab = c_lockOwners and put = "\<lambda>m x. x\<lparr>c_lockOwners := m\<rparr>", folded lockOwnerOf_in, simplified]

end
