(* ===== verification/Nfs_Inv_Open.thy ===== *)
theory Nfs_Inv_Open
  imports Nfs_Inv
begin

text \<open>
  The store invariant under changes to opens: a new open, an update of one, and the removal of one.
\<close>

unbundle bit_operations_syntax

section \<open>Fresh stateids\<close>

text \<open>The stateid counter can still be advanced \<open>n\<close> times without wrapping.\<close>

definition room :: "nat \<Rightarrow> stateStore \<Rightarrow> bool" where
  "room n st \<longleftrightarrow> unat (nextOther st) + n < 2 ^ 64"

lemma unat_next: "unat (n :: u64) + 1 < 2 ^ 64 \<Longrightarrow> unat (n + 1) = unat n + 1"
  using unat_add_lem [of n 1] by simp

lemma issued_fresh:
  assumes "unat n + 1 < 2 ^ 64"
  shows "ep @ be_PutUint64 (n + 1) \<notin> issued ep n" "issued ep n \<subseteq> issued ep (n + 1)" "ep @ be_PutUint64 (n + 1) \<in> issued ep (n + 1)"
  using unat_next [OF assms] by (auto simp: issued_def word_le_nat_alt)

lemma vals_update_sub: "vals (AList.update k v m) \<subseteq> insert v (vals m)"
  by (auto simp: vals_iff split: if_splits)

lemma keys_ok_fresh:
  assumes "keys_ok ep n so ot lt dt" "unat n + 1 < 2 ^ 64"
  defines "k \<equiv> ep @ be_PutUint64 (n + 1)"
  shows "map_of so k = None" "map_of ot k = None" "map_of lt k = None" "map_of dt k = None"
    "keys_ok ep (n + 1) so ot lt dt"
    "keys_ok ep (n + 1) (AList.update k w so) (AList.update k a ot) lt dt"
    "keys_ok ep (n + 1) (AList.update k w so) ot (AList.update k a lt) dt"
    "keys_ok ep (n + 1) so ot lt (AList.update k a dt)"
proof -
  have sub: "dom (map_of so) \<union> dom (map_of ot) \<union> dom (map_of lt) \<union> dom (map_of dt) \<subseteq> issued ep n"
    and disj: "dom (map_of ot) \<inter> dom (map_of lt) = {}" "dom (map_of ot) \<inter> dom (map_of dt) = {}" "dom (map_of lt) \<inter> dom (map_of dt) = {}"
    using assms(1) by (auto simp: keys_ok_def)
  note f = issued_fresh [OF assms(2), of ep, folded k_def]
  show n: "map_of so k = None" "map_of ot k = None" "map_of lt k = None" "map_of dt k = None"
    using sub f(1) by blast+
  have d: "dom (map_of (AList.update k v m)) = insert k (dom (map_of m))" for m :: "(other \<times> addr) list" and v
    by (auto split: if_splits)
  show "keys_ok ep (n + 1) so ot lt dt" using sub f(2) disj unfolding keys_ok_def by blast
  show "keys_ok ep (n + 1) (AList.update k w so) (AList.update k a ot) lt dt"
    "keys_ok ep (n + 1) (AList.update k w so) ot (AList.update k a lt) dt"
    "keys_ok ep (n + 1) so ot lt (AList.update k a dt)"
    unfolding keys_ok_def d using sub f(2,3) disj n by (simp_all add: domIff) blast+
qed

lemma inv_clients_none:
  "inv_clients {} st \<longleftrightarrow> lockopen_ok (hlock st) (lockset st) (hopen st) (openset st)
     \<and> routes_ok (stateOwners st) (howner st) (hclient st) (openset st) (hopen st) (lockset st) (hlock st)
     \<and> counts_ok (clientset st) (hclient st) (openset st) (hopen st) (delegset st) (hdeleg st)
     \<and> held_ok (clientset st) (openset st) (hopen st) (lockset st) (hlock st) (delegset st) (hdeleg st)
     \<and> owners_ok (nextAddr st) (hclient st) (howner st)
     \<and> clients_ok (nextClient st) (confirmed st) (unconfirmed st) (byOwner st) (hclient st)"
  by (simp add: inv_clients_def)

lemmas nfs_inv_defs = invx_def inv_tables_def inv_conflicts_def inv_clients_none

lemma owners_ok_mono:
  assumes "owners_ok n hc hw" "n \<le> n'" "\<And>c. c_openOwners (hc' c) = c_openOwners (hc c)" "\<And>c. c_lockOwners (hc' c) = c_lockOwners (hc c)"
  shows "owners_ok n' hc' hw"
  using assms unfolding owners_ok_def by (metis order_less_le_trans)

lemma clients_ok_disjoint: "clients_ok n cf un bo hc \<Longrightarrow> c \<in> vals cf \<Longrightarrow> c \<notin> vals un"
  unfolding clients_ok_def vals_iff by (metis option.distinct(1))

text \<open>A counter of a confirmed client changes.\<close>

lemma clients_ok_upd:
  assumes "clients_ok n cf un bo hc" "c \<in> vals cf" "c_id x = c_id (hc c)" "c_ownerID x = c_ownerID (hc c)"
  shows "clients_ok n cf un bo (hc(c := x))"
proof -
  have "c \<notin> vals un" using clients_ok_disjoint [OF assms(1,2)] .
  then show ?thesis using assms unfolding clients_ok_def by (auto simp: vals_mapI)
qed

section \<open>A new open\<close>

lemma counts_ok_add_open:
  assumes "counts_ok C hc A ho D hg" "finite A" "a \<notin> A" "c = o_client x" "c_opens (hc c) < int maxOpensPerClient"
  shows "counts_ok C (hc(c := (hc c)\<lparr>c_opens := c_opens (hc c) + 1\<rparr>)) (insert a A) (ho(a := x)) D hg"
proof -
  have "{b \<in> insert a A. o_client ((ho(a := x)) b) = d} = (if d = c then insert a {b \<in> A. o_client (ho b) = d} else {b \<in> A. o_client (ho b) = d})" for d
    using assms(3,4) by auto
  then show ?thesis using assms unfolding counts_ok_def by (auto simp: card_insert_if)
qed

lemma counts_ok_del_open:
  assumes "counts_ok C hc A ho D hg" "finite A" "a \<in> A" "c = o_client (ho a)"
  shows "counts_ok C (hc(c := (hc c)\<lparr>c_opens := c_opens (hc c) - 1\<rparr>)) (A - {a}) ho D hg"
proof -
  have eq: "{b \<in> A - {a}. o_client (ho b) = d} = (if d = c then {b \<in> A. o_client (ho b) = d} - {a} else {b \<in> A. o_client (ho b) = d})" for d
    using assms(4) by auto
  have "card {b \<in> A. o_client (ho b) = c} > 0" using assms(2,3,4) by (auto simp: card_gt_0_iff)
  then have "int (card ({b \<in> A. o_client (ho b) = c} - {a})) = int (card {b \<in> A. o_client (ho b) = c}) - 1"
    using assms(2,3,4) by (subst card_Diff_singleton) auto
  then show ?thesis using assms(1) unfolding counts_ok_def eq by auto
qed

text \<open>What \<^verbatim>\<open>openWith\<close> does to the store when the owner has no open of the file yet.\<close>

definition add_open :: "openState \<Rightarrow> stateStore \<Rightarrow> stateStore" where
  "add_open x st =
     (let k = epoch st @ be_PutUint64 (nextOther st + 1); a = nextAddr st
      in st\<lparr>nextOther := nextOther st + 1, hopen := (hopen st)(a := x\<lparr>o_other := k\<rparr>), nextAddr := Suc a,
        opens := AList.update k a (opens st), stateOwners := AList.update k (o_owner x) (stateOwners st),
        byPath := idx_append (o_path x) a (byPath st),
        hclient := (hclient st)(o_client x := (hclient st (o_client x))\<lparr>c_opens := c_opens (hclient st (o_client x)) + 1\<rparr>)\<rparr>)"

lemma nfs_inv_add_open:
  assumes inv: "nfs_inv st" and room: "room 1 st"
    and c: "o_client x \<in> clientset st" "o_owner x \<in> vals (c_openOwners (hclient st (o_client x)))"
    and share: "\<And>b. b \<in> openset st \<Longrightarrow> o_path (hopen st b) = o_path x \<Longrightarrow> o_owner (hopen st b) \<noteq> o_owner x
      \<and> o_access x AND o_deny (hopen st b) = 0 \<and> o_access (hopen st b) AND o_deny x = 0"
    and deleg: "\<And>d. d \<in> delegset st \<Longrightarrow> dg_path (hdeleg st d) = o_path x \<Longrightarrow> dg_client (hdeleg st d) \<noteq> o_client x
      \<Longrightarrow> o_access x AND shareWrite = 0 \<and> o_deny x AND denyRead = 0"
    and limit: "c_opens (hclient st (o_client x)) < int maxOpensPerClient"
  shows "nfs_inv (add_open x st)"
proof -
  define k where "k = epoch st @ be_PutUint64 (nextOther st + 1)"
  define a where "a = nextAddr st"
  define ho where "ho = (hopen st)(a := x\<lparr>o_other := k\<rparr>)"
  define hc where "hc = (hclient st)(o_client x := (hclient st (o_client x))\<lparr>c_opens := c_opens (hclient st (o_client x)) + 1\<rparr>)"
  note i = inv [unfolded nfs_inv_defs]
  have ks: "keys_ok (epoch st) (nextOther st) (stateOwners st) (opens st) (locks st) (delegs st)" using i by blast
  have n: "unat (nextOther st) + 1 < 2 ^ 64" using room by (simp add: room_def)
  note kf = keys_ok_fresh [OF ks n, folded k_def]
  have fresh: "a \<notin> openset st" "a \<notin> lockset st" "a \<notin> delegset st"
    using i unfolding a_def addrs_ok_def by auto
  have ho: "ho b = hopen st b" if "b \<in> openset st" for b using that fresh(1) by (auto simp: ho_def)
  have vo: "vals (AList.update k a (opens st)) = insert a (openset st)" by (rule vals_update_fresh [OF kf(2)])
  have st': "add_open x st = st\<lparr>nextOther := nextOther st + 1, hopen := ho, nextAddr := Suc a,
      opens := AList.update k a (opens st), stateOwners := AList.update k (o_owner x) (stateOwners st),
      byPath := idx_append (o_path x) a (byPath st), hclient := hc\<rparr>"
    by (simp add: add_open_def k_def a_def ho_def hc_def Let_def)
  have "tab_ok (AList.update k a (opens st)) (\<lambda>b. o_other (ho b))"
    using i tab_ok_cong [of "opens st" "\<lambda>b. o_other (ho b)" "\<lambda>b. o_other (hopen st b)"] ho
    by (intro tab_ok_update) (auto simp: ho_def)
  moreover have "idx_ok (\<lambda>p. idx_get p (idx_append (o_path x) a (byPath st))) (insert a (openset st)) (\<lambda>b. o_path (ho b))"
    using i idx_ok_cong [of "openset st" "\<lambda>b. o_path (ho b)" "\<lambda>b. o_path (hopen st b)"] ho fresh(1)
      pidx.add_ok [of "byPath st" "openset st" "\<lambda>b. o_path (ho b)" a] by (auto simp: ho_def)
  moreover have "addrs_ok (Suc a) (insert a (openset st)) (lockset st) (delegset st) (clientset st) (vals (unconfirmed st))
      (vals (AList.update k (o_owner x) (stateOwners st)))"
  proof -
    have "o_owner x < a" using i c(2) unfolding owners_ok_def a_def by blast
    then have "b < Suc a" if "b \<in> vals (AList.update k (o_owner x) (stateOwners st))" for b
      using that vals_update_sub [of k "o_owner x" "stateOwners st"] i unfolding addrs_ok_def a_def
      by (metis (no_types, lifting) UnI2 insertE less_Suc_eq subsetD)
    moreover have "\<forall>b \<in> openset st \<union> lockset st \<union> delegset st \<union> clientset st \<union> vals (unconfirmed st). b < Suc a"
      using i unfolding addrs_ok_def a_def by (blast intro: less_SucI)
    ultimately show ?thesis unfolding addrs_ok_def by auto
  qed
  ultimately have tables: "inv_tables (add_open x st)"
    using i kf(6) unfolding inv_tables_def st' by (simp add: vo)
  have "shares_ok ho (insert a (openset st))"
    unfolding ho_def using i share by (intro shares_ok_insert) auto
  moreover have "deleg_ok (hdeleg st) (delegset st) ho (insert a (openset st))"
    unfolding ho_def using i deleg by (intro deleg_ok_insert_open) auto
  ultimately have confl: "inv_conflicts (add_open x st)"
    using i unfolding inv_conflicts_def st' by (simp add: vo)
  have "lockopen_ok (hlock st) (lockset st) ho (insert a (openset st))"
    using i ho unfolding lockopen_ok_def by auto
  moreover have "routes_ok (AList.update k (o_owner x) (stateOwners st)) (howner st) hc (insert a (openset st)) ho (lockset st) (hlock st)"
  proof -
    have "o_other (hopen st b) \<noteq> k" if "b \<in> openset st" for b
      using that kf(2) i tab_ok_vals [of "opens st" "\<lambda>b. o_other (hopen st b)" b] by auto
    moreover have "l_other (hlock st l) \<noteq> k" if "l \<in> lockset st" for l
      using that kf(3) i tab_ok_vals [of "locks st" "\<lambda>l. l_other (hlock st l)" l] by auto
    moreover have "w_client (howner st (o_owner x)) = o_client x" using owner_of_client [OF inv] c(2) by blast
    moreover have "c_openOwners (hc d) = c_openOwners (hclient st d)" "c_lockOwners (hc d) = c_lockOwners (hclient st d)" for d
      by (simp_all add: hc_def)
    ultimately show ?thesis using i c(2) ho fresh(1) unfolding routes_ok_def by (simp add: ho_def)
  qed
  moreover have "counts_ok (clientset st) hc (insert a (openset st)) ho (delegset st) (hdeleg st)"
    unfolding hc_def ho_def using i fresh limit by (intro counts_ok_add_open) auto
  moreover have "held_ok (clientset st) (insert a (openset st)) ho (lockset st) (hlock st) (delegset st) (hdeleg st)"
    using i c(1) by (auto simp: held_ok_def ho_def)
  moreover have "owners_ok (Suc a) hc (howner st)"
    by (rule owners_ok_mono [of a "hclient st"]) (use i in \<open>auto simp: hc_def a_def\<close>)
  moreover have "clients_ok (nextClient st) (confirmed st) (unconfirmed st) (byOwner st) hc"
    unfolding hc_def using i c(1) by (intro clients_ok_upd) auto
  ultimately have "inv_clients {} (add_open x st)"
    unfolding inv_clients_none st' by (simp add: vo)
  with tables confl show ?thesis by (simp add: invx_def)
qed

section \<open>Updating an open\<close>

lemma invx_upd_open_same:
  assumes "o_other (f (hopen st a)) = o_other (hopen st a)" "o_client (f (hopen st a)) = o_client (hopen st a)"
    "o_owner (f (hopen st a)) = o_owner (hopen st a)" "o_path (f (hopen st a)) = o_path (hopen st a)"
    "o_access (f (hopen st a)) = o_access (hopen st a)" "o_deny (f (hopen st a)) = o_deny (hopen st a)"
  shows "invx X (upd_open a f st) = invx X st"
proof -
  define ho where "ho = (hopen st)(a := f (hopen st a))"
  have [simp]: "o_other (ho b) = o_other (hopen st b)" "o_client (ho b) = o_client (hopen st b)" "o_owner (ho b) = o_owner (hopen st b)"
    "o_path (ho b) = o_path (hopen st b)" "o_access (ho b) = o_access (hopen st b)" "o_deny (ho b) = o_deny (hopen st b)" for b
    using assms by (auto simp: ho_def)
  have "upd_open a f st = st\<lparr>hopen := ho\<rparr>" by (simp add: upd_open_def ho_def)
  then show ?thesis
    by (simp add: invx_def inv_tables_def inv_conflicts_def inv_clients_def shares_ok_def deleg_ok_def lockopen_ok_def
        routes_ok_def counts_ok_def held_ok_def)
qed

lemma nfs_inv_upd_open:
  assumes inv: "nfs_inv st" and a: "a \<in> openset st"
    and same: "o_other x = o_other (hopen st a)" "o_client x = o_client (hopen st a)" "o_owner x = o_owner (hopen st a)" "o_path x = o_path (hopen st a)"
    and share: "\<And>b. b \<in> openset st \<Longrightarrow> b \<noteq> a \<Longrightarrow> o_path (hopen st b) = o_path x \<Longrightarrow> o_access x AND o_deny (hopen st b) = 0 \<and> o_access (hopen st b) AND o_deny x = 0"
    and deleg: "\<And>d. d \<in> delegset st \<Longrightarrow> dg_path (hdeleg st d) = o_path x \<Longrightarrow> dg_client (hdeleg st d) \<noteq> o_client x
      \<Longrightarrow> o_access x AND shareWrite = 0 \<and> o_deny x AND denyRead = 0"
  shows "nfs_inv (st\<lparr>hopen := (hopen st)(a := x)\<rparr>)"
proof -
  define ho where "ho = (hopen st)(a := x)"
  note i = inv [unfolded nfs_inv_defs]
  have [simp]: "o_other (ho b) = o_other (hopen st b)" "o_client (ho b) = o_client (hopen st b)" "o_owner (ho b) = o_owner (hopen st b)"
    "o_path (ho b) = o_path (hopen st b)" for b
    using same by (auto simp: ho_def)
  have ins: "insert a (openset st) = openset st" using a by auto
  have "shares_ok ho (insert a (openset st))" unfolding ho_def
  proof (rule shares_ok_insert)
    show "shares_ok (hopen st) (openset st)" using i by blast
    fix b assume b: "b \<in> openset st" "b \<noteq> a" "o_path (hopen st b) = o_path x"
    then have "o_owner (hopen st b) \<noteq> o_owner x" using i a same unfolding shares_ok_def by metis
    with share [OF b] show "o_owner (hopen st b) \<noteq> o_owner x \<and> o_access x AND o_deny (hopen st b) = 0 \<and> o_access (hopen st b) AND o_deny x = 0"
      by blast
  qed
  moreover have "deleg_ok (hdeleg st) (delegset st) ho (insert a (openset st))"
    unfolding ho_def using i deleg by (intro deleg_ok_insert_open) auto
  ultimately have "inv_conflicts (st\<lparr>hopen := ho\<rparr>)" using i by (simp add: inv_conflicts_def ins)
  moreover have "inv_tables (st\<lparr>hopen := ho\<rparr>)" using i by (simp add: inv_tables_def)
  moreover have "inv_clients {} (st\<lparr>hopen := ho\<rparr>)"
  proof -
    have "lockopen_ok (hlock st) L ho A = lockopen_ok (hlock st) L (hopen st) A"
      "routes_ok so hw hc A ho L hl = routes_ok so hw hc A (hopen st) L hl" "counts_ok C hc A ho D hd = counts_ok C hc A (hopen st) D hd"
      "held_ok C A ho L hl D hd = held_ok C A (hopen st) L hl D hd" for L A so hw hc hl C D hd
      by (simp_all add: lockopen_ok_def routes_ok_def counts_ok_def held_ok_def)
    with i show ?thesis by (simp add: inv_clients_none)
  qed
  ultimately show ?thesis by (simp add: invx_def ho_def)
qed

section \<open>Dropping opens\<close>

lemma keys_ok_sub:
  assumes "keys_ok ep n so ot lt dt" "dom (map_of so') \<subseteq> dom (map_of so)" "dom (map_of ot') \<subseteq> dom (map_of ot)"
    "dom (map_of lt') \<subseteq> dom (map_of lt)" "dom (map_of dt') \<subseteq> dom (map_of dt)"
  shows "keys_ok ep n so' ot' lt' dt'"
proof -
  have d: "S' \<inter> T' = {}" if "S \<inter> T = {}" "S' \<subseteq> S" "T' \<subseteq> T" for S T S' T' :: "bytes set" using that by blast
  have u: "S' \<union> T' \<union> U' \<union> V' \<subseteq> I" if "S \<union> T \<union> U \<union> V \<subseteq> I" "S' \<subseteq> S" "T' \<subseteq> T" "U' \<subseteq> U" "V' \<subseteq> V"
    for S T U V S' T' U' V' I :: "bytes set" using that by blast
  note k = assms(1) [unfolded keys_ok_def]
  show ?thesis unfolding keys_ok_def
  proof (intro conjI)
    show "dom (map_of so') \<union> dom (map_of ot') \<union> dom (map_of lt') \<union> dom (map_of dt') \<subseteq> issued ep n"
      using k assms(2-5) by (rule u [OF conjunct1])
    show "dom (map_of ot') \<inter> dom (map_of lt') = {}" by (rule d) (use k assms in simp_all)
    show "dom (map_of ot') \<inter> dom (map_of dt') = {}" by (rule d) (use k assms in simp_all)
    show "dom (map_of lt') \<inter> dom (map_of dt') = {}" by (rule d) (use k assms in simp_all)
  qed
qed

lemma dom_delete_sub: "dom (map_of (AList.delete k m)) \<subseteq> dom (map_of m)"
  by (auto split: if_splits)

lemma addrs_ok_sub:
  "addrs_ok n A L D C U W \<Longrightarrow> A' \<subseteq> A \<Longrightarrow> L' \<subseteq> L \<Longrightarrow> D' \<subseteq> D \<Longrightarrow> C' \<subseteq> C \<Longrightarrow> U' \<subseteq> U \<Longrightarrow> W' \<subseteq> W \<Longrightarrow> addrs_ok n A' L' D' C' U' W'"
  unfolding addrs_ok_def by blast

text \<open>Forgetting the route of a stateid that no open or lock state uses.\<close>

lemma invx_del_route:
  assumes "invx X st" "\<And>a. a \<in> openset st \<Longrightarrow> o_client (hopen st a) \<notin> X \<Longrightarrow> o_other (hopen st a) \<noteq> k"
    "\<And>l. l \<in> lockset st \<Longrightarrow> l_client (hlock st l) \<notin> X \<Longrightarrow> l_other (hlock st l) \<noteq> k"
  shows "invx X (st\<lparr>stateOwners := AList.delete k (stateOwners st)\<rparr>)"
proof -
  note i = assms(1) [unfolded inv_defs]
  have "keys_ok (epoch st) (nextOther st) (AList.delete k (stateOwners st)) (opens st) (locks st) (delegs st)"
    by (rule keys_ok_sub [of _ _ "stateOwners st" "opens st" "locks st" "delegs st"]) (use i in \<open>simp_all only: dom_delete_sub order_refl\<close>)
  moreover have "addrs_ok (nextAddr st) (openset st) (lockset st) (delegset st) (clientset st) (vals (unconfirmed st)) (vals (AList.delete k (stateOwners st)))"
    by (rule addrs_ok_sub [of _ "openset st" "lockset st" "delegset st" "clientset st" "vals (unconfirmed st)" "vals (stateOwners st)"])
      (use i in \<open>simp_all only: vals_delete_sub order_refl\<close>)
  moreover have "routes_ok (AList.delete k (stateOwners st)) (howner st) (hclient st) {a \<in> openset st. o_client (hopen st a) \<notin> X} (hopen st)
         {l \<in> lockset st. l_client (hlock st l) \<notin> X} (hlock st)"
    using i assms(2,3) unfolding routes_ok_def by auto
  ultimately show ?thesis using i by (simp add: inv_defs)
qed

text \<open>Taking an open out of its table and its index.\<close>

definition unlist_open :: "addr \<Rightarrow> stateStore \<Rightarrow> stateStore" where
  "unlist_open a st = st\<lparr>opens := AList.delete (o_other (hopen st a)) (opens st),
     byPath := idx_remove (o_path (hopen st a)) a (byPath st)\<rparr>"

lemma unlist_open_tables:
  assumes "inv_tables st" "a \<in> openset st"
  shows "inv_tables (unlist_open a st)" "openset (unlist_open a st) = openset st - {a}"
proof -
  note i = assms(1) [unfolded inv_tables_def]
  show v: "openset (unlist_open a st) = openset st - {a}"
    using vals_delete_one [of "opens st" "\<lambda>b. o_other (hopen st b)"] i assms(2) by (simp add: unlist_open_def)
  have "keys_ok (epoch st) (nextOther st) (stateOwners st) (opens (unlist_open a st)) (locks st) (delegs st)"
    by (rule keys_ok_sub [of _ _ "stateOwners st" "opens st" "locks st" "delegs st"])
      (use i in \<open>simp_all add: unlist_open_def dom_delete_sub del: delete_conv'\<close>)
  moreover have "addrs_ok (nextAddr st) (openset st - {a}) (lockset st) (delegset st) (clientset st) (vals (unconfirmed st)) (vals (stateOwners st))"
    by (rule addrs_ok_sub [of _ "openset st" "lockset st" "delegset st" "clientset st" "vals (unconfirmed st)" "vals (stateOwners st)"])
      (use i in auto)
  ultimately show "inv_tables (unlist_open a st)"
    using i v pidx.del_ok [of "byPath st" "openset st" "\<lambda>b. o_path (hopen st b)" a]
    unfolding inv_tables_def by (simp add: unlist_open_def tab_ok_delete)
qed

lemma unlist_open_conflicts:
  assumes "inv_tables st" "inv_conflicts st" "a \<in> openset st"
  shows "inv_conflicts (unlist_open a st)"
  using assms(2) unlist_open_tables(2) [OF assms(1,3)]
    shares_ok_subset [of "hopen st" "openset st" "openset st - {a}"]
    deleg_ok_subset [of "hdeleg st" "delegset st" "hopen st" "openset st" "delegset st" "openset st - {a}"]
  by (simp add: inv_conflicts_def unlist_open_def)

lemma lockopen_ok_drop:
  "lockopen_ok hl L ho A \<Longrightarrow> (\<And>l. l \<in> L \<Longrightarrow> l_open (hl l) \<noteq> a) \<Longrightarrow> lockopen_ok hl L ho (A - {a})"
  unfolding lockopen_ok_def by blast

lemma routes_ok_drop:
  "routes_ok so hw hc A ho L hl \<Longrightarrow> A' \<subseteq> A \<Longrightarrow> L' \<subseteq> L \<Longrightarrow> routes_ok so hw hc A' ho L' hl"
  unfolding routes_ok_def by blast

lemma routes_ok_clients:
  assumes "\<And>x. c_openOwners (hc' x) = c_openOwners (hc x)" "\<And>x. c_lockOwners (hc' x) = c_lockOwners (hc x)"
  shows "routes_ok so hw hc' A ho L hl = routes_ok so hw hc A ho L hl"
  using assms by (simp add: routes_ok_def)

lemma counts_ok_sets:
  assumes "counts_ok C hc A ho D hg" "\<And>c. c \<in> C \<Longrightarrow> {a \<in> A'. o_client (ho a) = c} = {a \<in> A. o_client (ho a) = c}"
    "\<And>c. c \<in> C \<Longrightarrow> {d \<in> D'. dg_client (hg d) = c} = {d \<in> D. dg_client (hg d) = c}"
  shows "counts_ok C hc A' ho D' hg"
  unfolding counts_ok_def
proof
  fix c assume c: "c \<in> C"
  with assms(1) show "c_opens (hc c) = int (card {a \<in> A'. o_client (ho a) = c}) \<and> c_opens (hc c) \<le> int maxOpensPerClient
      \<and> c_delegs (hc c) = int (card {d \<in> D'. dg_client (hg d) = c}) \<and> c_delegs (hc c) \<le> int maxDelegationsPerClient"
    unfolding counts_ok_def assms(2,3) [OF c] by blast
qed

lemma held_ok_drop:
  "held_ok C A ho L hl D hg \<Longrightarrow> A' \<subseteq> A \<Longrightarrow> L' \<subseteq> L \<Longrightarrow> D' \<subseteq> D \<Longrightarrow> held_ok C A' ho L' hl D' hg"
  unfolding held_ok_def by blast

text \<open>An open of a client that is being dropped.\<close>

lemma invx_release_open:
  assumes "invx {c} st" "a \<in> openset st" "o_client (hopen st a) = c" "c \<notin> clientset st"
  shows "invx {c} (unlist_open a st)"
proof -
  have ic: "inv_tables st" "inv_conflicts st" and i: "inv_clients {c} st" using assms(1) by (auto simp: invx_def)
  note v = unlist_open_tables(2) [OF ic(1) assms(2)]
  note i = i [unfolded inv_clients_def]
  have "lockopen_ok (hlock st) {l \<in> lockset st. l_client (hlock st l) \<notin> {c}} (hopen st) (openset st - {a})"
  proof (rule lockopen_ok_drop)
    show *: "lockopen_ok (hlock st) {l \<in> lockset st. l_client (hlock st l) \<notin> {c}} (hopen st) (openset st)" using i by blast
    fix l assume "l \<in> {l \<in> lockset st. l_client (hlock st l) \<notin> {c}}"
    with * assms(3) show "l_open (hlock st l) \<noteq> a" by (auto simp: lockopen_ok_def)
  qed
  moreover have "routes_ok (stateOwners st) (howner st) (hclient st) {b \<in> openset st - {a}. o_client (hopen st b) \<notin> {c}} (hopen st)
         {l \<in> lockset st. l_client (hlock st l) \<notin> {c}} (hlock st)"
    by (rule routes_ok_drop [of _ _ _ "{b \<in> openset st. o_client (hopen st b) \<notin> {c}}" _ "{l \<in> lockset st. l_client (hlock st l) \<notin> {c}}"])
      (use i in auto)
  moreover have "{b \<in> openset st - {a}. o_client (hopen st b) = d} = {b \<in> openset st. o_client (hopen st b) = d}" if "d \<in> clientset st" for d
    using assms(3,4) that by auto
  then have "counts_ok (clientset st) (hclient st) (openset st - {a}) (hopen st) (delegset st) (hdeleg st)"
    using i by (auto intro: counts_ok_sets)
  moreover have "held_ok (clientset st \<union> {c}) (openset st - {a}) (hopen st) (lockset st) (hlock st) (delegset st) (hdeleg st)"
    by (rule held_ok_drop [of _ "openset st" _ "lockset st" _ "delegset st"]) (use i in auto)
  ultimately have "inv_clients {c} (unlist_open a st)"
    using i v unfolding inv_clients_def by (simp add: unlist_open_def)
  then show ?thesis using unlist_open_tables(1) [OF ic(1) assms(2)] unlist_open_conflicts [OF ic assms(2)]
    by (simp add: invx_def)
qed

text \<open>An open that its client closes, with no lock state left on it.\<close>

lemma nfs_inv_close_open:
  assumes "nfs_inv st" "a \<in> openset st" "\<And>l. l \<in> lockset st \<Longrightarrow> l_open (hlock st l) \<noteq> a"
  shows "nfs_inv (upd_client (o_client (hopen st a)) (\<lambda>x. x\<lparr>c_opens := c_opens x - 1\<rparr>) (unlist_open a st))"
proof -
  let ?c = "o_client (hopen st a)"
  let ?hc = "(hclient st)(?c := (hclient st ?c)\<lparr>c_opens := c_opens (hclient st ?c) - 1\<rparr>)"
  have ic: "inv_tables st" "inv_conflicts st" and i: "inv_clients {} st" using assms(1) by (auto simp: invx_def)
  note v = unlist_open_tables(2) [OF ic(1) assms(2)]
  note i = i [unfolded inv_clients_none]
  have C: "?c \<in> clientset st" using i assms(2) by (simp add: held_ok_def)
  have "lockopen_ok (hlock st) (lockset st) (hopen st) (openset st - {a})"
    using i assms(3) by (intro lockopen_ok_drop) auto
  moreover have "routes_ok (stateOwners st) (howner st) ?hc (openset st - {a}) (hopen st) (lockset st) (hlock st)"
  proof -
    have "routes_ok (stateOwners st) (howner st) ?hc (openset st) (hopen st) (lockset st) (hlock st)"
      using i by (subst routes_ok_clients [of _ "hclient st"]) auto
    then show ?thesis by (rule routes_ok_drop) auto
  qed
  moreover have "counts_ok (clientset st) ?hc (openset st - {a}) (hopen st) (delegset st) (hdeleg st)"
    using i assms(2) by (intro counts_ok_del_open) auto
  moreover have "held_ok (clientset st) (openset st - {a}) (hopen st) (lockset st) (hlock st) (delegset st) (hdeleg st)"
    by (rule held_ok_drop [of _ "openset st" _ "lockset st" _ "delegset st"]) (use i in auto)
  moreover have "owners_ok (nextAddr st) ?hc (howner st)"
    by (rule owners_ok_mono [of "nextAddr st" "hclient st"]) (use i in auto)
  moreover have "clients_ok (nextClient st) (confirmed st) (unconfirmed st) (byOwner st) ?hc"
    using i C by (intro clients_ok_upd) auto
  ultimately have "inv_clients {} (upd_client ?c (\<lambda>x. x\<lparr>c_opens := c_opens x - 1\<rparr>) (unlist_open a st))"
    using v unfolding inv_clients_none by (simp add: unlist_open_def upd_client_def)
  moreover have "inv_tables (upd_client ?c f (unlist_open a st))" "inv_conflicts (upd_client ?c f (unlist_open a st))" for f
    using unlist_open_tables(1) [OF ic(1) assms(2)] unlist_open_conflicts [OF ic assms(2)]
    by (simp_all add: upd_client_def inv_tables_def inv_conflicts_def)
  ultimately show ?thesis by (simp add: invx_def)
qed

end
