(* ===== verification/Nfs_Inv_Held.thy ===== *)
theory Nfs_Inv_Held
  imports Nfs_Inv_Open
begin

text \<open>
  The store invariant under changes to lock states and delegations, and under the loops that drop
  a set of objects from a table.
\<close>

unbundle bit_operations_syntax

section \<open>Lock states\<close>

definition unlist_lock :: "addr \<Rightarrow> stateStore \<Rightarrow> stateStore" where
  "unlist_lock l st = st\<lparr>locks := AList.delete (l_other (hlock st l)) (locks st),
     locksByPath := idx_remove (l_path (hlock st l)) l (locksByPath st)\<rparr>"

lemma invx_unlist_lock:
  assumes "invx X st" "l \<in> lockset st"
  shows "invx X (unlist_lock l st)" "lockset (unlist_lock l st) = lockset st - {l}"
proof -
  note i = assms(1) [unfolded inv_defs]
  show v: "lockset (unlist_lock l st) = lockset st - {l}"
    using vals_delete_one [of "locks st" "\<lambda>l. l_other (hlock st l)"] i assms(2) by (simp add: unlist_lock_def)
  have "keys_ok (epoch st) (nextOther st) (stateOwners st) (opens st) (locks (unlist_lock l st)) (delegs st)"
    by (rule keys_ok_sub [of _ _ "stateOwners st" "opens st" "locks st" "delegs st"])
      (use i in \<open>simp_all add: unlist_lock_def dom_delete_sub del: delete_conv'\<close>)
  moreover have "addrs_ok (nextAddr st) (openset st) (lockset st - {l}) (delegset st) (clientset st) (vals (unconfirmed st)) (vals (stateOwners st))"
    by (rule addrs_ok_sub [of _ "openset st" "lockset st" "delegset st" "clientset st" "vals (unconfirmed st)" "vals (stateOwners st)"])
      (use i in auto)
  ultimately have "inv_tables (unlist_lock l st)"
    using i v pidx.del_ok [of "locksByPath st" "lockset st" "\<lambda>l. l_path (hlock st l)" l]
    unfolding inv_tables_def by (simp add: unlist_lock_def tab_ok_delete)
  moreover have "inv_conflicts (unlist_lock l st)"
    using i v lockconf_ok_subset [of "hlock st" "lockset st" "lockset st - {l}"]
    by (simp add: inv_conflicts_def unlist_lock_def)
  moreover have "inv_clients X (unlist_lock l st)"
  proof -
    let ?L = "{l \<in> lockset st. l_client (hlock st l) \<notin> X}" and ?L' = "{m \<in> lockset st - {l}. l_client (hlock st m) \<notin> X}"
    let ?A = "{a \<in> openset st. o_client (hopen st a) \<notin> X}"
    have "lockopen_ok (hlock st) ?L (hopen st) (openset st)" using i by blast
    then have "lockopen_ok (hlock st) ?L' (hopen st) (openset st)" unfolding lockopen_ok_def by blast
    moreover have "routes_ok (stateOwners st) (howner st) (hclient st) ?A (hopen st) ?L' (hlock st)"
      by (rule routes_ok_drop [of _ _ _ ?A _ ?L]) (use i in auto)
    moreover have "held_ok (clientset st \<union> X) (openset st) (hopen st) (lockset st - {l}) (hlock st) (delegset st) (hdeleg st)"
      by (rule held_ok_drop [of _ "openset st" _ "lockset st" _ "delegset st"]) (use i in auto)
    ultimately show ?thesis using i v unfolding inv_clients_def by (simp add: unlist_lock_def)
  qed
  ultimately show "invx X (unlist_lock l st)" by (simp add: invx_def)
qed

lemma lock_key:
  assumes "inv_tables st" "l \<in> lockset st"
  shows "a \<in> openset st \<Longrightarrow> o_other (hopen st a) \<noteq> l_other (hlock st l)"
    "m \<in> lockset st \<Longrightarrow> l_other (hlock st m) = l_other (hlock st l) \<Longrightarrow> m = l"
proof -
  note i = assms(1) [unfolded inv_tables_def keys_ok_def]
  have l: "map_of (locks st) (l_other (hlock st l)) = Some l" using i assms(2) tab_ok_vals [of "locks st"] by auto
  show "o_other (hopen st a) \<noteq> l_other (hlock st l)" if "a \<in> openset st"
  proof
    assume eq: "o_other (hopen st a) = l_other (hlock st l)"
    have "map_of (opens st) (o_other (hopen st a)) = Some a" using i that tab_ok_vals [of "opens st" "\<lambda>a. o_other (hopen st a)"] by auto
    with l eq i show False by (metis disjoint_iff domI)
  qed
  show "m = l" if "m \<in> lockset st" "l_other (hlock st m) = l_other (hlock st l)"
    using i that l tab_ok_vals [of "locks st" "\<lambda>l. l_other (hlock st l)" m] by auto
qed

text \<open>A lock state goes together with the route of its stateid.\<close>

lemma invx_drop_lock:
  assumes "invx X st" "l \<in> lockset st" "k = l_other (hlock st l)"
  shows "invx X ((unlist_lock l st)\<lparr>stateOwners := AList.delete k (stateOwners st)\<rparr>)"
proof -
  have u: "invx X (unlist_lock l st)" "lockset (unlist_lock l st) = lockset st - {l}" by (rule invx_unlist_lock [OF assms(1,2)])+
  have t: "inv_tables st" using assms(1) by (simp add: invx_def)
  have [simp]: "hlock (unlist_lock l st) = hlock st" "hopen (unlist_lock l st) = hopen st" "opens (unlist_lock l st) = opens st"
    "stateOwners (unlist_lock l st) = stateOwners st" by (simp_all add: unlist_lock_def)
  have "invx X ((unlist_lock l st)\<lparr>stateOwners := AList.delete k (stateOwners (unlist_lock l st))\<rparr>)"
    using lock_key [OF t assms(2)] assms(3) by (intro invx_del_route u(1)) (auto simp: u(2))
  then show ?thesis by simp
qed

text \<open>New ranges for a lock state that no other owner's ranges conflict with.\<close>

lemma nfs_inv_upd_lock:
  assumes inv: "nfs_inv st" and l: "l \<in> lockset st"
    and same: "l_other x = l_other (hlock st l)" "l_client x = l_client (hlock st l)" "l_owner x = l_owner (hlock st l)"
      "l_open x = l_open (hlock st l)" "l_path x = l_path (hlock st l)"
    and ranges: "lr_inv (l_ranges x)"
      "\<And>m. m \<in> lockset st \<Longrightarrow> m \<noteq> l \<Longrightarrow> l_path (hlock st m) = l_path x \<Longrightarrow> compat (l_ranges x) (l_ranges (hlock st m))"
  shows "nfs_inv (st\<lparr>hlock := (hlock st)(l := x)\<rparr>)"
proof -
  define hl where "hl = (hlock st)(l := x)"
  note i = inv [unfolded nfs_inv_defs]
  have [simp]: "l_other (hl b) = l_other (hlock st b)" "l_client (hl b) = l_client (hlock st b)" "l_owner (hl b) = l_owner (hlock st b)"
    "l_open (hl b) = l_open (hlock st b)" "l_path (hl b) = l_path (hlock st b)" for b
    using same by (auto simp: hl_def)
  have ins: "insert l (lockset st) = lockset st" using l by auto
  have "lockconf_ok hl (insert l (lockset st))" unfolding hl_def
  proof (rule lockconf_ok_insert)
    show "lockconf_ok (hlock st) (lockset st)" using i by blast
    fix m assume m: "m \<in> lockset st" "m \<noteq> l" "l_path (hlock st m) = l_path x"
    then have "l_owner (hlock st m) \<noteq> l_owner x" using i l same unfolding lockconf_ok_def by metis
    with ranges(2) [OF m] show "l_owner (hlock st m) \<noteq> l_owner x \<and> compat (l_ranges x) (l_ranges (hlock st m))" by blast
  qed (rule ranges(1))
  then have "inv_conflicts (st\<lparr>hlock := hl\<rparr>)" using i by (simp add: inv_conflicts_def ins)
  moreover have "inv_tables (st\<lparr>hlock := hl\<rparr>)" using i by (simp add: inv_tables_def)
  moreover have "inv_clients {} (st\<lparr>hlock := hl\<rparr>)"
  proof -
    have "lockopen_ok hl L ho A = lockopen_ok (hlock st) L ho A" "routes_ok so hw hc A ho L hl = routes_ok so hw hc A ho L (hlock st)"
      "held_ok C A ho L hl D hg = held_ok C A ho L (hlock st) D hg" for L A so hw hc ho C D hg
      by (simp_all add: lockopen_ok_def routes_ok_def held_ok_def)
    with i show ?thesis by (simp add: inv_clients_none)
  qed
  ultimately show ?thesis by (simp add: invx_def hl_def)
qed

lemma lock_conflict_others:
  assumes "inv_tables st" "lockConflictLocked p (Some w) r st = None" "m \<in> lockset st" "l_path (hlock st m) = p" "l_owner (hlock st m) \<noteq> w"
  shows "find (\<lambda>held. rangesOverlap held r \<and> (lwrite held \<or> lwrite r)) (l_ranges (hlock st m)) = None"
proof (rule lock_conflict_None [of _ "Some w"])
  show "lock_conflict_in (hlock st) (Some w) r (idx_get p (locksByPath st)) = None" using assms(2) by (simp add: lockConflictLocked_def)
  show "m \<in> set (idx_get p (locksByPath st))" using assms(1,3,4) by (auto simp: inv_tables_def idx_ok_def)
qed (use assms(5) in simp)

section \<open>A new lock state\<close>

lemma nfs_inv_add_lock:
  assumes inv: "nfs_inv st" and room: "room 1 st" and o': "o' \<in> openset st" "o_path (hopen st o') = p"
    and w: "w \<in> vals (c_lockOwners (hclient st (o_client (hopen st o'))))"
    and r: "lr_ok r" and none: "findLockStateLocked p w st = None" and free: "lockConflictLocked p (Some w) r st = None"
  shows "nfs_inv (snd (add_lock o' w p r st))"
proof -
  define k where "k = epoch st @ be_PutUint64 (nextOther st + 1)"
  define a where "a = nextAddr st"
  define x where "x = \<lparr>l_other = k, l_seq = 1, l_client = o_client (hopen st o'), l_owner = w, l_open = o', l_path = p, l_ranges = [r]\<rparr>"
  define hl where "hl = (hlock st)(a := x)"
  note i = inv [unfolded nfs_inv_defs]
  have tab: "inv_tables st" using inv by (simp add: invx_def)
  have ks: "keys_ok (epoch st) (nextOther st) (stateOwners st) (opens st) (locks st) (delegs st)" using i by blast
  have n: "unat (nextOther st) + 1 < 2 ^ 64" using room by (simp add: room_def)
  note kf = keys_ok_fresh [OF ks n, folded k_def]
  have fresh: "a \<notin> lockset st" using i unfolding a_def addrs_ok_def by auto
  have hl: "hl b = hlock st b" if "b \<in> lockset st" for b using that fresh by (auto simp: hl_def)
  have vl: "vals (AList.update k a (locks st)) = insert a (lockset st)" by (rule vals_update_fresh [OF kf(3)])
  have st': "snd (add_lock o' w p r st) = st\<lparr>nextOther := nextOther st + 1, hlock := hl, nextAddr := Suc a,
      locks := AList.update k a (locks st), stateOwners := AList.update k w (stateOwners st), locksByPath := idx_append p a (locksByPath st)\<rparr>"
    by (simp add: add_lock_def newOther_def k_def a_def hl_def x_def Let_def)
  have "tab_ok (AList.update k a (locks st)) (\<lambda>b. l_other (hl b))"
    using i tab_ok_cong [of "locks st" "\<lambda>b. l_other (hl b)" "\<lambda>b. l_other (hlock st b)"] hl
    by (intro tab_ok_update) (auto simp: hl_def x_def)
  moreover have "idx_ok (\<lambda>q. idx_get q (idx_append p a (locksByPath st))) (insert a (lockset st)) (\<lambda>b. l_path (hl b))"
    using i idx_ok_cong [of "lockset st" "\<lambda>b. l_path (hl b)" "\<lambda>b. l_path (hlock st b)"] hl fresh
      pidx.add_ok [of "locksByPath st" "lockset st" "\<lambda>b. l_path (hl b)" a] by (auto simp: hl_def x_def)
  moreover have "addrs_ok (Suc a) (openset st) (insert a (lockset st)) (delegset st) (clientset st) (vals (unconfirmed st))
      (vals (AList.update k w (stateOwners st)))"
  proof -
    have "w < a" using i w unfolding owners_ok_def a_def by blast
    then have "b < Suc a" if "b \<in> vals (AList.update k w (stateOwners st))" for b
      using that vals_update_sub [of k w "stateOwners st"] i unfolding addrs_ok_def a_def
      by (metis (no_types, lifting) UnI2 insertE less_Suc_eq subsetD)
    moreover have "\<forall>b \<in> openset st \<union> lockset st \<union> delegset st \<union> clientset st \<union> vals (unconfirmed st). b < Suc a"
      using i unfolding addrs_ok_def a_def by (blast intro: less_SucI)
    ultimately show ?thesis unfolding addrs_ok_def by auto
  qed
  ultimately have tables: "inv_tables (snd (add_lock o' w p r st))"
    using i kf(7) unfolding inv_tables_def st' by (simp add: vl)
  have "lockconf_ok hl (insert a (lockset st))" unfolding hl_def
  proof (rule lockconf_ok_insert)
    show lc: "lockconf_ok (hlock st) (lockset st)" using i by blast
    show "lr_inv (l_ranges x)" using r by (simp add: x_def lr_inv_def)
    fix m assume m: "m \<in> lockset st" "l_path (hlock st m) = l_path x"
    then have "m \<in> set (idx_get p (locksByPath st))" using i by (auto simp: idx_ok_def x_def)
    then have "l_owner (hlock st m) \<noteq> w" using none by (auto simp: findLockStateLocked_def find_None_iff)
    moreover from this have "compat [r] (l_ranges (hlock st m))"
      using compat_single [OF _ r lock_conflict_others [OF tab free m(1)]] m lc by (simp add: x_def lockconf_ok_def)
    ultimately show "l_owner (hlock st m) \<noteq> l_owner x \<and> compat (l_ranges x) (l_ranges (hlock st m))" by (simp add: x_def)
  qed
  then have confl: "inv_conflicts (snd (add_lock o' w p r st))"
    using i unfolding inv_conflicts_def st' by (simp add: vl)
  have "lockopen_ok hl (insert a (lockset st)) (hopen st) (openset st)"
    using i hl o' unfolding lockopen_ok_def by (auto simp: hl_def x_def)
  moreover have "routes_ok (AList.update k w (stateOwners st)) (howner st) (hclient st) (openset st) (hopen st) (insert a (lockset st)) hl"
  proof -
    have "o_other (hopen st b) \<noteq> k" if "b \<in> openset st" for b
      using that kf(2) i tab_ok_vals [of "opens st" "\<lambda>b. o_other (hopen st b)" b] by auto
    moreover have "l_other (hlock st l) \<noteq> k" if "l \<in> lockset st" for l
      using that kf(3) i tab_ok_vals [of "locks st" "\<lambda>l. l_other (hlock st l)" l] by auto
    moreover have "w_client (howner st w) = o_client (hopen st o')" using owner_of_client [OF inv] w by blast
    ultimately show ?thesis using i w hl fresh unfolding routes_ok_def by (simp add: hl_def x_def)
  qed
  moreover have "held_ok (clientset st) (openset st) (hopen st) (insert a (lockset st)) hl (delegset st) (hdeleg st)"
    using i o' by (auto simp: held_ok_def hl_def x_def)
  moreover have "owners_ok (Suc a) (hclient st) (howner st)"
    by (rule owners_ok_mono [of a "hclient st"]) (use i in \<open>auto simp: a_def\<close>)
  ultimately have "inv_clients {} (snd (add_lock o' w p r st))"
    using i unfolding inv_clients_none st' by (simp add: vl)
  with tables confl show ?thesis by (simp add: invx_def)
qed

section \<open>Delegations\<close>

lemma invx_upd_deleg_same:
  assumes "dg_other (f (hdeleg st d)) = dg_other (hdeleg st d)" "dg_client (f (hdeleg st d)) = dg_client (hdeleg st d)"
    "dg_path (f (hdeleg st d)) = dg_path (hdeleg st d)"
  shows "invx X (upd_deleg d f st) = invx X st"
proof -
  define hg where "hg = (hdeleg st)(d := f (hdeleg st d))"
  have [simp]: "dg_other (hg b) = dg_other (hdeleg st b)" "dg_client (hg b) = dg_client (hdeleg st b)" "dg_path (hg b) = dg_path (hdeleg st b)" for b
    using assms by (auto simp: hg_def)
  have "upd_deleg d f st = st\<lparr>hdeleg := hg\<rparr>" by (simp add: upd_deleg_def hg_def)
  then show ?thesis
    by (simp add: invx_def inv_tables_def inv_conflicts_def inv_clients_def deleg_ok_def counts_ok_def held_ok_def)
qed

lemma counts_ok_del_deleg:
  assumes "counts_ok C hc A ho D hg" "finite D" "d \<in> D" "c = dg_client (hg d)"
  shows "counts_ok C (hc(c := (hc c)\<lparr>c_delegs := c_delegs (hc c) - 1\<rparr>)) A ho (D - {d}) hg"
proof -
  have eq: "{b \<in> D - {d}. dg_client (hg b) = e} = (if e = c then {b \<in> D. dg_client (hg b) = e} - {d} else {b \<in> D. dg_client (hg b) = e})" for e
    using assms(4) by auto
  have "card {b \<in> D. dg_client (hg b) = c} > 0" using assms(2,3,4) by (auto simp: card_gt_0_iff)
  then have "int (card ({b \<in> D. dg_client (hg b) = c} - {d})) = int (card {b \<in> D. dg_client (hg b) = c}) - 1"
    using assms(2,3,4) by (subst card_Diff_singleton) auto
  then show ?thesis using assms(1) unfolding counts_ok_def eq by auto
qed

lemma counts_ok_add_deleg:
  assumes "counts_ok C hc A ho D hg" "finite D" "d \<notin> D" "c = dg_client x" "c_delegs (hc c) < int maxDelegationsPerClient"
  shows "counts_ok C (hc(c := (hc c)\<lparr>c_delegs := c_delegs (hc c) + 1\<rparr>)) A ho (insert d D) (hg(d := x))"
proof -
  have "{b \<in> insert d D. dg_client ((hg(d := x)) b) = e} = (if e = c then insert d {b \<in> D. dg_client (hg b) = e} else {b \<in> D. dg_client (hg b) = e})" for e
    using assms(3,4) by auto
  then show ?thesis using assms unfolding counts_ok_def by (auto simp: card_insert_if)
qed

lemma clients_ok_upd_any:
  assumes "clients_ok n cf un bo hc" "c \<notin> vals un" "c_id x = c_id (hc c)" "c_ownerID x = c_ownerID (hc c)"
  shows "clients_ok n cf un bo (hc(c := x))"
  using assms unfolding clients_ok_def by (auto simp: vals_mapI)

lemma invx_dropDelegationLocked:
  assumes "invx X st" "d \<in> delegset st" "X \<inter> vals (unconfirmed st) = {}"
  shows "invx X (dropDelegationLocked d st)" "delegset (dropDelegationLocked d st) = delegset st - {d}"
proof -
  note i = assms(1) [unfolded inv_defs]
  define c where "c = dg_client (hdeleg st d)"
  define hc where "hc = (hclient st)(c := (hclient st c)\<lparr>c_delegs := c_delegs (hclient st c) - 1\<rparr>)"
  define dt where "dt = AList.delete (dg_other (hdeleg st d)) (delegs st)"
  have st': "dropDelegationLocked d st = st\<lparr>delegs := dt, hclient := hc, delegsByPath := idx_remove (dg_path (hdeleg st d)) d (delegsByPath st)\<rparr>"
    by (simp add: dropDelegationLocked_def upd_client_def Let_def hc_def c_def dt_def)
  have v: "vals dt = delegset st - {d}"
    using vals_delete_one [of "delegs st" "\<lambda>d. dg_other (hdeleg st d)"] i assms(2) by (simp add: dt_def)
  then show "delegset (dropDelegationLocked d st) = delegset st - {d}" by (simp add: st')
  have "keys_ok (epoch st) (nextOther st) (stateOwners st) (opens st) (locks st) dt"
    by (rule keys_ok_sub [of _ _ "stateOwners st" "opens st" "locks st" "delegs st"])
      (use i in \<open>simp_all add: dt_def dom_delete_sub del: delete_conv'\<close>)
  moreover have "addrs_ok (nextAddr st) (openset st) (lockset st) (delegset st - {d}) (clientset st) (vals (unconfirmed st)) (vals (stateOwners st))"
    by (rule addrs_ok_sub [of _ "openset st" "lockset st" "delegset st" "clientset st" "vals (unconfirmed st)" "vals (stateOwners st)"])
      (use i in auto)
  moreover have "tab_ok dt (\<lambda>d. dg_other (hdeleg st d))" using i by (simp add: dt_def tab_ok_delete)
  ultimately have tables: "inv_tables (dropDelegationLocked d st)"
    using i v pidx.del_ok [of "delegsByPath st" "delegset st" "\<lambda>d. dg_path (hdeleg st d)" d]
    unfolding inv_tables_def st' by simp
  have confl: "inv_conflicts (dropDelegationLocked d st)"
    using i v deleg_ok_subset [of "hdeleg st" "delegset st" "hopen st" "openset st" "delegset st - {d}"]
    by (simp add: inv_conflicts_def st')
  have c: "c \<notin> vals (unconfirmed st)"
  proof -
    have "c \<in> clientset st \<union> X" using i assms(2) by (auto simp: held_ok_def c_def)
    then show ?thesis using assms(3) clients_ok_disjoint [of _ "confirmed st"] i by blast
  qed
  have "routes_ok (stateOwners st) (howner st) hc A (hopen st) L (hlock st) = routes_ok (stateOwners st) (howner st) (hclient st) A (hopen st) L (hlock st)" for A L
    by (rule routes_ok_clients) (simp_all add: hc_def)
  moreover have "counts_ok (clientset st) hc (openset st) (hopen st) (delegset st - {d}) (hdeleg st)"
    using i assms(2) unfolding hc_def by (intro counts_ok_del_deleg) (auto simp: c_def)
  moreover have "held_ok (clientset st \<union> X) (openset st) (hopen st) (lockset st) (hlock st) (delegset st - {d}) (hdeleg st)"
    by (rule held_ok_drop [of _ "openset st" _ "lockset st" _ "delegset st"]) (use i in auto)
  moreover have "owners_ok (nextAddr st) hc (howner st)"
    by (rule owners_ok_mono [of "nextAddr st" "hclient st"]) (use i in \<open>auto simp: hc_def\<close>)
  moreover have "clients_ok (nextClient st) (confirmed st) (unconfirmed st) (byOwner st) hc"
    using i c unfolding hc_def by (intro clients_ok_upd_any) auto
  ultimately have "inv_clients X (dropDelegationLocked d st)" using i v unfolding inv_clients_def st' by simp
  with tables confl show "invx X (dropDelegationLocked d st)" by (simp add: invx_def)
qed

lemma nfs_inv_revokeDelegationLocked:
  assumes "nfs_inv st" "d \<in> delegset st"
  shows "nfs_inv (revokeDelegationLocked d now st)" "delegset (revokeDelegationLocked d now st) = delegset st - {d}"
proof -
  have e: "{} \<inter> vals (unconfirmed st) = {}" by blast
  show "nfs_inv (revokeDelegationLocked d now st)" "delegset (revokeDelegationLocked d now st) = delegset st - {d}"
    using invx_dropDelegationLocked [OF assms e] by (simp_all add: revokeDelegationLocked_def Let_def)
qed

lemma grantDelegationLocked_Some:
  assumes "fst (grantDelegationLocked p w access st) = Some d"
  defines "c \<equiv> w_client (howner st w)" and "k \<equiv> epoch st @ be_PutUint64 (nextOther st + 1)"
  shows "c_delegs (hclient st c) < int maxDelegationsPerClient"
    "\<not> list_ex (\<lambda>h. o_client (hopen st h) \<noteq> c \<and> (o_access (hopen st h) AND shareWrite \<noteq> 0 \<or> o_deny (hopen st h) AND denyRead \<noteq> 0))
       (idx_get p (byPath st))"
    "snd (grantDelegationLocked p w access st) = st\<lparr>nextOther := nextOther st + 1,
       hdeleg := (hdeleg st)(nextAddr st := \<lparr>dg_other = k, dg_seq = 1, dg_client = c, dg_path = p, dg_recalling = False, dg_recallAt = 0\<rparr>),
       nextAddr := Suc (nextAddr st), delegs := AList.update k (nextAddr st) (delegs st), delegsByPath := idx_append p (nextAddr st) (delegsByPath st),
       hclient := (hclient st)(c := (hclient st c)\<lparr>c_delegs := c_delegs (hclient st c) + 1\<rparr>)\<rparr>"
proof -
  let ?g1 = "\<not> c_cbUp (hclient st c) \<or> \<not> w_confirmed (howner st w) \<or> access \<noteq> shareRead \<or> c_delegs (hclient st c) \<ge> int maxDelegationsPerClient"
  let ?g2 = "list_ex (\<lambda>h. o_client (hopen st h) \<noteq> c \<and> (o_access (hopen st h) AND shareWrite \<noteq> 0 \<or> o_deny (hopen st h) AND denyRead \<noteq> 0))
       (idx_get p (byPath st))"
  let ?g3 = "list_ex (\<lambda>d. dg_client (hdeleg st d) = c \<or> dg_recalling (hdeleg st d)) (idx_get p (delegsByPath st))"
  note d = grantDelegationLocked_def Let_def c_def [symmetric]
  have g1: "\<not> ?g1"
  proof
    assume ?g1
    with assms(1) show False unfolding d by (simp only: if_True fst_conv option.distinct)
  qed
  have g2: "\<not> ?g2"
  proof
    assume ?g2
    with g1 assms(1) show False unfolding d by (simp only: if_True if_False fst_conv option.distinct)
  qed
  have g3: "\<not> ?g3"
  proof
    assume ?g3
    with g1 g2 assms(1) show False unfolding d by (simp only: if_True if_False fst_conv option.distinct)
  qed
  show "c_delegs (hclient st c) < int maxDelegationsPerClient" "\<not> ?g2" using g1 g2 by (linarith, blast)
  show "snd (grantDelegationLocked p w access st) = st\<lparr>nextOther := nextOther st + 1,
       hdeleg := (hdeleg st)(nextAddr st := \<lparr>dg_other = k, dg_seq = 1, dg_client = c, dg_path = p, dg_recalling = False, dg_recallAt = 0\<rparr>),
       nextAddr := Suc (nextAddr st), delegs := AList.update k (nextAddr st) (delegs st), delegsByPath := idx_append p (nextAddr st) (delegsByPath st),
       hclient := (hclient st)(c := (hclient st c)\<lparr>c_delegs := c_delegs (hclient st c) + 1\<rparr>)\<rparr>"
    unfolding d if_not_P [OF g1] if_not_P [OF g2] if_not_P [OF g3] by (simp add: newOther_def upd_client_def k_def)
qed

lemma nfs_inv_grantDelegationLocked:
  assumes inv: "nfs_inv st" and room: "room 1 st" and c: "w_client (howner st w) \<in> clientset st"
  shows "nfs_inv (snd (grantDelegationLocked p w access st))"
proof (cases "fst (grantDelegationLocked p w access st)")
  case None
  then show ?thesis using inv by (auto simp: grantDelegationLocked_def Let_def newOther_def split: if_splits)
next
  case (Some d)
  define k where "k = epoch st @ be_PutUint64 (nextOther st + 1)"
  define a where "a = nextAddr st"
  define c where "c = w_client (howner st w)"
  define x where "x = \<lparr>dg_other = k, dg_seq = 1, dg_client = c, dg_path = p, dg_recalling = False, dg_recallAt = 0\<rparr>"
  define hg where "hg = (hdeleg st)(a := x)"
  define hc where "hc = (hclient st)(c := (hclient st c)\<lparr>c_delegs := c_delegs (hclient st c) + 1\<rparr>)"
  note i = inv [unfolded nfs_inv_defs]
  have ks: "keys_ok (epoch st) (nextOther st) (stateOwners st) (opens st) (locks st) (delegs st)" using i by blast
  have n: "unat (nextOther st) + 1 < 2 ^ 64" using room by (simp add: room_def)
  note kf = keys_ok_fresh [OF ks n, folded k_def]
  have fresh: "a \<notin> delegset st" using i unfolding a_def addrs_ok_def by auto
  have hg: "hg b = hdeleg st b" if "b \<in> delegset st" for b using that fresh by (auto simp: hg_def)
  have vd: "vals (AList.update k a (delegs st)) = insert a (delegset st)" by (rule vals_update_fresh [OF kf(4)])
  note cases = grantDelegationLocked_Some [OF Some, folded c_def]
  have st': "snd (grantDelegationLocked p w access st) = st\<lparr>nextOther := nextOther st + 1, hdeleg := hg, nextAddr := Suc a,
      delegs := AList.update k a (delegs st), delegsByPath := idx_append p a (delegsByPath st), hclient := hc\<rparr>"
    using cases(3) by (simp add: k_def a_def hg_def x_def hc_def)
  note limit = cases(1)
  have free: "o_access (hopen st h) AND shareWrite = 0 \<and> o_deny (hopen st h) AND denyRead = 0"
    if "h \<in> set (idx_get p (byPath st))" "o_client (hopen st h) \<noteq> c" for h
    using cases(2) that unfolding list_ex_iff by blast
  have "tab_ok (AList.update k a (delegs st)) (\<lambda>b. dg_other (hg b))"
    using i tab_ok_cong [of "delegs st" "\<lambda>b. dg_other (hg b)" "\<lambda>b. dg_other (hdeleg st b)"] hg
    by (intro tab_ok_update) (auto simp: hg_def x_def)
  moreover have "idx_ok (\<lambda>q. idx_get q (idx_append p a (delegsByPath st))) (insert a (delegset st)) (\<lambda>b. dg_path (hg b))"
    using i idx_ok_cong [of "delegset st" "\<lambda>b. dg_path (hg b)" "\<lambda>b. dg_path (hdeleg st b)"] hg fresh
      pidx.add_ok [of "delegsByPath st" "delegset st" "\<lambda>b. dg_path (hg b)" a] by (auto simp: hg_def x_def)
  moreover have "addrs_ok (Suc a) (openset st) (lockset st) (insert a (delegset st)) (clientset st) (vals (unconfirmed st)) (vals (stateOwners st))"
    using i unfolding addrs_ok_def a_def by (auto intro: less_SucI)
  ultimately have tables: "inv_tables (snd (grantDelegationLocked p w access st))"
    using i kf(8) unfolding inv_tables_def st' by (simp add: vd)
  have "deleg_ok hg (insert a (delegset st)) (hopen st) (openset st)" unfolding hg_def
  proof (rule deleg_ok_insert_deleg)
    show "deleg_ok (hdeleg st) (delegset st) (hopen st) (openset st)" using i by blast
    show "o_access (hopen st b) AND shareWrite = 0 \<and> o_deny (hopen st b) AND denyRead = 0"
      if "b \<in> openset st" "o_path (hopen st b) = dg_path x" "o_client (hopen st b) \<noteq> dg_client x" for b
      using that i free [of b] by (simp add: x_def idx_ok_def)
  qed
  then have confl: "inv_conflicts (snd (grantDelegationLocked p w access st))"
    using i unfolding inv_conflicts_def st' by (simp add: vd)
  have "routes_ok (stateOwners st) (howner st) hc A (hopen st) L (hlock st) = routes_ok (stateOwners st) (howner st) (hclient st) A (hopen st) L (hlock st)" for A L
    by (rule routes_ok_clients) (simp_all add: hc_def)
  moreover have "counts_ok (clientset st) hc (openset st) (hopen st) (insert a (delegset st)) hg"
    using i limit fresh unfolding hc_def hg_def by (intro counts_ok_add_deleg) (auto simp: x_def)
  moreover have "held_ok (clientset st) (openset st) (hopen st) (lockset st) (hlock st) (insert a (delegset st)) hg"
    using i assms(3) by (auto simp: held_ok_def hg_def x_def c_def)
  moreover have "owners_ok (Suc a) hc (howner st)"
    by (rule owners_ok_mono [of a "hclient st"]) (use i in \<open>auto simp: a_def hc_def\<close>)
  moreover have "clients_ok (nextClient st) (confirmed st) (unconfirmed st) (byOwner st) hc"
    using i assms(3) unfolding hc_def by (intro clients_ok_upd) (auto simp: c_def)
  ultimately have "inv_clients {} (snd (grantDelegationLocked p w access st))"
    using i unfolding inv_clients_none st' by (simp add: vd)
  with tables confl show ?thesis by (simp add: invx_def)
qed

end
