(* ===== verification/Nfs_Inv_Drop.thy ===== *)
theory Nfs_Inv_Drop
  imports Nfs_Inv_Held
begin

text \<open>
  The loops that drop objects: recalling the delegations of a file, closing an open, and releasing
  everything a client holds. Each loop runs over a table as it stood when the loop began.
\<close>

unbundle bit_operations_syntax

section \<open>Loops over a table\<close>

text \<open>
  A loop over the entries of a table that removes those satisfying \<open>P\<close>: what each step keeps the loop
  keeps, and exactly the entries satisfying \<open>P\<close> are gone.
\<close>

lemma foldl_drop:
  fixes tab :: "'s \<Rightarrow> ('k \<times> 'v) list" and xs :: "('k \<times> 'v) list"
  assumes "distinct (map fst xs)" "\<And>k v. (k, v) \<in> set xs \<Longrightarrow> map_of (tab s) k = Some v" "I s"
    and step: "\<And>s k v. I s \<Longrightarrow> map_of (tab s) k = Some v \<Longrightarrow> I (f s (k, v))
      \<and> map_of (tab (f s (k, v))) = (if P k v then (map_of (tab s))(k := None) else map_of (tab s))"
  shows "I (foldl f s xs) \<and> map_of (tab (foldl f s xs)) = (\<lambda>k. if \<exists>v. (k, v) \<in> set xs \<and> P k v then None else map_of (tab s) k)"
  using assms(1-3)
proof (induction xs arbitrary: s)
  case (Cons e xs)
  obtain k v where e: "e = (k, v)" by (cases e)
  have k: "map_of (tab s) k = Some v" "\<And>w. (k, w) \<notin> set xs"
    using Cons.prems(1) Cons.prems(2) [of k v] e by (auto simp: image_iff)
  note st = step [OF Cons.prems(3) k(1)]
  have in': "map_of (tab (f s (k, v))) k' = Some v'" if "(k', v') \<in> set xs" for k' v'
  proof -
    have "k' \<noteq> k" using k(2) that by auto
    then show ?thesis using st Cons.prems(2) [of k' v'] that e by simp
  qed
  have "I (foldl f (f s (k, v)) xs) \<and> map_of (tab (foldl f (f s (k, v)) xs))
      = (\<lambda>k'. if \<exists>v. (k', v) \<in> set xs \<and> P k' v then None else map_of (tab (f s (k, v))) k')"
    using Cons.prems(1) st by (intro Cons.IH in') (auto simp: e)
  then show ?case using st k(2) by (auto simp: e fun_eq_iff)
qed simp

lemma foldl_drop_all:
  fixes tab :: "'s \<Rightarrow> ('k \<times> 'v) list"
  assumes "distinct (map fst (tab s))" "I s"
    and step: "\<And>s k v. I s \<Longrightarrow> map_of (tab s) k = Some v \<Longrightarrow> I (f s (k, v))
      \<and> map_of (tab (f s (k, v))) = (if P k v then (map_of (tab s))(k := None) else map_of (tab s))"
  shows "I (foldl f s (tab s))" "\<And>k v. map_of (tab (foldl f s (tab s))) k = Some v \<longleftrightarrow> map_of (tab s) k = Some v \<and> \<not> P k v"
proof -
  have m: "(k, v) \<in> set (tab s) \<longleftrightarrow> map_of (tab s) k = Some v" for k v using assms(1) by (simp add: map_of_eq_Some_iff)
  have d: "I (foldl f s (tab s)) \<and> map_of (tab (foldl f s (tab s))) = (\<lambda>k. if \<exists>v. (k, v) \<in> set (tab s) \<and> P k v then None else map_of (tab s) k)"
    by (rule foldl_drop) (use assms(1,2) step m in blast)+
  show "I (foldl f s (tab s))" using d by (rule conjunct1)
  have "map_of (tab (foldl f s (tab s))) k = (if \<exists>v. map_of (tab s) k = Some v \<and> P k v then None else map_of (tab s) k)" for k
    using conjunct2 [OF d] by (simp add: m)
  then show "map_of (tab (foldl f s (tab s))) k = Some v \<longleftrightarrow> map_of (tab s) k = Some v \<and> \<not> P k v" for k v
    by auto
qed

lemma foldl_drop_vals:
  assumes "\<And>k v. map_of (tab' :: ('k \<times> 'v) list) k = Some v \<longleftrightarrow> map_of tab k = Some v \<and> \<not> P v"
  shows "vals tab' = {v \<in> vals tab. \<not> P v}"
  using assms by (auto simp: vals_iff)

section \<open>Dropping lock states\<close>

definition drop_lock :: "other \<Rightarrow> addr \<Rightarrow> stateStore \<Rightarrow> stateStore" where
  "drop_lock k l st = removeLockStateLocked l (st\<lparr>locks := AList.delete k (locks st), stateOwners := AList.delete k (stateOwners st)\<rparr>)"

lemma nfs_inv_drop_lock:
  assumes "nfs_inv st" "map_of (locks st) k = Some l"
  shows "nfs_inv (drop_lock k l st)"
proof -
  have k: "k = l_other (hlock st l)" using tab_okD [OF _ assms(2)] assms(1) by (auto simp: inv_defs)
  have l: "l \<in> lockset st" using assms(2) by (auto simp: vals_iff)
  have "drop_lock k l st = (unlist_lock l st)\<lparr>stateOwners := AList.delete k (stateOwners st)\<rparr>"
    by (cases st) (simp add: drop_lock_def unlist_lock_def removeLockStateLocked_def k)
  then show ?thesis using invx_drop_lock [OF assms(1) l k] by simp
qed

text \<open>What dropping lock states leaves alone.\<close>

definition locks_only :: "stateStore \<Rightarrow> stateStore \<Rightarrow> bool" where
  "locks_only st st' \<longleftrightarrow> (\<exists>lt so lp. st' = st\<lparr>locks := lt, stateOwners := so, locksByPath := lp\<rparr>)"

lemma locks_only_refl [simp]: "locks_only st st"
  unfolding locks_only_def by (intro exI [of _ "locks st"] exI [of _ "stateOwners st"] exI [of _ "locksByPath st"]) simp

lemma locks_only_fields:
  assumes "locks_only st st'"
  shows "hlock st' = hlock st" "hopen st' = hopen st" "hclient st' = hclient st" "howner st' = howner st" "hdeleg st' = hdeleg st"
    "opens st' = opens st" "byPath st' = byPath st" "delegs st' = delegs st" "delegsByPath st' = delegsByPath st" "confirmed st' = confirmed st"
    "unconfirmed st' = unconfirmed st" "byOwner st' = byOwner st" "nextOther st' = nextOther st" "epoch st' = epoch st"
  using assms by (auto simp: locks_only_def)

lemma drop_lock_only: "locks_only st st' \<Longrightarrow> locks_only st (drop_lock k l st')"
  by (fastforce simp: locks_only_def drop_lock_def removeLockStateLocked_def)

lemma drop_locks_inv:
  assumes "nfs_inv st" "f = (\<lambda>s (k, l). if P (hlock s l) then drop_lock k l s else s)"
  shows "nfs_inv (foldl f st (locks st))" "lockset (foldl f st (locks st)) = {l \<in> lockset st. \<not> P (hlock st l)}"
    "locks_only st (foldl f st (locks st))"
proof -
  have d: "distinct (map fst (locks st))" using assms(1) by (simp add: inv_defs tab_ok_def)
  note r = foldl_drop_all [of locks st "\<lambda>s. nfs_inv s \<and> locks_only st s" f "\<lambda>_ l. P (hlock st l)"]
  have step: "(nfs_inv (f s (k, l)) \<and> locks_only st (f s (k, l))) \<and>
      map_of (locks (f s (k, l))) = (if P (hlock st l) then (map_of (locks s))(k := None) else map_of (locks s))"
    if "nfs_inv s \<and> locks_only st s" "map_of (locks s) k = Some l" for s k l
    using that nfs_inv_drop_lock [of s k l] drop_lock_only [of st s k l] locks_only_fields [of st s]
    by (auto simp: assms(2) drop_lock_def removeLockStateLocked_def delete_conv')
  show "nfs_inv (foldl f st (locks st))" "locks_only st (foldl f st (locks st))"
    using r(1) [OF d] step assms(1) by auto
  show "lockset (foldl f st (locks st)) = {l \<in> lockset st. \<not> P (hlock st l)}"
    using r(2) [OF d] step assms(1) by (intro foldl_drop_vals) auto
qed

lemma removeEmptyLocks_inv:
  assumes "nfs_inv st"
  shows "nfs_inv (removeEmptyLocksForOpenLocked h st)"
    "lockset (removeEmptyLocksForOpenLocked h st) = {l \<in> lockset st. \<not> (l_open (hlock st l) = h \<and> l_ranges (hlock st l) = [])}"
    "locks_only st (removeEmptyLocksForOpenLocked h st)"
proof -
  have e: "drop_empty_lock h = (\<lambda>s (k, l). if l_open (hlock s l) = h \<and> l_ranges (hlock s l) = [] then drop_lock k l s else s)"
    by (auto simp: drop_empty_lock_def drop_lock_def fun_eq_iff)
  note d = drop_locks_inv [OF assms e]
  show "nfs_inv (removeEmptyLocksForOpenLocked h st)" "locks_only st (removeEmptyLocksForOpenLocked h st)"
    "lockset (removeEmptyLocksForOpenLocked h st) = {l \<in> lockset st. \<not> (l_open (hlock st l) = h \<and> l_ranges (hlock st l) = [])}"
    using d by (simp_all add: removeEmptyLocksForOpenLocked_def)
qed

lemma drop_owner_locks_inv:
  assumes "nfs_inv st"
  shows "nfs_inv (foldl (drop_owner_lock w) st (locks st))"
    "lockset (foldl (drop_owner_lock w) st (locks st)) = {l \<in> lockset st. l_owner (hlock st l) \<noteq> w}"
    "locks_only st (foldl (drop_owner_lock w) st (locks st))"
proof -
  have e: "drop_owner_lock w = (\<lambda>s (k, l). if l_owner (hlock s l) = w then drop_lock k l s else s)"
    by (auto simp: drop_owner_lock_def drop_lock_def fun_eq_iff)
  note d = drop_locks_inv [OF assms e]
  show "nfs_inv (foldl (drop_owner_lock w) st (locks st))" "locks_only st (foldl (drop_owner_lock w) st (locks st))"
    "lockset (foldl (drop_owner_lock w) st (locks st)) = {l \<in> lockset st. l_owner (hlock st l) \<noteq> w}"
    using d by simp_all
qed

section \<open>Recalling delegations\<close>

text \<open>What dropping and recalling delegations leaves alone.\<close>

definition delegs_only :: "stateStore \<Rightarrow> stateStore \<Rightarrow> bool" where
  "delegs_only st st' \<longleftrightarrow>
     (\<exists>hc dt dp hg rv. st' = st\<lparr>hclient := hc, delegs := dt, delegsByPath := dp, hdeleg := hg, revokedDelegs := rv\<rparr>
       \<and> (\<forall>c. \<exists>n. hc c = (hclient st c)\<lparr>c_delegs := n\<rparr>)
       \<and> (\<forall>d. dg_client (hg d) = dg_client (hdeleg st d) \<and> dg_path (hg d) = dg_path (hdeleg st d) \<and> dg_other (hg d) = dg_other (hdeleg st d)))"

lemma delegs_only_refl [simp]: "delegs_only st st"
proof -
  have "\<exists>n. hclient st c = (hclient st c)\<lparr>c_delegs := n\<rparr>" for c by (rule exI [of _ "c_delegs (hclient st c)"]) simp
  then show ?thesis unfolding delegs_only_def
    by (intro exI [of _ "hclient st"] exI [of _ "delegs st"] exI [of _ "delegsByPath st"] exI [of _ "hdeleg st"] exI [of _ "revokedDelegs st"]) simp
qed

lemma delegs_only_trans:
  assumes "delegs_only st st'" "delegs_only st' st''"
  shows "delegs_only st st''"
proof -
  obtain hc dt dp hg rv where 1: "st' = st\<lparr>hclient := hc, delegs := dt, delegsByPath := dp, hdeleg := hg, revokedDelegs := rv\<rparr>"
    "\<And>c. \<exists>n. hc c = (hclient st c)\<lparr>c_delegs := n\<rparr>"
    "\<And>d. dg_client (hg d) = dg_client (hdeleg st d) \<and> dg_path (hg d) = dg_path (hdeleg st d) \<and> dg_other (hg d) = dg_other (hdeleg st d)"
    using assms(1) unfolding delegs_only_def by blast
  obtain hc' dt' dp' hg' rv' where 2: "st'' = st'\<lparr>hclient := hc', delegs := dt', delegsByPath := dp', hdeleg := hg', revokedDelegs := rv'\<rparr>"
    "\<And>c. \<exists>n. hc' c = (hclient st' c)\<lparr>c_delegs := n\<rparr>"
    "\<And>d. dg_client (hg' d) = dg_client (hdeleg st' d) \<and> dg_path (hg' d) = dg_path (hdeleg st' d) \<and> dg_other (hg' d) = dg_other (hdeleg st' d)"
    using assms(2) unfolding delegs_only_def by blast
  have "\<exists>n. hc' c = (hclient st c)\<lparr>c_delegs := n\<rparr>" for c using 1(1) 1(2) [of c] 2(2) [of c] by auto
  then show ?thesis unfolding delegs_only_def
    by (intro exI [of _ hc'] exI [of _ dt'] exI [of _ dp'] exI [of _ hg'] exI [of _ rv']) (use 1 2 in simp)
qed

lemma delegs_only_fields:
  assumes "delegs_only st st'"
  shows "hlock st' = hlock st" "hopen st' = hopen st" "howner st' = howner st" "opens st' = opens st" "byPath st' = byPath st"
    "locks st' = locks st" "locksByPath st' = locksByPath st" "stateOwners st' = stateOwners st" "confirmed st' = confirmed st"
    "unconfirmed st' = unconfirmed st" "byOwner st' = byOwner st" "nextOther st' = nextOther st" "nextClient st' = nextClient st" "epoch st' = epoch st"
    "recallWait st' = recallWait st" "lease st' = lease st" "expired st' = expired st" "expiredIDs st' = expiredIDs st"
    "c_openOwners (hclient st' c) = c_openOwners (hclient st c)" "c_lockOwners (hclient st' c) = c_lockOwners (hclient st c)"
    "c_opens (hclient st' c) = c_opens (hclient st c)" "c_lastRenew (hclient st' c) = c_lastRenew (hclient st c)"
    "c_id (hclient st' c) = c_id (hclient st c)" "c_ownerID (hclient st' c) = c_ownerID (hclient st c)"
    "dg_client (hdeleg st' d) = dg_client (hdeleg st d)" "dg_path (hdeleg st' d) = dg_path (hdeleg st d)"
    "dg_other (hdeleg st' d) = dg_other (hdeleg st d)" "nextAddr st' = nextAddr st"
proof -
  obtain hc dt dp hg rv where 1: "st' = st\<lparr>hclient := hc, delegs := dt, delegsByPath := dp, hdeleg := hg, revokedDelegs := rv\<rparr>"
    and 2: "\<exists>n. hc c = (hclient st c)\<lparr>c_delegs := n\<rparr>"
    and 3: "dg_client (hg d) = dg_client (hdeleg st d) \<and> dg_path (hg d) = dg_path (hdeleg st d) \<and> dg_other (hg d) = dg_other (hdeleg st d)"
    using assms unfolding delegs_only_def by blast
  show "hlock st' = hlock st" "hopen st' = hopen st" "howner st' = howner st" "opens st' = opens st" "byPath st' = byPath st"
    "locks st' = locks st" "locksByPath st' = locksByPath st" "stateOwners st' = stateOwners st" "confirmed st' = confirmed st"
    "unconfirmed st' = unconfirmed st" "byOwner st' = byOwner st" "nextOther st' = nextOther st" "nextClient st' = nextClient st" "epoch st' = epoch st"
    "recallWait st' = recallWait st" "lease st' = lease st" "expired st' = expired st" "expiredIDs st' = expiredIDs st" "nextAddr st' = nextAddr st"
    by (simp_all add: 1)
  show "c_openOwners (hclient st' c) = c_openOwners (hclient st c)" "c_lockOwners (hclient st' c) = c_lockOwners (hclient st c)"
    "c_opens (hclient st' c) = c_opens (hclient st c)" "c_lastRenew (hclient st' c) = c_lastRenew (hclient st c)"
    "c_id (hclient st' c) = c_id (hclient st c)" "c_ownerID (hclient st' c) = c_ownerID (hclient st c)"
    using 2 by (auto simp: 1)
  show "dg_client (hdeleg st' d) = dg_client (hdeleg st d)" "dg_path (hdeleg st' d) = dg_path (hdeleg st d)"
    "dg_other (hdeleg st' d) = dg_other (hdeleg st d)"
    using 3 by (auto simp: 1)
qed

lemma delegs_only_drop: "delegs_only st (dropDelegationLocked d st)" "delegs_only st (revokeDelegationLocked d now st)"
proof -
  let ?c = "dg_client (hdeleg st d)"
  let ?hc = "(hclient st)(?c := (hclient st ?c)\<lparr>c_delegs := c_delegs (hclient st ?c) - 1\<rparr>)"
  have c: "\<exists>n. ?hc c = (hclient st c)\<lparr>c_delegs := n\<rparr>" for c
    by (cases "c = ?c") (auto intro: exI [of _ "c_delegs (hclient st c)"])
  let ?dt = "AList.delete (dg_other (hdeleg st d)) (delegs st)" and ?dp = "idx_remove (dg_path (hdeleg st d)) d (delegsByPath st)"
  have e: "dropDelegationLocked d st = st\<lparr>hclient := ?hc, delegs := ?dt, delegsByPath := ?dp, hdeleg := hdeleg st, revokedDelegs := revokedDelegs st\<rparr>"
    "revokeDelegationLocked d now st = st\<lparr>hclient := ?hc, delegs := ?dt, delegsByPath := ?dp, hdeleg := hdeleg st,
       revokedDelegs := AList.update (dg_other (hdeleg st d)) now (revokedDelegs st)\<rparr>"
    by (cases st, simp add: dropDelegationLocked_def revokeDelegationLocked_def upd_client_def Let_def)+
  show "delegs_only st (dropDelegationLocked d st)" unfolding delegs_only_def e(1)
    by (intro exI [of _ ?hc] exI [of _ ?dt] exI [of _ ?dp] exI [of _ "hdeleg st"] exI [of _ "revokedDelegs st"]) (use c in auto)
  show "delegs_only st (revokeDelegationLocked d now st)" unfolding delegs_only_def e(2)
    by (intro exI [of _ ?hc] exI [of _ ?dt] exI [of _ ?dp] exI [of _ "hdeleg st"]
        exI [of _ "AList.update (dg_other (hdeleg st d)) now (revokedDelegs st)"]) (use c in auto)
qed

lemma delegs_only_upd:
  assumes "\<And>x. dg_client (f x) = dg_client x \<and> dg_path (f x) = dg_path x \<and> dg_other (f x) = dg_other x"
  shows "delegs_only st (upd_deleg d f st)"
proof -
  have "\<exists>n. hclient st c = (hclient st c)\<lparr>c_delegs := n\<rparr>" for c by (rule exI [of _ "c_delegs (hclient st c)"]) simp
  then show ?thesis unfolding delegs_only_def using assms
    by (intro exI [of _ "hclient st"] exI [of _ "delegs st"] exI [of _ "delegsByPath st"]
        exI [of _ "(hdeleg st)(d := f (hdeleg st d))"] exI [of _ "revokedDelegs st"]) (auto simp: upd_deleg_def)
qed

lemma recall_one_inv:
  assumes "nfs_inv st" "d \<in> delegset st" "recall_one ex now (st, b, js) d = (st', b', js')"
  shows "nfs_inv st' \<and> delegs_only st st' \<and> (delegset st' = delegset st \<or> delegset st' = delegset st - {d})
    \<and> (\<not> b' \<longrightarrow> \<not> b \<and> (Some (dg_client (hdeleg st d)) = ex \<or> d \<notin> delegset st'))"
proof -
  note r = nfs_inv_revokeDelegationLocked [OF assms(1,2)] and o' = delegs_only_drop(2) [of st d now]
  let ?u = "upd_deleg d (\<lambda>y. y\<lparr>dg_recalling := True, dg_recallAt := now\<rparr>) st"
  have u: "nfs_inv ?u" "delegs_only st ?u" "delegset ?u = delegset st"
    using assms(1) by (simp_all add: invx_upd_deleg_same delegs_only_upd) (simp add: upd_deleg_def)
  show ?thesis using assms(1,3) r o' u by (auto simp: recall_one_def Let_def split: if_splits)
qed

lemma recall_fold_inv:
  assumes "nfs_inv st" "distinct xs" "set xs \<subseteq> delegset st" "foldl (recall_one ex now) (st, b, js) xs = (st', b', js')"
  shows "nfs_inv st' \<and> delegs_only st st' \<and> delegset st' \<subseteq> delegset st
    \<and> (\<not> b' \<longrightarrow> \<not> b \<and> (\<forall>d \<in> set xs \<inter> delegset st'. Some (dg_client (hdeleg st d)) = ex))"
  using assms
proof (induction xs arbitrary: st b js)
  case (Cons d xs)
  obtain st1 b1 js1 where 1: "recall_one ex now (st, b, js) d = (st1, b1, js1)" by (metis prod_cases3)
  have d: "d \<in> delegset st" using Cons.prems(3) by simp
  note r = recall_one_inv [OF Cons.prems(1) d 1]
  have "set xs \<subseteq> delegset st1" using r Cons.prems(2,3) by auto
  then have ih: "nfs_inv st' \<and> delegs_only st1 st' \<and> delegset st' \<subseteq> delegset st1
    \<and> (\<not> b' \<longrightarrow> \<not> b1 \<and> (\<forall>d \<in> set xs \<inter> delegset st'. Some (dg_client (hdeleg st1 d)) = ex))"
    using Cons.IH [of st1 b1 js1] r Cons.prems(2,4) 1 by simp
  have "dg_client (hdeleg st1 e) = dg_client (hdeleg st e)" for e using delegs_only_fields(25) [of st st1 e] r by blast
  then show ?case using r ih delegs_only_trans [of st st1 st'] by auto
qed auto

lemma recallDelegations_inv:
  assumes "nfs_inv st" "recallDelegations p ex now st = ((s, js), st')"
  shows "nfs_inv st'" "delegs_only st st'" "delegset st' \<subseteq> delegset st"
    "s = nfs4OK \<Longrightarrow> d \<in> delegset st' \<Longrightarrow> dg_path (hdeleg st d) = p \<Longrightarrow> Some (dg_client (hdeleg st d)) = ex"
proof -
  obtain b where f: "foldl (recall_one ex now) (st, False, []) (idx_get p (delegsByPath st)) = (st', b, js)" and b: "s = (if b then nfs4ErrDelay else nfs4OK)"
    using assms(2) by (auto simp: recallDelegations_def split: prod.splits)
  have ix: "distinct (idx_get p (delegsByPath st))" "set (idx_get p (delegsByPath st)) = {d \<in> delegset st. dg_path (hdeleg st d) = p}"
    using assms(1) by (auto simp: inv_defs idx_ok_def)
  have "set (idx_get p (delegsByPath st)) \<subseteq> delegset st" using ix(2) by blast
  note r = recall_fold_inv [OF assms(1) ix(1) this f]
  show "nfs_inv st'" "delegs_only st st'" "delegset st' \<subseteq> delegset st" using r by blast+
  show "Some (dg_client (hdeleg st d)) = ex" if "s = nfs4OK" "d \<in> delegset st'" "dg_path (hdeleg st d) = p"
    using that r b ix(2) by (auto split: if_splits)
qed

end
