(* ===== verification/Nfs_Inv_Client.thy ===== *)
theory Nfs_Inv_Client
  imports Nfs_Inv_Drop
begin

text \<open>
  The store invariant under CLOSE, under the release of a client with everything it holds, under lease
  expiry, and under the two steps that register a client.
\<close>

unbundle bit_operations_syntax

lemma renewed_fields [simp]:
  "nextOther (renewed now c st) = nextOther st" "nextClient (renewed now c st) = nextClient st" "nextAddr (renewed now c st) = nextAddr st"
  "epoch (renewed now c st) = epoch st" "opens (renewed now c st) = opens st" "locks (renewed now c st) = locks st" "delegs (renewed now c st) = delegs st"
  "confirmed (renewed now c st) = confirmed st" "unconfirmed (renewed now c st) = unconfirmed st" "byOwner (renewed now c st) = byOwner st"
  "byPath (renewed now c st) = byPath st" "locksByPath (renewed now c st) = locksByPath st" "delegsByPath (renewed now c st) = delegsByPath st"
  "stateOwners (renewed now c st) = stateOwners st" "hopen (renewed now c st) = hopen st" "hlock (renewed now c st) = hlock st"
  "hdeleg (renewed now c st) = hdeleg st" "howner (renewed now c st) = howner st"
  "c_openOwners (hclient (renewed now c st) d) = c_openOwners (hclient st d)" "c_lockOwners (hclient (renewed now c st) d) = c_lockOwners (hclient st d)"
  "c_opens (hclient (renewed now c st) d) = c_opens (hclient st d)" "c_delegs (hclient (renewed now c st) d) = c_delegs (hclient st d)"
  by (simp_all add: renewed_def upd_client_def)

section \<open>Closing an open\<close>

lemma owner_not_both:
  assumes "owners_ok n hc hw" "w \<in> vals (c_openOwners (hc c))" "w \<in> vals (c_lockOwners (hc d))"
  shows False
proof -
  have "w_client (hw w) = c" "w_client (hw w) = d" using assms unfolding owners_ok_def by blast+
  then show False using assms unfolding owners_ok_def by blast
qed

text \<open>Forgetting the closed stateids of an open-owner.\<close>

lemma nfs_inv_forget_priors:
  assumes "nfs_inv st" "w \<in> vals (c_openOwners (hclient st c))"
    and f: "f = (\<lambda>(st :: stateStore) (prior, w'). if prior \<noteq> k \<and> w' = w \<and> map_of (opens st) prior = None
      then st\<lparr>stateOwners := AList.delete prior (stateOwners st)\<rparr> else st)"
  shows "nfs_inv (foldl f st (stateOwners st)) \<and> (\<exists>so. foldl f st (stateOwners st) = st\<lparr>stateOwners := so\<rparr>)"
proof (rule foldl_drop_all(1) [where P = "\<lambda>p w'. p \<noteq> k \<and> w' = w \<and> map_of (opens st) p = None"])
  show "distinct (map fst (stateOwners st))" using assms(1) by (simp add: inv_defs)
  show "nfs_inv st \<and> (\<exists>so. st = st\<lparr>stateOwners := so\<rparr>)" using assms(1) by (metis stateStore.surjective stateStore.update_convs(11))
  fix s p w' assume s: "nfs_inv s \<and> (\<exists>so. s = st\<lparr>stateOwners := so\<rparr>)" and p: "map_of (stateOwners s) p = Some w'"
  then have same: "opens s = opens st" "hclient s = hclient st" by auto
  note i = conjunct1 [OF s, unfolded nfs_inv_defs]
  show "(nfs_inv (f s (p, w')) \<and> (\<exists>so. f s (p, w') = st\<lparr>stateOwners := so\<rparr>)) \<and>
      map_of (stateOwners (f s (p, w'))) = (if p \<noteq> k \<and> w' = w \<and> map_of (opens st) p = None then (map_of (stateOwners s))(p := None) else map_of (stateOwners s))"
  proof (cases "p \<noteq> k \<and> w' = w \<and> map_of (opens st) p = None")
    case True
    have "nfs_inv (s\<lparr>stateOwners := AList.delete p (stateOwners s)\<rparr>)"
    proof (rule invx_del_route [OF conjunct1 [OF s]])
      show "o_other (hopen s a) \<noteq> p" if "a \<in> openset s" for a
        using that True same i tab_ok_vals [of "opens s" "\<lambda>a. o_other (hopen s a)" a] by auto
      show "l_other (hlock s l) \<noteq> p" if l: "l \<in> lockset s" for l
      proof
        assume "l_other (hlock s l) = p"
        with l p True i have "w \<in> vals (c_lockOwners (hclient s (l_client (hlock s l))))" unfolding routes_ok_def by auto
        with assms(2) same owner_not_both [of "nextAddr s" "hclient s" "howner s" w c] i show False by auto
      qed
    qed
    moreover have fs: "f s (p, w') = s\<lparr>stateOwners := AList.delete p (stateOwners s)\<rparr>" using True same(1) by (simp add: f)
    moreover obtain so where "s = st\<lparr>stateOwners := so\<rparr>" using s by blast
    then have "f s (p, w') = st\<lparr>stateOwners := AList.delete p (stateOwners s)\<rparr>" using fs by simp
    ultimately show ?thesis using True by (auto simp: fun_eq_iff)
  next
    case False
    then have "f s (p, w') = s" using same(1) by (auto simp: f)
    with False s show ?thesis by (simp only: if_False simp_thms)
  qed
qed

lemma nfs_inv_close_commit:
  assumes inv: "nfs_inv st" and k: "map_of (opens st) k = Some h" "map_of (stateOwners st) k = Some w"
    and block: "\<not> locksBlockCloseLocked h st"
  shows "nfs_inv (close_commit now h k w st)"
proof -
  note i = inv [unfolded nfs_inv_defs]
  have h: "h \<in> openset st" "o_other (hopen st h) = k" using k(1) i tab_okD [of "opens st" "\<lambda>a. o_other (hopen st a)"] by (auto simp: vals_iff)
  have w: "o_owner (hopen st h) = w" "w \<in> vals (c_openOwners (hclient st (o_client (hopen st h))))"
    using i h k(2) unfolding routes_ok_def by auto
  define st1 where "st1 = removeEmptyLocksForOpenLocked h st"
  have 1: "nfs_inv st1" "lockset st1 = {l \<in> lockset st. \<not> (l_open (hlock st l) = h \<and> l_ranges (hlock st l) = [])}" "locks_only st st1"
    unfolding st1_def by (rule removeEmptyLocks_inv [OF inv])+
  note fr = locks_only_fields [OF 1(3)]
  have none: "l_open (hlock st1 l) \<noteq> h" if "l \<in> lockset st1" for l
  proof
    assume o': "l_open (hlock st1 l) = h"
    have l: "l \<in> lockset st" "\<not> (l_open (hlock st l) = h \<and> l_ranges (hlock st l) = [])" using that 1(2) by auto
    then have "l_path (hlock st l) = o_path (hopen st h)" using i o' fr(1) unfolding lockopen_ok_def by auto
    then have "l \<in> set (idx_get (o_path (hopen st h)) (locksByPath st))" using i l(1) by (auto simp: idx_ok_def)
    then show False using block l(2) o' fr(1) by (auto simp: locksBlockCloseLocked_def list_ex_iff)
  qed
  define st2 where "st2 = upd_client (o_client (hopen st h)) (\<lambda>x. x\<lparr>c_opens := c_opens x - 1\<rparr>) (unlist_open h st1)"
  have 2: "nfs_inv st2" using nfs_inv_close_open [OF 1(1), of h] h none fr by (simp add: st2_def)
  have w2: "w \<in> vals (c_openOwners (hclient st2 (o_client (hopen st h))))"
    using w(2) fr by (simp add: st2_def upd_client_def unlist_open_def)
  define f where "f = (\<lambda>(st :: stateStore) (prior, w'). if prior \<noteq> k \<and> w' = w \<and> map_of (opens st) prior = None
      then st\<lparr>stateOwners := AList.delete prior (stateOwners st)\<rparr> else st)"
  have 3: "nfs_inv (foldl f st2 (stateOwners st2))" using nfs_inv_forget_priors [OF 2 w2 f_def] by blast
  have "close_commit now h k w st = renewed now (o_client (hopen (upd_open h (\<lambda>x. x\<lparr>o_seq := o_seq x + 1\<rparr>) (foldl f st2 (stateOwners st2))) h))
      (upd_open h (\<lambda>x. x\<lparr>o_seq := o_seq x + 1\<rparr>) (foldl f st2 (stateOwners st2)))"
  proof -
    have "removePathLocked h (upd_client (o_client (hopen st1 h)) (\<lambda>x. x\<lparr>c_opens := c_opens x - 1\<rparr>) (st1\<lparr>opens := AList.delete k (opens st1)\<rparr>)) = st2"
      using fr h(2) by (cases st1) (simp add: st2_def removePathLocked_def upd_client_def unlist_open_def)
    then show ?thesis by (simp add: close_commit_def Let_def st1_def [symmetric] f_def)
  qed
  then show ?thesis using 3 by (simp add: invx_upd_open_same)
qed

section \<open>Releasing a client\<close>

text \<open>A client that is in neither table may have its counters changed.\<close>

lemma invx_upd_gone_client:
  assumes "invx X st" "c \<notin> clientset st" "c \<notin> vals (unconfirmed st)" "c_id (f (hclient st c)) = c_id (hclient st c)"
    "c_ownerID (f (hclient st c)) = c_ownerID (hclient st c)" "c_openOwners (f (hclient st c)) = c_openOwners (hclient st c)"
    "c_lockOwners (f (hclient st c)) = c_lockOwners (hclient st c)"
  shows "invx X (upd_client c f st)"
proof -
  define hc where "hc = (hclient st)(c := f (hclient st c))"
  note i = assms(1) [unfolded inv_defs]
  have "routes_ok (stateOwners st) (howner st) hc A (hopen st) L (hlock st) = routes_ok (stateOwners st) (howner st) (hclient st) A (hopen st) L (hlock st)" for A L
    by (rule routes_ok_clients) (use assms in \<open>simp_all add: hc_def\<close>)
  moreover have "counts_ok (clientset st) hc (openset st) (hopen st) (delegset st) (hdeleg st)"
  proof -
    have "counts_ok (clientset st) (hclient st) (openset st) (hopen st) (delegset st) (hdeleg st)" using i by blast
    moreover have "hc d = hclient st d" if "d \<in> clientset st" for d using that assms(2) by (auto simp: hc_def)
    ultimately show ?thesis unfolding counts_ok_def by (auto cong: ball_cong)
  qed
  moreover have "owners_ok (nextAddr st) hc (howner st)"
    by (rule owners_ok_mono [of "nextAddr st" "hclient st"]) (use i assms in \<open>auto simp: hc_def\<close>)
  moreover have "clients_ok (nextClient st) (confirmed st) (unconfirmed st) (byOwner st) hc"
    using i assms unfolding hc_def by (intro clients_ok_upd_any) auto
  ultimately have "inv_clients X (upd_client c f st)" using i by (simp add: inv_clients_def upd_client_def hc_def)
  then show ?thesis using i by (simp add: invx_def inv_tables_def inv_conflicts_def upd_client_def)
qed

text \<open>Taking a confirmed client out of the two client tables.\<close>

definition unlist_client :: "addr \<Rightarrow> stateStore \<Rightarrow> stateStore" where
  "unlist_client c st = st\<lparr>confirmed := AList.delete (c_id (hclient st c)) (confirmed st),
     byOwner := (if map_of (byOwner st) (c_ownerID (hclient st c)) = Some c then AList.delete (c_ownerID (hclient st c)) (byOwner st) else byOwner st)\<rparr>"

lemma clients_ok_key:
  assumes "clients_ok n cf un bo hc"
  shows "c \<in> vals cf \<longleftrightarrow> map_of cf (c_id (hc c)) = Some c"
proof -
  have "c_id (hc c) = i" if "map_of cf i = Some c" for i using assms that by (simp add: clients_ok_def)
  then show ?thesis unfolding vals_iff by blast
qed

lemma clients_ok_unlist:
  assumes "clients_ok n cf un bo hc" "c \<in> vals cf"
  shows "clients_ok n (AList.delete (c_id (hc c)) cf) un (AList.delete (c_ownerID (hc c)) bo) hc"
    "vals (AList.delete (c_id (hc c)) cf) = vals cf - {c}" "map_of bo (c_ownerID (hc c)) = Some c"
proof -
  note k = clients_ok_key [OF assms(1)]
  have c: "map_of cf (c_id (hc c)) = Some c" using assms(2) k by blast
  show b: "map_of bo (c_ownerID (hc c)) = Some c" using assms(1) c by (simp add: clients_ok_def)
  have id: "c_id (hc d) = i" "map_of bo (c_ownerID (hc d)) = Some d" if "map_of cf i = Some d" for i d
    using assms(1) that by (simp_all add: clients_ok_def)
  show v: "vals (AList.delete (c_id (hc c)) cf) = vals cf - {c}"
  proof (intro set_eqI iffI)
    fix d assume "d \<in> vals (AList.delete (c_id (hc c)) cf)"
    then obtain i where i: "map_of cf i = Some d" "i \<noteq> c_id (hc c)" unfolding vals_iff by (auto split: if_splits)
    then have "d \<noteq> c" using id(1) [OF i(1)] by auto
    moreover have "d \<in> vals cf" using i(1) unfolding vals_iff by blast
    ultimately show "d \<in> vals cf - {c}" by blast
  next
    fix d assume "d \<in> vals cf - {c}"
    then obtain i where i: "map_of cf i = Some d" "d \<noteq> c" by (auto simp: vals_iff)
    then have "i \<noteq> c_id (hc c)" using c by auto
    then have "map_of (AList.delete (c_id (hc c)) cf) i = Some d" using i(1) by simp
    then show "d \<in> vals (AList.delete (c_id (hc c)) cf)" unfolding vals_iff by blast
  qed
  have o': "d \<in> vals cf" "c_ownerID (hc d) = p" if "map_of bo p = Some d" for p d using assms(1) that by (simp_all add: clients_ok_def)
  show "clients_ok n (AList.delete (c_id (hc c)) cf) un (AList.delete (c_ownerID (hc c)) bo) hc"
    unfolding clients_ok_def v
  proof (intro conjI allI impI)
    fix i d assume "map_of (AList.delete (c_id (hc c)) cf) i = Some d"
    then have d: "map_of cf i = Some d" "i \<noteq> c_id (hc c)" by (auto split: if_splits)
    then show "c_id (hc d) = i" "i \<le> n" using assms(1) by (simp_all add: clients_ok_def)
    then have "d \<noteq> c" using d(2) by auto
    then show "map_of (AList.delete (c_ownerID (hc c)) bo) (c_ownerID (hc d)) = Some d" using id(2) [OF d(1)] b by auto
  qed (use assms(1) o' in \<open>auto simp: clients_ok_def split: if_splits\<close>)
qed

lemma invx_unlist_client:
  assumes "nfs_inv st" "c \<in> clientset st"
  shows "invx {c} (unlist_client c st)" "clientset (unlist_client c st) = clientset st - {c}" "c \<notin> vals (unconfirmed st)"
proof -
  note i = assms(1) [unfolded nfs_inv_defs]
  have ck: "clients_ok (nextClient st) (confirmed st) (unconfirmed st) (byOwner st) (hclient st)" using i by blast
  note u = clients_ok_unlist [OF ck assms(2)]
  have st': "unlist_client c st = st\<lparr>confirmed := AList.delete (c_id (hclient st c)) (confirmed st), byOwner := AList.delete (c_ownerID (hclient st c)) (byOwner st)\<rparr>"
    using u(3) by (simp add: unlist_client_def)
  show v: "clientset (unlist_client c st) = clientset st - {c}" using u(2) by (simp add: st')
  show "c \<notin> vals (unconfirmed st)" by (rule clients_ok_disjoint [OF ck assms(2)])
  have "addrs_ok (nextAddr st) (openset st) (lockset st) (delegset st) (clientset st - {c}) (vals (unconfirmed st)) (vals (stateOwners st))"
    by (rule addrs_ok_sub [of _ "openset st" "lockset st" "delegset st" "clientset st" "vals (unconfirmed st)" "vals (stateOwners st)"])
      (use i in auto)
  then have "inv_tables (unlist_client c st)" using i unfolding inv_tables_def st' by (simp add: u(2))
  moreover have "inv_conflicts (unlist_client c st)" using i by (simp add: inv_conflicts_def st')
  moreover have "inv_clients {c} (unlist_client c st)"
  proof -
    let ?L = "{l \<in> lockset st. l_client (hlock st l) \<notin> {c}}" and ?A = "{a \<in> openset st. o_client (hopen st a) \<notin> {c}}"
    have "lockopen_ok (hlock st) (lockset st) (hopen st) (openset st)" using i by blast
    then have "lockopen_ok (hlock st) ?L (hopen st) (openset st)" unfolding lockopen_ok_def by blast
    moreover have "routes_ok (stateOwners st) (howner st) (hclient st) ?A (hopen st) ?L (hlock st)"
      by (rule routes_ok_drop [of _ _ _ "openset st" _ "lockset st"]) (use i in auto)
    moreover have "counts_ok (clientset st) (hclient st) (openset st) (hopen st) (delegset st) (hdeleg st)" using i by blast
    then have "counts_ok (clientset st - {c}) (hclient st) (openset st) (hopen st) (delegset st) (hdeleg st)" unfolding counts_ok_def by blast
    moreover have "held_ok (clientset st - {c} \<union> {c}) (openset st) (hopen st) (lockset st) (hlock st) (delegset st) (hdeleg st)"
      by (rule held_ok_mono [of "clientset st" "openset st" _ "lockset st" _ "delegset st"]) (use i in auto)
    ultimately show ?thesis using i u unfolding inv_clients_def st' by simp
  qed
  ultimately show "invx {c} (unlist_client c st)" by (simp add: invx_def)
qed

text \<open>Once a client being dropped holds nothing, the invariant holds without the exemption.\<close>

lemma invx_done:
  assumes "invx {c} st" "\<And>a. a \<in> openset st \<Longrightarrow> o_client (hopen st a) \<noteq> c" "\<And>l. l \<in> lockset st \<Longrightarrow> l_client (hlock st l) \<noteq> c"
    "\<And>d. d \<in> delegset st \<Longrightarrow> dg_client (hdeleg st d) \<noteq> c"
  shows "nfs_inv st"
proof -
  note i = assms(1) [unfolded inv_defs]
  have e: "{l \<in> lockset st. l_client (hlock st l) \<notin> {c}} = lockset st" "{a \<in> openset st. o_client (hopen st a) \<notin> {c}} = openset st"
    using assms(2,3) by auto
  have "held_ok (clientset st) (openset st) (hopen st) (lockset st) (hlock st) (delegset st) (hdeleg st)"
  proof -
    have "held_ok (clientset st \<union> {c}) (openset st) (hopen st) (lockset st) (hlock st) (delegset st) (hdeleg st)" using i by blast
    then show ?thesis using assms(2-4) unfolding held_ok_def by blast
  qed
  then show ?thesis using i unfolding nfs_inv_defs e by blast
qed

text \<open>The four loops of \<^verbatim>\<open>releaseLocked\<close>.\<close>

lemma release_opens_inv:
  assumes inv: "invx {c} st" and c: "c \<notin> clientset st"
  defines "r \<equiv> foldl (release_open c) (st, []) (opens st)"
  shows "invx {c} (fst r)" "\<exists>ot bp so. fst r = st\<lparr>opens := ot, byPath := bp, stateOwners := so\<rparr>"
    "openset (fst r) = {a \<in> openset st. o_client (hopen st a) \<noteq> c}"
proof -
  let ?I = "\<lambda>s. invx {c} (fst s) \<and> (\<exists>ot bp so. fst s = st\<lparr>opens := ot, byPath := bp, stateOwners := so\<rparr>)"
  have d: "distinct (map fst (opens (fst (st, [] :: nat list))))" using inv by (simp add: inv_defs tab_ok_def)
  have "st = st\<lparr>opens := opens st, byPath := byPath st, stateOwners := stateOwners st\<rparr>" by simp
  then have i0: "?I (st, [] :: nat list)" using inv unfolding fst_conv by blast
  have step: "?I (release_open c s (k, a)) \<and> map_of (opens (fst (release_open c s (k, a))))
      = (if o_client (hopen st a) = c then (map_of (opens (fst s)))(k := None) else map_of (opens (fst s)))"
    if s: "?I s" and k: "map_of (opens (fst s)) k = Some a" for s k a
  proof -
    obtain s1 fs where e: "s = (s1, fs)" by (cases s)
    obtain ot bp so where f: "s1 = st\<lparr>opens := ot, byPath := bp, stateOwners := so\<rparr>" using s e by auto
    have i: "invx {c} s1" using s e by simp
    have t: "inv_tables s1" using i by (simp add: invx_def)
    have a: "a \<in> openset s1" "o_other (hopen s1 a) = k"
      using k e t tab_okD [of "opens s1" "\<lambda>a. o_other (hopen s1 a)"] by (auto simp: vals_iff inv_tables_def)
    show ?thesis
    proof (cases "o_client (hopen st a) = c")
      case True
      have h: "hopen s1 = hopen st" "confirmed s1 = confirmed st" using f by simp_all
      have u: "invx {c} (unlist_open a s1)" using invx_release_open [OF i a(1)] True h c by simp
      have x: "fst (release_open c s (k, a)) = (unlist_open a s1)\<lparr>stateOwners := AList.delete k (stateOwners (unlist_open a s1))\<rparr>"
        using True a(2) h by (cases s1) (simp add: e release_open_def removePathLocked_def unlist_open_def Let_def)
      have "invx {c} ((unlist_open a s1)\<lparr>stateOwners := AList.delete k (stateOwners (unlist_open a s1))\<rparr>)"
      proof (rule invx_del_route [OF u])
        show "o_other (hopen (unlist_open a s1) b) \<noteq> k" if "b \<in> openset (unlist_open a s1)" for b
        proof -
          have b: "b \<in> openset s1" "b \<noteq> a" using that unlist_open_tables(2) [OF t a(1)] by auto
          then show ?thesis using a t tab_ok_vals [of "opens s1" "\<lambda>a. o_other (hopen s1 a)"]
            by (auto simp: inv_tables_def unlist_open_def)
        qed
        show "l_other (hlock (unlist_open a s1) l) \<noteq> k" if "l \<in> lockset (unlist_open a s1)" for l
          using lock_key(1) [OF t, of l a] that a by (auto simp: unlist_open_def)
      qed
      moreover have "\<exists>ot bp so. (unlist_open a s1)\<lparr>stateOwners := AList.delete k (stateOwners (unlist_open a s1))\<rparr>
          = st\<lparr>opens := ot, byPath := bp, stateOwners := so\<rparr>" by (auto simp: f unlist_open_def)
      ultimately have "?I (release_open c s (k, a))" using x by simp
      moreover have "map_of (opens (fst (release_open c s (k, a)))) = (map_of (opens (fst s)))(k := None)"
        using a(2) x by (simp add: unlist_open_def e fun_eq_iff)
      ultimately show ?thesis using True by simp
    next
      case False
      then have "release_open c s (k, a) = s" using f by (simp add: e release_open_def)
      then show ?thesis using False s by simp
    qed
  qed
  note r = foldl_drop_all [of "\<lambda>s. opens (fst s)" "(st, [])" ?I "release_open c" "\<lambda>_ a. o_client (hopen st a) = c", OF d i0 step]
  show "invx {c} (fst r)" "\<exists>ot bp so. fst r = st\<lparr>opens := ot, byPath := bp, stateOwners := so\<rparr>" using r(1) by (simp_all add: r_def)
  have "\<And>k v. (map_of (opens (fst r)) k = Some v) = (map_of (opens st) k = Some v \<and> \<not> o_client (hopen st v) = c)"
    using r(2) by (simp add: r_def)
  then show "openset (fst r) = {a \<in> openset st. o_client (hopen st a) \<noteq> c}" by (rule foldl_drop_vals)
qed

lemma release_owners_inv:
  assumes inv: "invx {c} st"
  defines "r \<equiv> foldl (release_owner c) st (stateOwners st)"
  shows "invx {c} r \<and> (\<exists>so. r = st\<lparr>stateOwners := so\<rparr>)"
  unfolding r_def
proof (rule foldl_drop_all(1) [where P = "\<lambda>_ w. w_client (howner st w) = c"])
  let ?I = "\<lambda>s. invx {c} s \<and> (\<exists>so. s = st\<lparr>stateOwners := so\<rparr>)"
  show "distinct (map fst (stateOwners st))" using inv by (simp add: inv_defs)
  show "?I st" using inv by (auto intro: exI [of _ "stateOwners st"])
  fix s k w assume s: "?I s" and k: "map_of (stateOwners s) k = Some w"
  obtain so where f: "s = st\<lparr>stateOwners := so\<rparr>" using s by blast
  have i: "invx {c} s" using s by blast
  show "?I (release_owner c s (k, w)) \<and> map_of (stateOwners (release_owner c s (k, w)))
      = (if w_client (howner st w) = c then (map_of (stateOwners s))(k := None) else map_of (stateOwners s))"
  proof (cases "w_client (howner st w) = c")
    case True
    have x: "release_owner c s (k, w) = s\<lparr>stateOwners := AList.delete k (stateOwners s)\<rparr>" using True f by (simp add: release_owner_def)
    have rt: "routes_ok (stateOwners s) (howner s) (hclient s) {a \<in> openset s. o_client (hopen s a) \<notin> {c}} (hopen s)
        {l \<in> lockset s. l_client (hlock s l) \<notin> {c}} (hlock s)" using i by (simp add: inv_defs)
    have h: "howner s = howner st" using f by simp
    have "invx {c} (s\<lparr>stateOwners := AList.delete k (stateOwners s)\<rparr>)"
      by (rule invx_del_route [OF i]) (use rt k True h in \<open>auto simp: routes_ok_def\<close>)
    moreover have "s\<lparr>stateOwners := AList.delete k (stateOwners s)\<rparr> = st\<lparr>stateOwners := AList.delete k (stateOwners s)\<rparr>" by (simp add: f)
    ultimately have "?I (release_owner c s (k, w))" unfolding x by blast
    then show ?thesis using True x by (simp add: fun_eq_iff)
  next
    case False
    then have "release_owner c s (k, w) = s" using f by (simp add: release_owner_def)
    then show ?thesis using False s by simp
  qed
qed

lemma release_locks_inv:
  assumes inv: "invx {c} st"
  defines "r \<equiv> foldl (release_lock c) st (locks st)"
  shows "invx {c} r" "\<exists>lt lp. r = st\<lparr>locks := lt, locksByPath := lp\<rparr>" "lockset r = {l \<in> lockset st. l_client (hlock st l) \<noteq> c}"
proof -
  let ?I = "\<lambda>s. invx {c} s \<and> (\<exists>lt lp. s = st\<lparr>locks := lt, locksByPath := lp\<rparr>)"
  have d: "distinct (map fst (locks st))" using inv by (simp add: inv_defs tab_ok_def)
  have "st = st\<lparr>locks := locks st, locksByPath := locksByPath st\<rparr>" by simp
  then have i0: "?I st" using inv by blast
  have step: "?I (release_lock c s (k, l)) \<and> map_of (locks (release_lock c s (k, l)))
      = (if l_client (hlock st l) = c then (map_of (locks s))(k := None) else map_of (locks s))"
    if s: "?I s" and k: "map_of (locks s) k = Some l" for s k l
  proof -
    obtain lt lp where f: "s = st\<lparr>locks := lt, locksByPath := lp\<rparr>" using s by blast
    have i: "invx {c} s" using s by blast
    have l: "l \<in> lockset s" "l_other (hlock s l) = k"
      using k i tab_okD [of "locks s" "\<lambda>l. l_other (hlock s l)"] by (auto simp: vals_iff inv_defs)
    show ?thesis
    proof (cases "l_client (hlock st l) = c")
      case True
      have x: "release_lock c s (k, l) = unlist_lock l s"
        using True f l(2) by (simp add: release_lock_def unlist_lock_def removeLockStateLocked_def)
      then have "?I (release_lock c s (k, l))" using invx_unlist_lock(1) [OF i l(1)] by (auto simp: f unlist_lock_def)
      then show ?thesis using True x l(2) by (simp add: unlist_lock_def fun_eq_iff)
    next
      case False
      then have "release_lock c s (k, l) = s" using f by (simp add: release_lock_def)
      then show ?thesis using False s by simp
    qed
  qed
  note r = foldl_drop_all [of locks st ?I "release_lock c" "\<lambda>_ l. l_client (hlock st l) = c", OF d i0 step, folded r_def]
  show "invx {c} r" "\<exists>lt lp. r = st\<lparr>locks := lt, locksByPath := lp\<rparr>" using r(1) by blast+
  show "lockset r = {l \<in> lockset st. l_client (hlock st l) \<noteq> c}" using r(2) by (rule foldl_drop_vals)
qed

lemma release_delegs_inv:
  assumes inv: "invx {c} st" and c: "c \<notin> vals (unconfirmed st)"
  defines "r \<equiv> foldl (release_deleg c) st (delegs st)"
  shows "invx {c} r" "delegs_only st r" "delegset r = {d \<in> delegset st. dg_client (hdeleg st d) \<noteq> c}"
    "\<forall>e. e \<noteq> c \<longrightarrow> c_delegs (hclient r e) = c_delegs (hclient st e)"
proof -
  let ?I = "\<lambda>s. invx {c} s \<and> delegs_only st s \<and> (\<forall>e. e \<noteq> c \<longrightarrow> c_delegs (hclient s e) = c_delegs (hclient st e))"
  have d: "distinct (map fst (delegs st))" using inv by (simp add: inv_defs tab_ok_def)
  have i0: "?I st" using inv by simp
  have step: "?I (release_deleg c s (k, d)) \<and> map_of (delegs (release_deleg c s (k, d)))
      = (if dg_client (hdeleg st d) = c then (map_of (delegs s))(k := None) else map_of (delegs s))"
    if s: "?I s" and k: "map_of (delegs s) k = Some d" for s k d
  proof -
    have i: "invx {c} s" and o': "delegs_only st s" using s by blast+
    note fr = delegs_only_fields [OF o']
    have dg: "d \<in> delegset s" "dg_other (hdeleg s d) = k"
      using k i tab_okD [of "delegs s" "\<lambda>d. dg_other (hdeleg s d)"] by (auto simp: vals_iff inv_defs)
    have cu: "{c} \<inter> vals (unconfirmed s) = {}" using c fr by auto
    have m: "map_of (delegs (dropDelegationLocked d s)) = (map_of (delegs s))(k := None)"
      using dg(2) by (simp add: dropDelegationLocked_def upd_client_def Let_def fun_eq_iff)
    have n: "c_delegs (hclient (dropDelegationLocked d s) e) = c_delegs (hclient s e)" if "dg_client (hdeleg s d) = c" "e \<noteq> c" for e
      using that by (simp add: dropDelegationLocked_def upd_client_def Let_def)
    show ?thesis using s fr m n invx_dropDelegationLocked(1) [OF i dg(1) cu] delegs_only_trans [OF o' delegs_only_drop(1) [of s d]]
      by (simp add: release_deleg_def)
  qed
  note r = foldl_drop_all [of delegs st ?I "release_deleg c" "\<lambda>_ d. dg_client (hdeleg st d) = c", OF d i0 step, folded r_def]
  show "invx {c} r" "delegs_only st r" "\<forall>e. e \<noteq> c \<longrightarrow> c_delegs (hclient r e) = c_delegs (hclient st e)" using r(1) by blast+
  show "delegset r = {d \<in> delegset st. dg_client (hdeleg st d) \<noteq> c}" using r(2) by (rule foldl_drop_vals)
qed

text \<open>What releasing client \<open>c\<close> does: every object of \<open>c\<close> goes, every object of another client stays.\<close>

definition released :: "addr \<Rightarrow> stateStore \<Rightarrow> stateStore \<Rightarrow> bool" where
  "released c st st' \<longleftrightarrow> clientset st' = clientset st - {c}
     \<and> confirmed st' = AList.delete (c_id (hclient st c)) (confirmed st)
     \<and> byOwner st' = AList.delete (c_ownerID (hclient st c)) (byOwner st)
     \<and> openset st' = {a \<in> openset st. o_client (hopen st a) \<noteq> c} \<and> lockset st' = {l \<in> lockset st. l_client (hlock st l) \<noteq> c}
     \<and> delegset st' = {d \<in> delegset st. dg_client (hdeleg st d) \<noteq> c}
     \<and> hopen st' = hopen st \<and> hlock st' = hlock st \<and> howner st' = howner st
     \<and> unconfirmed st' = unconfirmed st \<and> nextAddr st' = nextAddr st \<and> nextClient st' = nextClient st \<and> nextOther st' = nextOther st \<and> epoch st' = epoch st
     \<and> lease st' = lease st \<and> recallWait st' = recallWait st \<and> expired st' = expired st \<and> expiredIDs st' = expiredIDs st
     \<and> (\<forall>d. c_id (hclient st' d) = c_id (hclient st d) \<and> c_ownerID (hclient st' d) = c_ownerID (hclient st d)
         \<and> c_lastRenew (hclient st' d) = c_lastRenew (hclient st d))
     \<and> (\<forall>d. d \<noteq> c \<longrightarrow> c_opens (hclient st' d) = c_opens (hclient st d) \<and> c_delegs (hclient st' d) = c_delegs (hclient st d))"

lemma releaseLocked_inv:
  assumes "nfs_inv st" "c \<in> clientset st"
  shows "nfs_inv (fst (releaseLocked c st))" "released c st (fst (releaseLocked c st))"
proof -
  define st0 where "st0 = unlist_client c st"
  note u = invx_unlist_client [OF assms, folded st0_def]
  have c0: "c \<notin> clientset st0" "c \<notin> vals (unconfirmed st0)" using u by (auto simp: st0_def unlist_client_def)
  have "clients_ok (nextClient st) (confirmed st) (unconfirmed st) (byOwner st) (hclient st)" using assms(1) by (simp add: nfs_inv_defs)
  note bo = clients_ok_unlist(3) [OF this assms(2)]
  define r where "r = foldl (release_open c) (st0, []) (opens st0)"
  note r1 = release_opens_inv [OF u(1) c0(1), folded r_def]
  obtain ot bp so where e1: "fst r = st0\<lparr>opens := ot, byPath := bp, stateOwners := so\<rparr>" using r1(2) by blast
  define st2 where "st2 = upd_client c (\<lambda>x. x\<lparr>c_opens := 0\<rparr>) (fst r)"
  have i2: "invx {c} st2" unfolding st2_def by (rule invx_upd_gone_client [OF r1(1)]) (use c0 e1 in simp_all)
  define st3 where "st3 = foldl (release_owner c) st2 (stateOwners st2)"
  note r3 = release_owners_inv [OF i2, folded st3_def]
  obtain so' where e3: "st3 = st2\<lparr>stateOwners := so'\<rparr>" using r3 by blast
  define st4 where "st4 = foldl (release_lock c) st3 (locks st3)"
  note r4 = release_locks_inv [OF conjunct1 [OF r3], folded st4_def]
  obtain lt lp where e4: "st4 = st3\<lparr>locks := lt, locksByPath := lp\<rparr>" using r4(2) by blast
  define st5 where "st5 = foldl (release_deleg c) st4 (delegs st4)"
  have cu: "c \<notin> vals (unconfirmed st4)" using c0(2) by (simp add: e4 e3 st2_def upd_client_def e1)
  note r5 = release_delegs_inv [OF r4(1) cu, folded st5_def]
  note fr = delegs_only_fields [OF r5(2)]
  have st5: "fst (releaseLocked c st) = st5"
  proof -
    have "st\<lparr>confirmed := AList.delete (c_id (hclient st c)) (confirmed st), byOwner := AList.delete (c_ownerID (hclient st c)) (byOwner st)\<rparr> = st0"
      using bo by (simp add: st0_def unlist_client_def)
    then show ?thesis using bo
      by (simp add: releaseLocked_def Let_def split_beta r_def [symmetric] st2_def [symmetric] st3_def [symmetric] st4_def [symmetric] st5_def [symmetric])
  qed
  have b4: "confirmed st4 = confirmed st0" "byOwner st4 = byOwner st0" "opens st4 = opens (fst r)" "hopen st4 = hopen st0" "hlock st4 = hlock st0"
    "hdeleg st4 = hdeleg st0" "delegs st4 = delegs st0" "howner st4 = howner st0" "unconfirmed st4 = unconfirmed st0" "nextAddr st4 = nextAddr st0" "nextClient st4 = nextClient st0"
    "nextOther st4 = nextOther st0" "epoch st4 = epoch st0" "lease st4 = lease st0" "recallWait st4 = recallWait st0" "expired st4 = expired st0"
    "expiredIDs st4 = expiredIDs st0" "locks st3 = locks st0" "hlock st3 = hlock st0"
    "hclient st4 = (hclient st0)(c := (hclient st0 c)\<lparr>c_opens := 0\<rparr>)"
    by (simp_all add: e4 e3 st2_def upd_client_def e1)
  have b0: "hopen st0 = hopen st" "hlock st0 = hlock st" "hdeleg st0 = hdeleg st" "delegs st0 = delegs st" "howner st0 = howner st"
    "unconfirmed st0 = unconfirmed st" "nextAddr st0 = nextAddr st" "nextClient st0 = nextClient st" "nextOther st0 = nextOther st" "epoch st0 = epoch st" "lease st0 = lease st"
    "recallWait st0 = recallWait st" "expired st0 = expired st" "expiredIDs st0 = expiredIDs st" "locks st0 = locks st" "opens st0 = opens st"
    "hclient st0 = hclient st" "confirmed st0 = AList.delete (c_id (hclient st c)) (confirmed st)" "byOwner st0 = AList.delete (c_ownerID (hclient st c)) (byOwner st)"
    using bo by (simp_all add: st0_def unlist_client_def)
  have sets: "openset st5 = {a \<in> openset st. o_client (hopen st a) \<noteq> c}" "lockset st5 = {l \<in> lockset st. l_client (hlock st l) \<noteq> c}"
    "delegset st5 = {d \<in> delegset st. dg_client (hdeleg st d) \<noteq> c}" "clientset st5 = clientset st - {c}"
    using r1(3) r4(3) r5(3) u(2) fr b4 b0 by simp_all
  show "released c st (fst (releaseLocked c st))" unfolding released_def st5
    using sets fr b4 b0 r5(4) by simp
  show "nfs_inv (fst (releaseLocked c st))" unfolding st5
    by (rule invx_done [OF r5(1)]) (use sets fr b4 b0 in simp_all)
qed

section \<open>Lease expiry\<close>

lemma foldl_tombstones:
  fixes st :: stateStore
  assumes "\<And>st e. \<exists>m. f st e = st\<lparr>expired := m\<rparr>"
  shows "\<exists>m. foldl f st xs = st\<lparr>expired := m\<rparr>"
proof (induction xs arbitrary: st)
  case Nil
  show ?case by (rule exI [of _ "expired st"]) simp
next
  case (Cons e xs)
  obtain m where m: "f st e = st\<lparr>expired := m\<rparr>" using assms by blast
  show ?case using Cons.IH [of "st\<lparr>expired := m\<rparr>"] by (simp add: m)
qed

lemma tombstone_step: "\<exists>m. (if P then st\<lparr>expired := x\<rparr> else st) = (st :: stateStore)\<lparr>expired := m\<rparr>"
  by (cases P) (auto intro: exI [of _ "expired st"])

lemma expire_client_inv:
  assumes inv: "nfs_inv st" and k: "map_of (confirmed st) i = Some c" and e: "expire_client now (st, fs) (i, c) = (st', fs')"
  shows "nfs_inv st' \<and> (\<forall>d. c_lastRenew (hclient st' d) = c_lastRenew (hclient st d)) \<and> lease st' = lease st
    \<and> nextOther st' = nextOther st \<and> nextClient st' = nextClient st
    \<and> map_of (confirmed st') = (if now < c_lastRenew (hclient st c) + lease st then map_of (confirmed st) else (map_of (confirmed st))(i := None))"
proof (cases "now < c_lastRenew (hclient st c) + lease st")
  case False
  define st1 where "st1 = st\<lparr>expiredIDs := AList.update (c_id (hclient st c)) now (expiredIDs st)\<rparr>"
  define st2 where "st2 = foldl (\<lambda>st (k, w). if w_client (howner st w) = c then st\<lparr>expired := AList.update k now (expired st)\<rparr> else st) st1 (stateOwners st1)"
  define st3 where "st3 = foldl (\<lambda>st (k, d). if dg_client (hdeleg st d) = c then st\<lparr>expired := AList.update k now (expired st)\<rparr> else st) st2 (delegs st2)"
  obtain m where m: "st2 = st1\<lparr>expired := m\<rparr>" unfolding st2_def using foldl_tombstones [of "\<lambda>st (k, w). if w_client (howner st w) = c then st\<lparr>expired := AList.update k now (expired st)\<rparr> else st"]
    by (auto simp: split_beta tombstone_step)
  obtain m' where "st3 = st2\<lparr>expired := m'\<rparr>" unfolding st3_def using foldl_tombstones [of "\<lambda>st (k, d). if dg_client (hdeleg st d) = c then st\<lparr>expired := AList.update k now (expired st)\<rparr> else st"]
    by (auto simp: split_beta tombstone_step)
  then have st3: "st3 = st\<lparr>expiredIDs := expiredIDs st1, expired := m'\<rparr>" by (simp add: m st1_def)
  have i3: "nfs_inv st3" using inv by (simp add: st3)
  have c3: "c \<in> clientset st3" using k by (auto simp: st3 vals_iff)
  have "st' = fst (releaseLocked c st3)"
    using e False by (simp add: expire_client_def Let_def st1_def [symmetric] st2_def [symmetric] st3_def [symmetric] split: prod.splits)
  moreover have "c_id (hclient st c) = i" using inv k by (simp add: nfs_inv_defs clients_ok_def)
  ultimately show ?thesis using False releaseLocked_inv [OF i3 c3] by (simp add: released_def st3 fun_eq_iff)
qed (use e inv in \<open>simp add: expire_client_def\<close>)

text \<open>Forgetting unconfirmed clients.\<close>

lemma invx_fewer_unconfirmed:
  assumes "invx X st" "map_of u \<subseteq>\<^sub>m map_of (unconfirmed st)" "distinct (map fst u)"
  shows "invx X (st\<lparr>unconfirmed := u\<rparr>)"
proof -
  note i = assms(1) [unfolded inv_defs]
  have u: "map_of (unconfirmed st) k = Some c" if "map_of u k = Some c" for k c
    using assms(2) that unfolding map_le_def by (metis domI)
  have v: "vals u \<subseteq> vals (unconfirmed st)" using u unfolding vals_iff subset_iff by blast
  have n: "map_of u k = None" if "map_of (unconfirmed st) k = None" for k using u that by (cases "map_of u k") auto
  have "addrs_ok (nextAddr st) (openset st) (lockset st) (delegset st) (clientset st) (vals u) (vals (stateOwners st))"
    by (rule addrs_ok_sub [of _ "openset st" "lockset st" "delegset st" "clientset st" "vals (unconfirmed st)" "vals (stateOwners st)"])
      (use i v in auto)
  moreover have "clients_ok (nextClient st) (confirmed st) u (byOwner st) (hclient st)"
  proof -
    have ck: "clients_ok (nextClient st) (confirmed st) (unconfirmed st) (byOwner st) (hclient st)" using i by blast
    show ?thesis unfolding clients_ok_def
    proof (intro conjI)
      show "\<forall>i. map_of (confirmed st) i = None \<or> map_of u i = None" using ck n unfolding clients_ok_def by metis
      show "\<forall>i c. map_of u i = Some c \<longrightarrow> c_opens (hclient st c) = 0 \<and> c_delegs (hclient st c) = 0"
        using ck u unfolding clients_ok_def by metis
    qed (use ck u in \<open>simp_all add: clients_ok_def\<close>)
  qed
  ultimately show ?thesis using i assms(3) by (simp add: inv_defs)
qed

lemma map_of_filter_le: "distinct (map fst m) \<Longrightarrow> map_of (filter P m) \<subseteq>\<^sub>m map_of m"
proof -
  assume d: "distinct (map fst m)"
  have "map_of m k = Some v" if "map_of (filter P m) k = Some v" for k v
    using map_of_SomeD [OF that] d by (auto intro: map_of_is_SomeI)
  then show ?thesis unfolding map_le_def by (metis domD)
qed

lemma distinct_filter_fst: "distinct (map fst m) \<Longrightarrow> distinct (map fst (filter P m))"
  by (induction m) auto

lemma revoke_overdue_inv:
  fixes now :: time
  assumes inv: "nfs_inv st"
  defines "r \<equiv> foldl (\<lambda>st (k, d). if dg_recalling (hdeleg st d) \<and> now \<ge> dg_recallAt (hdeleg st d) + recallWait st
                 then revokeDelegationLocked d now st else st) st (delegs st)"
  shows "nfs_inv r" "delegs_only st r" "hdeleg r = hdeleg st"
    "delegset r = {d \<in> delegset st. \<not> (dg_recalling (hdeleg st d) \<and> now \<ge> dg_recallAt (hdeleg st d) + recallWait st)}"
proof -
  let ?f = "\<lambda>st (k, d). if dg_recalling (hdeleg st d) \<and> now \<ge> dg_recallAt (hdeleg st d) + recallWait st
                 then revokeDelegationLocked d now st else st"
  let ?P = "\<lambda>d. dg_recalling (hdeleg st d) \<and> now \<ge> dg_recallAt (hdeleg st d) + recallWait st"
  let ?I = "\<lambda>s. nfs_inv s \<and> delegs_only st s \<and> hdeleg s = hdeleg st"
  have d: "distinct (map fst (delegs st))" using inv by (simp add: inv_defs tab_ok_def)
  have i0: "?I st" using inv by simp
  have step: "?I (?f s (k, d)) \<and> map_of (delegs (?f s (k, d))) = (if ?P d then (map_of (delegs s))(k := None) else map_of (delegs s))"
    if s: "?I s" and k: "map_of (delegs s) k = Some d" for s k d
  proof -
    have i: "nfs_inv s" and o': "delegs_only st s" and h: "hdeleg s = hdeleg st" using s by blast+
    note fr = delegs_only_fields [OF o']
    have dg: "d \<in> delegset s" "dg_other (hdeleg s d) = k"
      using k i tab_okD [of "delegs s" "\<lambda>d. dg_other (hdeleg s d)"] by (auto simp: vals_iff inv_defs)
    have m: "map_of (delegs (revokeDelegationLocked d now s)) = (map_of (delegs s))(k := None)" "hdeleg (revokeDelegationLocked d now s) = hdeleg s"
      using dg(2) by (simp_all add: revokeDelegationLocked_def dropDelegationLocked_def upd_client_def Let_def fun_eq_iff)
    show ?thesis using s fr m h nfs_inv_revokeDelegationLocked(1) [OF i dg(1)] delegs_only_trans [OF o' delegs_only_drop(2) [of s d now]]
      by simp
  qed
  note r = foldl_drop_all [of delegs st ?I ?f "\<lambda>_ d. ?P d", OF d i0 step, folded r_def]
  show "nfs_inv r" "delegs_only st r" "hdeleg r = hdeleg st" using r(1) by blast+
  show "delegset r = {d \<in> delegset st. \<not> ?P d}" using r(2) by (rule foldl_drop_vals)
qed

text \<open>A sweep keeps the invariant and leaves only clients whose lease is current.\<close>

lemma sweepExpired_inv:
  assumes inv: "nfs_inv st"
  shows "nfs_inv (fst (sweepExpired now st))" "nextOther (fst (sweepExpired now st)) = nextOther st" "nextClient (fst (sweepExpired now st)) = nextClient st"
    "lease (fst (sweepExpired now st)) = lease st"
    "c \<in> clientset (fst (sweepExpired now st)) \<Longrightarrow> now < c_lastRenew (hclient (fst (sweepExpired now st)) c) + lease st"
proof -
  let ?old = "\<lambda>t. now \<ge> t + lease st"
  define st1 where "st1 = st\<lparr>lastSweep := Some now, expired := filter (\<lambda>(k, t). \<not> ?old t) (expired st),
    expiredIDs := filter (\<lambda>(k, t). \<not> ?old t) (expiredIDs st), revokedDelegs := filter (\<lambda>(k, t). \<not> ?old t) (revokedDelegs st)\<rparr>"
  define st2 where "st2 = foldl (\<lambda>st (k, d). if dg_recalling (hdeleg st d) \<and> now \<ge> dg_recallAt (hdeleg st d) + recallWait st
                 then revokeDelegationLocked d now st else st) st1 (delegs st1)"
  define st3 where "st3 = st2\<lparr>unconfirmed := filter (\<lambda>(i, c). \<not> ?old (c_lastRenew (hclient st2 c))) (unconfirmed st2)\<rparr>"
  have i1: "nfs_inv st1" using inv by (simp add: st1_def)
  note r2 = revoke_overdue_inv [OF i1, of now, folded st2_def]
  note fr = delegs_only_fields [OF r2(2)]
  have du: "distinct (map fst (unconfirmed st2))" using r2(1) by (simp add: inv_defs)
  have i3: "nfs_inv st3" unfolding st3_def
    by (rule invx_fewer_unconfirmed [OF r2(1) map_of_filter_le [OF du] distinct_filter_fst [OF du]])
  have b3: "lease st3 = lease st" "nextOther st3 = nextOther st" "nextClient st3 = nextClient st"
    using fr by (simp_all add: st3_def st1_def)
  have sw: "sweepExpired now st = foldl (expire_client now) (st3, []) (confirmed st3)"
    by (simp add: sweepExpired_def Let_def st3_def st2_def st1_def)
  let ?I = "\<lambda>s. nfs_inv (fst s) \<and> lease (fst s) = lease st \<and> nextOther (fst s) = nextOther st \<and> nextClient (fst s) = nextClient st
    \<and> (\<forall>d. c_lastRenew (hclient (fst s) d) = c_lastRenew (hclient st3 d))"
  let ?P = "\<lambda>c. \<not> now < c_lastRenew (hclient st3 c) + lease st"
  have d: "distinct (map fst (confirmed (fst (st3, [] :: nat list))))" using i3 by (simp add: inv_defs)
  have i0: "?I (st3, [] :: nat list)" using i3 b3 by simp
  have step: "?I (expire_client now s (i, c)) \<and> map_of (confirmed (fst (expire_client now s (i, c))))
      = (if ?P c then (map_of (confirmed (fst s)))(i := None) else map_of (confirmed (fst s)))"
    if s: "?I s" and k: "map_of (confirmed (fst s)) i = Some c" for s i c
  proof -
    obtain s1 fs where e: "s = (s1, fs)" by (cases s)
    obtain s2 fs2 where x: "expire_client now (s1, fs) (i, c) = (s2, fs2)" by fastforce
    show ?thesis using expire_client_inv [OF _ _ x] s k by (simp add: e x)
  qed
  note r = foldl_drop_all [of "\<lambda>s. confirmed (fst s)" "(st3, [])" ?I "expire_client now" "\<lambda>_ c. ?P c", OF d i0 step]
  show "nfs_inv (fst (sweepExpired now st))" "nextOther (fst (sweepExpired now st)) = nextOther st" "nextClient (fst (sweepExpired now st)) = nextClient st"
    "lease (fst (sweepExpired now st)) = lease st"
    using r(1) by (simp_all add: sw)
  show "now < c_lastRenew (hclient (fst (sweepExpired now st)) c) + lease st" if c: "c \<in> clientset (fst (sweepExpired now st))"
  proof -
    obtain i where "map_of (confirmed (fst (sweepExpired now st))) i = Some c" using c unfolding vals_iff by blast
    then have "\<not> ?P c" using r(2) by (simp add: sw)
    then show ?thesis using r(1) by (simp add: sw)
  qed
qed

section \<open>Registering a client\<close>

text \<open>A record of a client that is not confirmed yet.\<close>

lemma nfs_inv_new_client:
  assumes inv: "nfs_inv st" and room: "unat (nextClient st) + 1 < 2 ^ 64"
    and x: "c_id x = nextClient st + 1" "c_openOwners x = []" "c_lockOwners x = []" "c_opens x = 0" "c_delegs x = 0"
  shows "nfs_inv (st\<lparr>nextClient := nextClient st + 1, hclient := (hclient st)(nextAddr st := x), nextAddr := Suc (nextAddr st),
    unconfirmed := AList.update (nextClient st + 1) (nextAddr st) (unconfirmed st)\<rparr>)"
proof -
  define a where "a = nextAddr st"
  define n where "n = nextClient st + 1"
  define hc where "hc = (hclient st)(a := x)"
  note i = inv [unfolded nfs_inv_defs]
  have n: "unat n = unat (nextClient st) + 1" using unat_next [OF room] by (simp add: n_def)
  have ck: "clients_ok (nextClient st) (confirmed st) (unconfirmed st) (byOwner st) (hclient st)" using i by blast
  have le: "i \<le> nextClient st" if "map_of (confirmed st) i = Some c \<or> map_of (unconfirmed st) i = Some c" for i c
    using ck that by (auto simp: clients_ok_def)
  have "\<not> n \<le> nextClient st" using n by (simp add: word_le_nat_alt)
  then have fresh: "map_of (confirmed st) n = None" "map_of (unconfirmed st) n = None"
    using le [of n] by (metis not_None_eq)+
  have af: "a \<notin> openset st" "a \<notin> clientset st" "a \<notin> vals (unconfirmed st)" using i unfolding a_def addrs_ok_def by auto
  have vu: "vals (AList.update n a (unconfirmed st)) = insert a (vals (unconfirmed st))" by (rule vals_update_fresh [OF fresh(2)])
  have hc: "hc d = hclient st d" if "d \<in> clientset st \<union> vals (unconfirmed st)" for d using that af by (auto simp: hc_def)
  have "addrs_ok (Suc a) (openset st) (lockset st) (delegset st) (clientset st) (insert a (vals (unconfirmed st))) (vals (stateOwners st))"
    using i unfolding addrs_ok_def a_def by (auto intro: less_SucI)
  moreover have "routes_ok (stateOwners st) (howner st) hc (openset st) (hopen st) (lockset st) (hlock st)"
  proof -
    have "hc (o_client (hopen st b)) = hclient st (o_client (hopen st b))" if "b \<in> openset st" for b using that i hc by (simp add: held_ok_def)
    moreover have "hc (l_client (hlock st b)) = hclient st (l_client (hlock st b))" if "b \<in> lockset st" for b using that i hc by (simp add: held_ok_def)
    moreover have "routes_ok (stateOwners st) (howner st) (hclient st) (openset st) (hopen st) (lockset st) (hlock st)" using i by blast
    ultimately show ?thesis by (simp add: routes_ok_def)
  qed
  moreover have "counts_ok (clientset st) hc (openset st) (hopen st) (delegset st) (hdeleg st)"
  proof -
    have "counts_ok (clientset st) (hclient st) (openset st) (hopen st) (delegset st) (hdeleg st)" using i by blast
    then show ?thesis using hc unfolding counts_ok_def by (auto cong: ball_cong)
  qed
  moreover have "owners_ok (Suc a) hc (howner st)"
  proof -
    have "owners_ok (Suc a) (hclient st) (howner st)" by (rule owners_ok_mono [of a "hclient st"]) (use i in \<open>auto simp: a_def\<close>)
    then show ?thesis using x by (auto simp: owners_ok_def hc_def)
  qed
  moreover have "clients_ok n (confirmed st) (AList.update n a (unconfirmed st)) (byOwner st) hc"
  proof -
    have le': "i \<le> n" if "i \<le> nextClient st" for i using that n by (simp add: word_le_nat_alt)
    have c1: "hc c = hclient st c" if "map_of (confirmed st) i = Some c" for i c using that hc by (auto simp: vals_iff)
    have c2: "hc c = hclient st c" if "map_of (unconfirmed st) i = Some c" for i c using that hc by (auto simp: vals_iff)
    have c3: "hc c = hclient st c" if "map_of (byOwner st) p = Some c" for p c using that ck hc by (auto simp: clients_ok_def)
    show ?thesis unfolding clients_ok_def
    proof (intro conjI allI impI)
      fix i c assume "map_of (confirmed st) i = Some c"
      with ck c1 le' show "c_id (hc c) = i" "i \<le> n" "map_of (byOwner st) (c_ownerID (hc c)) = Some c" by (simp_all add: clients_ok_def)
    next
      fix i c assume "map_of (AList.update n a (unconfirmed st)) i = Some c"
      then consider "i = n" "c = a" | "i \<noteq> n" "map_of (unconfirmed st) i = Some c" by (auto split: if_splits)
      then show "c_id (hc c) = i" "i \<le> n" "c_opens (hc c) = 0" "c_delegs (hc c) = 0"
        by (cases, use x ck c2 le' in \<open>simp_all add: clients_ok_def hc_def n_def\<close>)+
    next
      fix i show "map_of (confirmed st) i = None \<or> map_of (AList.update n a (unconfirmed st)) i = None"
        using ck fresh by (simp add: clients_ok_def)
    next
      fix p c assume "map_of (byOwner st) p = Some c"
      with ck c3 show "c \<in> clientset st" "c_ownerID (hc c) = p" by (simp_all add: clients_ok_def)
    qed
  qed
  ultimately show ?thesis using i by (simp add: nfs_inv_defs vu n_def [symmetric] a_def [symmetric] hc_def)
qed

lemma foldl_fewer_unconfirmed:
  fixes st :: stateStore
  assumes "distinct (map fst (unconfirmed st))" "\<And>s e. f s e = s \<or> (\<exists>k. f s e = s\<lparr>unconfirmed := AList.delete k (unconfirmed s)\<rparr>)"
  shows "\<exists>u. foldl f st xs = st\<lparr>unconfirmed := u\<rparr> \<and> map_of u \<subseteq>\<^sub>m map_of (unconfirmed st) \<and> distinct (map fst u)"
  using assms(1)
proof (induction xs arbitrary: st)
  case Nil
  then show ?case by (intro exI [of _ "unconfirmed st"]) simp
next
  case (Cons e xs)
  show ?case
  proof (cases "f st e = st")
    case True
    then show ?thesis using Cons by simp
  next
    case False
    then obtain k where k: "f st e = st\<lparr>unconfirmed := AList.delete k (unconfirmed st)\<rparr>" using assms(2) by blast
    obtain u where u: "foldl f (f st e) xs = (f st e)\<lparr>unconfirmed := u\<rparr>" "map_of u \<subseteq>\<^sub>m map_of (unconfirmed (f st e))" "distinct (map fst u)"
    proof -
      have "distinct (map fst (unconfirmed (f st e)))" using Cons.prems by (simp add: k)
      then show thesis using Cons.IH [of "f st e"] that by blast
    qed
    have "map_of (AList.delete k (unconfirmed st)) \<subseteq>\<^sub>m map_of (unconfirmed st)" by (auto simp: map_le_def split: if_splits)
    then have "map_of u \<subseteq>\<^sub>m map_of (unconfirmed st)" using u(2) by (auto simp: k intro: map_le_trans)
    then show ?thesis using u by (auto simp: k)
  qed
qed

lemma setClientID_inv:
  assumes inv: "nfs_inv st" and room: "unat (nextClient st) + 1 < 2 ^ 64"
  shows "nfs_inv (snd (st_setClientID own v pr cb rnd now st))" "nextOther (snd (st_setClientID own v pr cb rnd now st)) = nextOther st"
proof -
  let ?f = "\<lambda>st (id, c). if c_ownerID (hclient st c) = own then st\<lparr>unconfirmed := AList.delete id (unconfirmed st)\<rparr> else st"
  have d: "distinct (map fst (unconfirmed st))" using inv by (simp add: inv_defs)
  have "?f s e = s \<or> (\<exists>k. ?f s e = s\<lparr>unconfirmed := AList.delete k (unconfirmed s)\<rparr>)" for s e by (cases e) auto
  from foldl_fewer_unconfirmed [where f = ?f and xs = "unconfirmed st", OF d this] obtain u where u: "foldl ?f st (unconfirmed st) = st\<lparr>unconfirmed := u\<rparr>" "map_of u \<subseteq>\<^sub>m map_of (unconfirmed st)" "distinct (map fst u)"
    by blast
  note i1 = invx_fewer_unconfirmed [OF inv u(2,3)]
  let ?x = "zero_client\<lparr>c_id := nextClient st + 1, c_ownerID := own, c_verifier := v, c_principal := pr, c_cb := cb, c_lastRenew := now, c_confirmVerf := rnd\<rparr>"
  have "nfs_inv ((st\<lparr>unconfirmed := u\<rparr>)\<lparr>nextClient := nextClient (st\<lparr>unconfirmed := u\<rparr>) + 1,
      hclient := (hclient (st\<lparr>unconfirmed := u\<rparr>))(nextAddr (st\<lparr>unconfirmed := u\<rparr>) := ?x), nextAddr := Suc (nextAddr (st\<lparr>unconfirmed := u\<rparr>)),
      unconfirmed := AList.update (nextClient (st\<lparr>unconfirmed := u\<rparr>) + 1) (nextAddr (st\<lparr>unconfirmed := u\<rparr>)) (unconfirmed (st\<lparr>unconfirmed := u\<rparr>))\<rparr>)"
    by (rule nfs_inv_new_client [OF i1]) (use room in \<open>simp_all add: zero_client_def\<close>)
  then show "nfs_inv (snd (st_setClientID own v pr cb rnd now st))" "nextOther (snd (st_setClientID own v pr cb rnd now st)) = nextOther st"
    using inv u(1) by (auto simp: st_setClientID_def Let_def split: option.splits)
qed

text \<open>A pending client becomes the confirmed one of its identifier.\<close>

lemma clients_okD:
  assumes "clients_ok n cf un bo hc"
  shows "map_of cf i = Some c \<Longrightarrow> c_id (hc c) = i \<and> i \<le> n \<and> map_of bo (c_ownerID (hc c)) = Some c"
    "map_of un i = Some c \<Longrightarrow> c_id (hc c) = i \<and> i \<le> n" "map_of cf i = None \<or> map_of un i = None"
    "map_of un i = Some c \<Longrightarrow> c_opens (hc c) = 0 \<and> c_delegs (hc c) = 0"
    "map_of bo p = Some c \<Longrightarrow> c \<in> vals cf \<and> c_ownerID (hc c) = p"
  using assms unfolding clients_ok_def by metis+

lemma nfs_inv_confirm:
  assumes inv: "nfs_inv st" and c: "c \<notin> clientset st" "c \<notin> vals (unconfirmed st)" "c < nextAddr st" "c_opens (hclient st c) = 0" "c_delegs (hclient st c) = 0"
    and free: "map_of (confirmed st) (c_id (hclient st c)) = None" "map_of (unconfirmed st) (c_id (hclient st c)) = None"
      "map_of (byOwner st) (c_ownerID (hclient st c)) = None" "c_id (hclient st c) \<le> nextClient st"
  shows "nfs_inv (st\<lparr>confirmed := AList.update (c_id (hclient st c)) c (confirmed st), byOwner := AList.update (c_ownerID (hclient st c)) c (byOwner st)\<rparr>)"
proof -
  note i = inv [unfolded nfs_inv_defs]
  have ck: "clients_ok (nextClient st) (confirmed st) (unconfirmed st) (byOwner st) (hclient st)" using i by blast
  have v: "vals (AList.update (c_id (hclient st c)) c (confirmed st)) = insert c (clientset st)" by (rule vals_update_fresh [OF free(1)])
  have held: "held_ok (clientset st) (openset st) (hopen st) (lockset st) (hlock st) (delegset st) (hdeleg st)" using i by blast
  have none: "{a \<in> openset st. o_client (hopen st a) = c} = {}" "{d \<in> delegset st. dg_client (hdeleg st d) = c} = {}"
    using held c(1) unfolding held_ok_def by blast+
  have "addrs_ok (nextAddr st) (openset st) (lockset st) (delegset st) (insert c (clientset st)) (vals (unconfirmed st)) (vals (stateOwners st))"
    using i c(3) unfolding addrs_ok_def by auto
  moreover have "counts_ok (insert c (clientset st)) (hclient st) (openset st) (hopen st) (delegset st) (hdeleg st)"
  proof -
    have "counts_ok (clientset st) (hclient st) (openset st) (hopen st) (delegset st) (hdeleg st)" using i by blast
    moreover have "counts_ok {c} (hclient st) (openset st) (hopen st) (delegset st) (hdeleg st)"
      using c(4,5) none by (simp add: counts_ok_def)
    ultimately show ?thesis unfolding counts_ok_def by blast
  qed
  moreover have "held_ok (insert c (clientset st)) (openset st) (hopen st) (lockset st) (hlock st) (delegset st) (hdeleg st)"
    by (rule held_ok_mono [OF held]) auto
  moreover have "clients_ok (nextClient st) (AList.update (c_id (hclient st c)) c (confirmed st)) (unconfirmed st) (AList.update (c_ownerID (hclient st c)) c (byOwner st)) (hclient st)"
  proof -
    note k = clients_okD [OF ck]
    show ?thesis unfolding clients_ok_def v
    proof (intro conjI allI impI)
      fix i d assume "map_of (AList.update (c_id (hclient st c)) c (confirmed st)) i = Some d"
      then consider "i = c_id (hclient st c)" "d = c" | "map_of (confirmed st) i = Some d" by (cases "i = c_id (hclient st c)") simp_all
      then have "c_id (hclient st d) = i \<and> i \<le> nextClient st \<and> map_of (AList.update (c_ownerID (hclient st c)) c (byOwner st)) (c_ownerID (hclient st d)) = Some d"
      proof cases
        case 1
        then show ?thesis using free(4) by simp
      next
        case 2
        then have "c_ownerID (hclient st d) \<noteq> c_ownerID (hclient st c)" using k(1) [OF 2] free(3) by auto
        then show ?thesis using k(1) [OF 2] by simp
      qed
      then show "c_id (hclient st d) = i" "i \<le> nextClient st" "map_of (AList.update (c_ownerID (hclient st c)) c (byOwner st)) (c_ownerID (hclient st d)) = Some d"
        by blast+
    next
      fix p d assume "map_of (AList.update (c_ownerID (hclient st c)) c (byOwner st)) p = Some d"
      then consider "p = c_ownerID (hclient st c)" "d = c" | "map_of (byOwner st) p = Some d" by (cases "p = c_ownerID (hclient st c)") simp_all
      then have "d \<in> insert c (clientset st) \<and> c_ownerID (hclient st d) = p"
      proof cases
        case 2
        then show ?thesis using k(5) [OF 2] by blast
      qed simp
      then show "d \<in> insert c (clientset st)" "c_ownerID (hclient st d) = p" by blast+
    next
      fix i show "map_of (AList.update (c_id (hclient st c)) c (confirmed st)) i = None \<or> map_of (unconfirmed st) i = None" using k(3) [of i] free(2) by simp
    next
      fix i d assume u: "map_of (unconfirmed st) i = Some d"
      show "c_id (hclient st d) = i" "i \<le> nextClient st" "c_opens (hclient st d) = 0" "c_delegs (hclient st d) = 0" using k(2,4) [OF u] by blast+
    qed
  qed
  ultimately show ?thesis using i by (simp add: nfs_inv_defs v)
qed

lemma confirmClientID_inv:
  assumes inv: "nfs_inv st"
  shows "nfs_inv (snd (confirmClientID cid verf now st))" "nextOther (snd (confirmClientID cid verf now st)) = nextOther st"
proof -
  have again: "nfs_inv (snd (confirmClientID_again cid verf now st)) \<and> nextOther (snd (confirmClientID_again cid verf now st)) = nextOther st"
    using inv by (simp add: confirmClientID_again_def split: option.splits)
  have "nfs_inv (snd (confirmClientID cid verf now st)) \<and> nextOther (snd (confirmClientID cid verf now st)) = nextOther st"
  proof (cases "\<exists>c. map_of (unconfirmed st) cid = Some c \<and> c_confirmVerf (hclient st c) = verf")
    case False
    then have "confirmClientID cid verf now st = confirmClientID_again cid verf now st"
      by (auto simp: confirmClientID_def split: option.splits)
    with again show ?thesis by simp
  next
    case True
    then obtain c where c: "map_of (unconfirmed st) cid = Some c" "c_confirmVerf (hclient st c) = verf" by blast
    note i = inv [unfolded nfs_inv_defs]
    have ck: "clients_ok (nextClient st) (confirmed st) (unconfirmed st) (byOwner st) (hclient st)" using i by blast
    have id: "c_id (hclient st c) = cid" "cid \<le> nextClient st" "c_opens (hclient st c) = 0" "c_delegs (hclient st c) = 0" "map_of (confirmed st) cid = None"
      using ck c(1) by (auto simp: clients_ok_def)
    have cu: "c \<in> vals (unconfirmed st)" using c(1) by (auto simp: vals_iff)
    have cn: "c \<notin> clientset st" using clients_ok_disjoint [OF ck] cu by blast
    define st1 where "st1 = st\<lparr>unconfirmed := AList.delete cid (unconfirmed st)\<rparr>"
    have i1: "nfs_inv st1" unfolding st1_def
      by (rule invx_fewer_unconfirmed [OF inv]) (use i in \<open>auto simp: map_le_def split: if_splits\<close>)
    have u1: "c \<notin> vals (unconfirmed st1)"
    proof
      assume "c \<in> vals (unconfirmed st1)"
      then obtain j where "map_of (unconfirmed st) j = Some c" "j \<noteq> cid" by (auto simp: st1_def vals_iff split: if_splits)
      then show False using ck id(1) by (auto simp: clients_ok_def)
    qed
    define st2 where "st2 = (case map_of (byOwner st1) (c_ownerID (hclient st c)) of Some old \<Rightarrow> fst (releaseLocked old st1) | None \<Rightarrow> st1)"
    have a2: "c < nextAddr st" using i cu by (auto simp: addrs_ok_def)
    have 2: "nfs_inv st2 \<and> clientset st2 \<subseteq> clientset st \<and> map_of (confirmed st2) \<subseteq>\<^sub>m map_of (confirmed st) \<and> unconfirmed st2 = unconfirmed st1
      \<and> map_of (byOwner st2) (c_ownerID (hclient st c)) = None \<and> nextAddr st2 = nextAddr st \<and> nextClient st2 = nextClient st \<and> nextOther st2 = nextOther st
      \<and> c_id (hclient st2 c) = cid \<and> c_ownerID (hclient st2 c) = c_ownerID (hclient st c) \<and> c_opens (hclient st2 c) = 0 \<and> c_delegs (hclient st2 c) = 0"
    proof (cases "map_of (byOwner st1) (c_ownerID (hclient st c))")
      case None
      then show ?thesis using i1 id by (simp add: st2_def st1_def)
    next
      case (Some old)
      then have old: "old \<in> clientset st1" "c_ownerID (hclient st old) = c_ownerID (hclient st c)" using ck by (auto simp: clients_ok_def st1_def)
      note r = releaseLocked_inv [OF i1 old(1)]
      have "old \<noteq> c" using old(1) cn by (auto simp: st1_def)
      then show ?thesis using r Some old id by (auto simp: st2_def released_def st1_def map_le_def split: if_splits)
    qed
    have free: "map_of (confirmed st2) cid = None" using 2 id(5) by (metis domIff map_le_implies_dom_le subsetD)
    define st3 where "st3 = st2\<lparr>confirmed := AList.update (c_id (hclient st2 c)) c (confirmed st2), byOwner := AList.update (c_ownerID (hclient st2 c)) c (byOwner st2)\<rparr>"
    have i3: "nfs_inv st3" unfolding st3_def
      by (rule nfs_inv_confirm) (use 2 cn u1 a2 free id in \<open>auto simp: st1_def\<close>)
    have h1: "hclient st1 = hclient st" by (simp add: st1_def)
    have "snd (confirmClientID cid verf now st) = renewed now c st3"
      using c 2 by (simp add: h1 confirmClientID_def st1_def [symmetric] Let_def split_beta st3_def st2_def split: option.splits)
    then show ?thesis using i3 2 by (simp add: st3_def)
  qed
  then show "nfs_inv (snd (confirmClientID cid verf now st))" "nextOther (snd (confirmClientID cid verf now st)) = nextOther st" by blast+
qed

end
