(* ===== verification/Nfs_Inv_Rename.thy ===== *)
theory Nfs_Inv_Rename
  imports Nfs_Inv_Client
begin

text \<open>
  Renames: what the three loops of \<^verbatim>\<open>renamePath\<close> do to the path indexes, and that the invariant of the store
  survives a rename onto a name that no state uses.
\<close>

section \<open>Moving paths\<close>

definition under :: "string \<Rightarrow> string \<Rightarrow> bool" where
  "under d p \<longleftrightarrow> p = d \<or> take (length (d @ ''/'')) p = d @ ''/''"

lemma under_refl [simp]: "under d d"
  by (simp add: under_def)

lemma under_iff: "under d p \<longleftrightarrow> (\<exists>r. p = d @ r \<and> (r = [] \<or> hd r = CHR ''/''))"
proof
  assume "under d p"
  then consider "p = d" | "take (length (d @ ''/'')) p = d @ ''/''" by (auto simp: under_def)
  then show "\<exists>r. p = d @ r \<and> (r = [] \<or> hd r = CHR ''/'')"
  proof cases
    case 2
    then have "p = d @ CHR ''/'' # drop (length (d @ ''/'')) p"
      by (metis append.assoc append_Cons append_Nil append_take_drop_id)
    then show ?thesis by (metis list.sel(1))
  qed auto
next
  assume "\<exists>r. p = d @ r \<and> (r = [] \<or> hd r = CHR ''/'')"
  then obtain r where "p = d @ r" "r = [] \<or> hd r = CHR ''/''" by blast
  then show "under d p" by (cases r) (auto simp: under_def)
qed

definition dest :: "string \<Rightarrow> string \<Rightarrow> string \<Rightarrow> string" where
  "dest from to p = fst (moved from to p)"

lemma moved_eq: "moved from to p = (dest from to p, under from p)"
  by (auto simp: moved_def dest_def under_def)

lemma dest_under: "under from p \<Longrightarrow> dest from to p = to @ drop (length from) p"
  by (auto simp: dest_def moved_def under_def)

lemma dest_other [simp]: "\<not> under from p \<Longrightarrow> dest from to p = p"
  by (auto simp: dest_def moved_def under_def)

lemma under_dest: "under from p \<Longrightarrow> under to (dest from to p)"
  by (auto simp: under_iff dest_under)

text \<open>Neither path lies under the other.\<close>

definition apart :: "string \<Rightarrow> string \<Rightarrow> bool" where
  "apart a b \<longleftrightarrow> \<not> under a b \<and> \<not> under b a"

lemma apart_sym: "apart a b \<Longrightarrow> apart b a"
  by (simp add: apart_def)

lemma apart_disjoint:
  assumes "apart a b" "under a p"
  shows "\<not> under b p"
proof
  assume "under b p"
  then obtain r s where *: "p = a @ r" "r = [] \<or> hd r = CHR ''/''" "p = b @ s" "s = [] \<or> hd s = CHR ''/''"
    using assms(2) by (auto simp: under_iff)
  then consider us where "a = b @ us" "s = us @ r" | us where "b = a @ us" "r = us @ s"
    by (metis append_eq_append_conv2)
  then show False
  proof cases
    case 1
    then have "us = [] \<or> hd us = CHR ''/''" using *(4) by (cases us) auto
    then show False using 1 assms(1) by (auto simp: apart_def under_iff)
  next
    case 2
    then have "us = [] \<or> hd us = CHR ''/''" using *(2) by (cases us) auto
    then show False using 2 assms(1) by (auto simp: apart_def under_iff)
  qed
qed

lemma dest_inj:
  assumes "apart from to" "\<not> under to p" "\<not> under to q" "dest from to p = dest from to q"
  shows "p = q"
proof (cases "under from p"; cases "under from q")
  assume "under from p" "under from q"
  then show ?thesis using assms(4) by (auto simp: dest_under under_iff)
next
  assume "under from p" "\<not> under from q"
  then show ?thesis using assms under_dest [of "from" p to] by simp
next
  assume "\<not> under from p" "under from q"
  then show ?thesis using assms under_dest [of "from" q to] by simp
next
  assume "\<not> under from p" "\<not> under from q"
  then show ?thesis using assms by simp
qed

lemma dest_eq_iff:
  assumes "\<not> under to p"
  shows "dest from to p = q \<longleftrightarrow> (if under to q then p = from @ drop (length to) q else \<not> under from q \<and> p = q)"
proof (cases "under from p")
  case True
  then obtain s where s: "p = from @ s" "s = [] \<or> hd s = CHR ''/''" by (auto simp: under_iff)
  then have "dest from to p = to @ s" "under to (to @ s)" using True by (auto simp: dest_under under_iff)
  then show ?thesis using True s by (auto simp: under_iff)
next
  case False
  then have "p \<noteq> from @ drop (length to) q" if "under to q"
    using that by (auto simp: under_iff)
  then show ?thesis using False assms by auto
qed

section \<open>The loops\<close>

text \<open>Objects that carry their path.\<close>

locale pathed =
  fixes set_path :: "string \<Rightarrow> 'x \<Rightarrow> 'x" and get_path :: "'x \<Rightarrow> string"
  assumes set_same: "set_path (get_path x) x = x"
    and get_set: "get_path (set_path p x) = p"
    and set_set: "set_path p (set_path q x) = set_path p x"
begin

definition repath :: "string \<Rightarrow> string \<Rightarrow> 'x \<Rightarrow> 'x" where
  "repath from to x = set_path (dest from to (get_path x)) x"

lemma repath_other: "\<not> under from (get_path x) \<Longrightarrow> repath from to x = x"
  by (simp add: repath_def set_same)

lemma repath_twice: "apart from to \<Longrightarrow> repath from to (repath from to x) = repath from to x"
  using apart_disjoint [of to "from" "dest from to (get_path x)"] under_dest [of "from" "get_path x" to]
  by (cases "under from (get_path x)") (auto simp: repath_def get_set set_set set_same apart_def)

lemma foldl_repath:
  assumes "apart from to"
  shows "foldl (\<lambda>h a. h(a := set_path (fst (moved from to (get_path (h a)))) (h a))) h xs
    = (\<lambda>a. if a \<in> set xs then repath from to (h a) else h a)"
proof (induction xs arbitrary: h)
  case (Cons x xs)
  show ?case
    unfolding foldl_Cons Cons.IH
    by (rule ext) (simp add: repath_twice [OF assms] dest_def [symmetric] repath_def [symmetric])
qed auto

text \<open>The loop after the keys \<open>ks\<close>: each key under \<open>from\<close> has been moved, objects and all.\<close>

lemma foldl_move:
  assumes ap: "apart from to" and quiet: "\<And>q. under to q \<Longrightarrow> idx_get q idx = []" and ks: "distinct ks"
  shows "foldl (move_entry set_path get_path from to) (idx, h) (map (\<lambda>p. (p, idx_get p idx)) ks) = (idx', h')
    \<Longrightarrow> (\<forall>q. idx_get q idx' = (if under to q \<and> from @ drop (length to) q \<in> set ks then idx_get (from @ drop (length to) q) idx
           else if under from q \<and> q \<in> set ks then [] else idx_get q idx))
      \<and> h' = (\<lambda>a. if \<exists>p \<in> set ks. under from p \<and> a \<in> set (idx_get p idx) then repath from to (h a) else h a)"
  using ks
proof (induction ks arbitrary: idx' h' rule: rev_induct)
  case Nil
  then show ?case using quiet by auto
next
  case (snoc p ks)
  obtain i1 h1 where first: "foldl (move_entry set_path get_path from to) (idx, h) (map (\<lambda>p. (p, idx_get p idx)) ks) = (i1, h1)"
    by fastforce
  note IH = snoc.IH [OF first]
  have d: "distinct ks" "p \<notin> set ks" using snoc.prems(2) by simp_all
  have get1: "idx_get q i1 = (if under to q \<and> from @ drop (length to) q \<in> set ks then idx_get (from @ drop (length to) q) idx
      else if under from q \<and> q \<in> set ks then [] else idx_get q idx)" for q
    using IH d by blast
  have h1: "h1 = (\<lambda>a. if \<exists>p \<in> set ks. under from p \<and> a \<in> set (idx_get p idx) then repath from to (h a) else h a)"
    using IH d by blast
  have step: "move_entry set_path get_path from to (i1, h1) (p, idx_get p idx) = (idx', h')"
    using snoc.prems(1) first by simp
  show ?case
  proof (cases "under from p")
    case False
    have "from @ drop (length to) q \<noteq> p" if "under to q" for q
      using False that by (auto simp: under_iff)
    moreover have "idx' = i1" "h' = h1" using step False by (simp_all add: move_entry_def moved_eq)
    ultimately show ?thesis using False get1 h1 by auto
  next
    case True
    define t where "t = dest from to p"
    obtain r where r: "p = from @ r" "t = to @ r"
      using True by (auto simp: t_def dest_under under_iff)
    have t: "under to t" "from @ drop (length to) t = p"
      using under_dest [OF True, of to] r by (simp_all add: t_def)
    have "\<not> under from t"
      using apart_disjoint [OF apart_sym [OF ap] t(1)] .
    note t = t this
    have uniq: "q = t" if "under to q" "from @ drop (length to) q = p" for q
      using that r by (auto simp: under_iff)
    have pt: "p \<noteq> t" using t(3) True by auto
    have "idx' = AList.update t (idx_get t (AList.delete p i1) @ idx_get p idx) (AList.delete p i1)"
      and h': "h' = (\<lambda>a. if a \<in> set (idx_get p idx) then repath from to (h1 a) else h1 a)"
      using step True by (simp_all add: move_entry_def moved_eq foldl_repath [OF ap, unfolded moved_eq fst_conv] t_def Let_def)
    then have idx': "idx_get q idx' = (if q = t then idx_get t i1 @ idx_get p idx else if q = p then [] else idx_get q i1)" for q
      using pt by (auto simp: idx_get_def)
    have "idx_get t i1 = []" using get1 [of t] t d(2) quiet [OF t(1)] by simp
    then have get2: "idx_get q idx' = (if q = t then idx_get p idx else if q = p then [] else idx_get q i1)" for q
      using idx' by simp
    have np: "\<not> under to p" using apart_disjoint [OF ap True] .
    have "idx_get q idx' = (if under to q \<and> from @ drop (length to) q \<in> set (ks @ [p]) then idx_get (from @ drop (length to) q) idx
           else if under from q \<and> q \<in> set (ks @ [p]) then [] else idx_get q idx)" for q
    proof -
      consider "q = t" | "q = p" | "q \<noteq> t" "q \<noteq> p" by blast
      then show ?thesis
      proof cases
        case 1
        then show ?thesis using get2 [of q] t by simp
      next
        case 2
        then show ?thesis using get2 [of q] np True pt by simp
      next
        case 3
        then have "under to q \<Longrightarrow> from @ drop (length to) q \<noteq> p" using uniq by blast
        with 3 show ?thesis using get2 [of q] get1 [of q] by auto
      qed
    qed
    moreover have "h' = (\<lambda>a. if \<exists>p \<in> set (ks @ [p]). under from p \<and> a \<in> set (idx_get p idx) then repath from to (h a) else h a)"
      unfolding h' h1 using True by (auto simp: fun_eq_iff repath_twice [OF ap])
    ultimately show ?thesis by blast
  qed
qed

lemma idx_get_outside: "p \<notin> set (remdups (map fst idx)) \<Longrightarrow> idx_get p idx = []"
  by (simp add: idx_get_def map_of_eq_None_iff [THEN iffD2])

lemma move_loop:
  assumes ap: "apart from to" and ok: "idx_ok (\<lambda>p. idx_get p idx) live (\<lambda>a. get_path (h a))"
    and quiet: "\<And>a. a \<in> live \<Longrightarrow> \<not> under to (get_path (h a))"
    and loop: "foldl (move_entry set_path get_path from to) (idx, h) (idx_range idx) = (idx', h')"
  shows "idx_ok (\<lambda>p. idx_get p idx') live (\<lambda>a. get_path (h' a))" "h' = (\<lambda>a. if a \<in> live then set_path (dest from to (get_path (h a))) (h a) else h a)"
proof -
  have mem: "a \<in> set (idx_get p idx) \<longleftrightarrow> a \<in> live \<and> get_path (h a) = p" for a p
    using idx_okD [OF ok] by blast
  have q: "idx_get q idx = []" if "under to q" for q
    using mem [of _ q] quiet that by (metis last_in_set)
  note r = foldl_move [OF ap q distinct_remdups [of "map fst idx"] loop [unfolded idx_range_def], simplified]
  have get: "idx_get q idx' = (if under to q then idx_get (from @ drop (length to) q) idx else if under from q then [] else idx_get q idx)" for q
    using r idx_get_outside [of _ idx] q by (auto split: if_splits)
  have touched: "(\<exists>p \<in> set (remdups (map fst idx)). under from p \<and> a \<in> set (idx_get p idx)) \<longleftrightarrow> a \<in> live \<and> under from (get_path (h a))" for a
    using mem idx_get_outside [of _ idx] by (metis empty_iff empty_set)
  show h': "h' = (\<lambda>a. if a \<in> live then set_path (dest from to (get_path (h a))) (h a) else h a)"
    unfolding repath_def [symmetric] using r touched by (auto simp: fun_eq_iff repath_other)
  have path': "get_path (h' a) = dest from to (get_path (h a))" if "a \<in> live" for a
    using that by (simp add: h' get_set)
  have origin: "dest from to (get_path (h a)) = q \<longleftrightarrow> (if under to q then get_path (h a) = from @ drop (length to) q
      else \<not> under from q \<and> get_path (h a) = q)" if "a \<in> live" for a q
    using dest_eq_iff [OF quiet [OF that]] .
  show "idx_ok (\<lambda>p. idx_get p idx') live (\<lambda>a. get_path (h' a))"
    unfolding idx_ok_def
  proof
    fix q
    have "{a \<in> live. get_path (h' a) = q} = {a \<in> live. if under to q then get_path (h a) = from @ drop (length to) q
      else \<not> under from q \<and> get_path (h a) = q}"
      by (intro Collect_cong conj_cong refl) (simp add: path' origin)
    then show "distinct (idx_get q idx') \<and> set (idx_get q idx') = {a \<in> live. get_path (h' a) = q}"
      unfolding get using ok by (auto simp: idx_ok_def)
  qed
qed

end

interpretation opath: pathed "\<lambda>p (x :: openState). x\<lparr>o_path := p\<rparr>" o_path
  by unfold_locales simp_all

interpretation lpath: pathed "\<lambda>p (x :: lockState). x\<lparr>l_path := p\<rparr>" l_path
  by unfold_locales simp_all

interpretation dpath: pathed "\<lambda>p (x :: delegation). x\<lparr>dg_path := p\<rparr>" dg_path
  by unfold_locales simp_all

section \<open>The invariant\<close>

text \<open>No open, lock state or delegation is at or under the path.\<close>

definition quiet :: "string \<Rightarrow> stateStore \<Rightarrow> bool" where
  "quiet p st \<longleftrightarrow> (\<forall>a \<in> openset st. \<not> under p (o_path (hopen st a))) \<and> (\<forall>l \<in> lockset st. \<not> under p (l_path (hlock st l)))
     \<and> (\<forall>d \<in> delegset st. \<not> under p (dg_path (hdeleg st d)))"

text \<open>What a rename makes of the store: every live object under \<open>from\<close> carries its new path.\<close>

definition repathed :: "string \<Rightarrow> string \<Rightarrow> stateStore \<Rightarrow> stateStore \<Rightarrow> bool" where
  "repathed from to st st' \<longleftrightarrow> (\<exists>bp lp dp. st' = st\<lparr>byPath := bp, locksByPath := lp, delegsByPath := dp,
       hopen := (\<lambda>a. if a \<in> openset st then (hopen st a)\<lparr>o_path := dest from to (o_path (hopen st a))\<rparr> else hopen st a),
       hlock := (\<lambda>l. if l \<in> lockset st then (hlock st l)\<lparr>l_path := dest from to (l_path (hlock st l))\<rparr> else hlock st l),
       hdeleg := (\<lambda>d. if d \<in> delegset st then (hdeleg st d)\<lparr>dg_path := dest from to (dg_path (hdeleg st d))\<rparr> else hdeleg st d)\<rparr>)"

lemma renamePath_repathed:
  assumes inv: "inv_tables st" and ap: "apart from to" and quiet: "quiet to st"
  shows "repathed from to st (renamePath from to st)"
    "idx_ok (\<lambda>p. idx_get p (byPath (renamePath from to st))) (openset st) (\<lambda>a. o_path (hopen (renamePath from to st) a))"
    "idx_ok (\<lambda>p. idx_get p (locksByPath (renamePath from to st))) (lockset st) (\<lambda>l. l_path (hlock (renamePath from to st) l))"
    "idx_ok (\<lambda>p. idx_get p (delegsByPath (renamePath from to st))) (delegset st) (\<lambda>d. dg_path (hdeleg (renamePath from to st) d))"
proof -
  obtain bp ho where o': "foldl (move_entry (\<lambda>p x. x\<lparr>o_path := p\<rparr>) o_path from to) (byPath st, hopen st) (idx_range (byPath st)) = (bp, ho)"
    by fastforce
  obtain lp hl where l: "foldl (move_entry (\<lambda>p x. x\<lparr>l_path := p\<rparr>) l_path from to) (locksByPath st, hlock st) (idx_range (locksByPath st)) = (lp, hl)"
    by fastforce
  obtain dp hg where d: "foldl (move_entry (\<lambda>p x. x\<lparr>dg_path := p\<rparr>) dg_path from to) (delegsByPath st, hdeleg st) (idx_range (delegsByPath st)) = (dp, hg)"
    by fastforce
  have r: "renamePath from to st = st\<lparr>byPath := bp, hopen := ho, locksByPath := lp, hlock := hl, delegsByPath := dp, hdeleg := hg\<rparr>"
    using o' l d by (simp add: renamePath_def)
  have idx: "idx_ok (\<lambda>p. idx_get p (byPath st)) (openset st) (\<lambda>a. o_path (hopen st a))"
    "idx_ok (\<lambda>p. idx_get p (locksByPath st)) (lockset st) (\<lambda>l. l_path (hlock st l))"
    "idx_ok (\<lambda>p. idx_get p (delegsByPath st)) (delegset st) (\<lambda>d. dg_path (hdeleg st d))"
    using inv by (simp_all add: inv_tables_def)
  have q: "\<And>a. a \<in> openset st \<Longrightarrow> \<not> under to (o_path (hopen st a))" "\<And>a. a \<in> lockset st \<Longrightarrow> \<not> under to (l_path (hlock st a))"
    "\<And>a. a \<in> delegset st \<Longrightarrow> \<not> under to (dg_path (hdeleg st a))"
    using quiet by (auto simp: quiet_def)
  note mo = opath.move_loop [OF ap idx(1) q(1) o'] and ml = lpath.move_loop [OF ap idx(2) q(2) l] and md = dpath.move_loop [OF ap idx(3) q(3) d]
  have heaps: "st\<lparr>byPath := bp, hopen := ho, locksByPath := lp, hlock := hl, delegsByPath := dp, hdeleg := hg\<rparr>
    = st\<lparr>byPath := bp, locksByPath := lp, delegsByPath := dp,
       hopen := (\<lambda>a. if a \<in> openset st then (hopen st a)\<lparr>o_path := dest from to (o_path (hopen st a))\<rparr> else hopen st a),
       hlock := (\<lambda>l. if l \<in> lockset st then (hlock st l)\<lparr>l_path := dest from to (l_path (hlock st l))\<rparr> else hlock st l),
       hdeleg := (\<lambda>d. if d \<in> delegset st then (hdeleg st d)\<lparr>dg_path := dest from to (dg_path (hdeleg st d))\<rparr> else hdeleg st d)\<rparr>"
    using mo(2) ml(2) md(2) by (cases st) simp
  show "repathed from to st (renamePath from to st)"
    unfolding repathed_def r using heaps by blast
  show "idx_ok (\<lambda>p. idx_get p (byPath (renamePath from to st))) (openset st) (\<lambda>a. o_path (hopen (renamePath from to st) a))"
    "idx_ok (\<lambda>p. idx_get p (locksByPath (renamePath from to st))) (lockset st) (\<lambda>l. l_path (hlock (renamePath from to st) l))"
    "idx_ok (\<lambda>p. idx_get p (delegsByPath (renamePath from to st))) (delegset st) (\<lambda>d. dg_path (hdeleg (renamePath from to st) d))"
    using mo(1) ml(1) md(1) by (simp_all add: r)
qed

lemma nfs_inv_renamePath:
  assumes inv: "nfs_inv st" and ap: "apart from to" and quiet: "quiet to st"
  shows "nfs_inv (renamePath from to st)"
proof -
  have parts: "inv_tables st" "inv_conflicts st" "inv_clients {} st"
    using inv by (simp_all add: invx_def)
  define st' where "st' = renamePath from to st"
  note idx = renamePath_repathed(2-4) [OF parts(1) ap quiet, folded st'_def]
  obtain bp lp dp where st': "st' = st\<lparr>byPath := bp, locksByPath := lp, delegsByPath := dp,
       hopen := (\<lambda>a. if a \<in> openset st then (hopen st a)\<lparr>o_path := dest from to (o_path (hopen st a))\<rparr> else hopen st a),
       hlock := (\<lambda>l. if l \<in> lockset st then (hlock st l)\<lparr>l_path := dest from to (l_path (hlock st l))\<rparr> else hlock st l),
       hdeleg := (\<lambda>d. if d \<in> delegset st then (hdeleg st d)\<lparr>dg_path := dest from to (dg_path (hdeleg st d))\<rparr> else hdeleg st d)\<rparr>"
    using renamePath_repathed(1) [OF parts(1) ap quiet] unfolding repathed_def st'_def by blast
  have f [simp]: "o_other (hopen st' a) = o_other (hopen st a)" "o_client (hopen st' a) = o_client (hopen st a)"
    "o_owner (hopen st' a) = o_owner (hopen st a)" "o_access (hopen st' a) = o_access (hopen st a)" "o_deny (hopen st' a) = o_deny (hopen st a)"
    "l_other (hlock st' a) = l_other (hlock st a)" "l_client (hlock st' a) = l_client (hlock st a)" "l_owner (hlock st' a) = l_owner (hlock st a)"
    "l_open (hlock st' a) = l_open (hlock st a)" "l_ranges (hlock st' a) = l_ranges (hlock st a)"
    "dg_other (hdeleg st' a) = dg_other (hdeleg st a)" "dg_client (hdeleg st' a) = dg_client (hdeleg st a)"
    "opens st' = opens st" "locks st' = locks st" "delegs st' = delegs st" "stateOwners st' = stateOwners st" "confirmed st' = confirmed st"
    "unconfirmed st' = unconfirmed st" "byOwner st' = byOwner st" "hclient st' = hclient st" "howner st' = howner st" "epoch st' = epoch st"
    "nextOther st' = nextOther st" "nextAddr st' = nextAddr st" "nextClient st' = nextClient st" for a
    by (simp_all add: st')
  have p: "a \<in> openset st \<Longrightarrow> o_path (hopen st' a) = dest from to (o_path (hopen st a))"
    "a \<in> lockset st \<Longrightarrow> l_path (hlock st' a) = dest from to (l_path (hlock st a))"
    "a \<in> delegset st \<Longrightarrow> dg_path (hdeleg st' a) = dest from to (dg_path (hdeleg st a))" for a
    by (simp_all add: st')
  note inj = dest_inj [OF ap]
  have q: "\<And>a. a \<in> openset st \<Longrightarrow> \<not> under to (o_path (hopen st a))" "\<And>a. a \<in> lockset st \<Longrightarrow> \<not> under to (l_path (hlock st a))"
    "\<And>a. a \<in> delegset st \<Longrightarrow> \<not> under to (dg_path (hdeleg st a))"
    using quiet by (auto simp: quiet_def)
  have "inv_tables st'"
    using parts(1) idx by (simp add: inv_tables_def)
  moreover have "inv_conflicts st'"
    unfolding inv_conflicts_def f
  proof (intro conjI)
    show "shares_ok (hopen st') (openset st)"
      using parts(2) inj [OF q(1) q(1)] unfolding inv_conflicts_def shares_ok_def by (auto simp: p)
    show "lockconf_ok (hlock st') (lockset st)"
      using parts(2) inj [OF q(2) q(2)] unfolding inv_conflicts_def lockconf_ok_def by (auto simp: p)
    show "deleg_ok (hdeleg st') (delegset st) (hopen st') (openset st)"
      using parts(2) inj [OF q(3) q(1)] unfolding inv_conflicts_def deleg_ok_def by (auto simp: p)
  qed
  moreover have "inv_clients {} st'"
  proof -
    have "lockopen_ok (hlock st') (lockset st) (hopen st') (openset st)"
      using parts(3) unfolding inv_clients_none lockopen_ok_def by (auto simp: p)
    moreover have "routes_ok so hw hc A (hopen st') L (hlock st') = routes_ok so hw hc A (hopen st) L (hlock st)"
      "counts_ok C hc A (hopen st') D (hdeleg st') = counts_ok C hc A (hopen st) D (hdeleg st)"
      "held_ok C A (hopen st') L (hlock st') D (hdeleg st') = held_ok C A (hopen st) L (hlock st) D (hdeleg st)" for so hw hc A L C D
      by (simp_all add: routes_ok_def counts_ok_def held_ok_def)
    ultimately show ?thesis
      using parts(3) unfolding inv_clients_none by simp
  qed
  ultimately show ?thesis
    by (simp add: invx_def st'_def)
qed

end
