(* ===== verification/Nfs_Inv_Ops.thy ===== *)
theory Nfs_Inv_Ops
  imports Nfs_Compound Nfs_Inv_Rename
begin

text \<open>
  The operations and the store. The operations on filehandles, attributes and directory listings leave the
  state store alone; every other handler keeps its invariant. Each handler is taken apart at the calls it
  makes, so that its proof is the composition of their lemmas.
\<close>

section \<open>What an operation ends in\<close>

text \<open>
  \<open>ends Q r\<close> says that the compound a result carries satisfies \<open>Q\<close>; \<open>hends\<close> says it of a handler's result. The rules take a
  handler apart: a \<open>let\<close> names its value instead of copying it.
\<close>

definition ends :: "('b compound \<Rightarrow> bool) \<Rightarrow> 'b result \<Rightarrow> bool" where
  "ends Q r \<longleftrightarrow> Q (snd (snd r))"

definition hends :: "('b compound \<Rightarrow> bool) \<Rightarrow> 'b result \<times> decoder \<Rightarrow> bool" where
  "hends Q r \<longleftrightarrow> ends Q (fst r)"

named_theorems wp \<open>rules that take a handler apart\<close>

lemma ends_Let [wp]: "(\<And>x. x = t \<Longrightarrow> ends Q (f x)) \<Longrightarrow> ends Q (Let t f)"
  by simp

lemma hends_Let [wp]: "(\<And>x. x = t \<Longrightarrow> hends Q (f x)) \<Longrightarrow> hends Q (Let t f)"
  by simp

lemma ends_prod [wp]: "ends Q (f (fst t) (snd t)) \<Longrightarrow> ends Q (case t of (x, y) \<Rightarrow> f x y)"
  by (simp add: split_beta)

lemma hends_prod [wp]: "hends Q (f (fst t) (snd t)) \<Longrightarrow> hends Q (case t of (x, y) \<Rightarrow> f x y)"
  by (simp add: split_beta)

lemma ends_prod_app [wp]: "ends Q (f (fst t) (snd t) z) \<Longrightarrow> ends Q ((case t of (x, y) \<Rightarrow> f x y) z)"
  by (simp add: split_beta)

lemma hends_prod_app [wp]: "hends Q (f (fst t) (snd t) z) \<Longrightarrow> hends Q ((case t of (x, y) \<Rightarrow> f x y) z)"
  by (simp add: split_beta)

lemma hends_pair [wp]: "ends Q r \<Longrightarrow> hends Q (r, d)"
  by (simp add: hends_def)

lemma ends_if [wp]: "(b \<Longrightarrow> ends Q x) \<Longrightarrow> (\<not> b \<Longrightarrow> ends Q y) \<Longrightarrow> ends Q (if b then x else y)"
  by simp

lemma ends_option [wp]:
  "(t = None \<Longrightarrow> ends Q x) \<Longrightarrow> (\<And>v. t = Some v \<Longrightarrow> ends Q (f v)) \<Longrightarrow> ends Q (case t of None \<Rightarrow> x | Some v \<Rightarrow> f v)"
  by (cases t) simp_all

lemma ends_sum [wp]:
  "(\<And>l. t = Inl l \<Longrightarrow> ends Q (f l)) \<Longrightarrow> (\<And>r. t = Inr r \<Longrightarrow> ends Q (g r)) \<Longrightarrow> ends Q (case t of Inl l \<Rightarrow> f l | Inr r \<Rightarrow> g r)"
  by (cases t) simp_all

lemma ends_status [wp]: "Q c \<Longrightarrow> ends Q (status e s c)"
  by (simp add: ends_def status_def)

lemma ends_triple [wp]: "Q c \<Longrightarrow> ends Q (s, e, c)"
  by (simp add: ends_def)

lemma ends_pairup [wp]: "Q (snd r) \<Longrightarrow> ends Q (s, r)"
  by (simp add: ends_def)

text \<open>The store is untouched, or keeps its invariant.\<close>

abbreviation same_store :: "'b compound \<Rightarrow> 'b compound \<Rightarrow> bool" where
  "same_store c \<equiv> \<lambda>c'. store c' = store c"

abbreviation kept :: "'b compound \<Rightarrow> bool" where
  "kept \<equiv> \<lambda>c. nfs_inv (store c)"

lemma same_store_kept: "hends (same_store c) r \<Longrightarrow> kept c \<Longrightarrow> hends kept r"
  by (simp add: hends_def ends_def)

section \<open>What leaves the store alone\<close>

lemma store_closeFile [simp]: "store (snd (closeFile cfg f c)) = store c"
  by (simp add: closeFile_def split_beta Let_def)

lemma store_closeOpt [simp]: "store (closeOpt cfg f c) = store c"
  by (simp add: closeOpt_def split: option.split)

lemma store_closeAll [simp]: "store (closeAll cfg fs c) = store c"
  by (induction fs arbitrary: c) (simp_all add: closeAll_def)

lemma store_file_io [simp]:
  "store (snd (file_ReadAt cfg f n off c)) = store c" "store (snd (file_WriteAt cfg f data off c)) = store c"
  "store (snd (file_sync cfg f c)) = store c"
  by (simp_all add: file_ReadAt_def file_WriteAt_def file_sync_def split_beta Let_def split: option.split)

lemma store_sync_all [simp]: "store (snd (sync_all cfg fs c)) = store c"
  by (induction fs arbitrary: c) (simp_all add: split_beta Let_def split: option.split)

lemma store_only_fhc: "only_fhc c c' \<Longrightarrow> store c' = store c \<and> fh c' = fh c"
  by (auto simp: only_fhc_def)

lemma store_encode [simp]:
  "store (snd (encodeFattr cfg rq p fi e c)) = store c" "store (snd (encode_values cfg p fi is e c)) = store c"
  using store_only_fhc encodeFattr_only encode_values_adds by blast+

lemma store_apply_times [simp]: "store (snd (snd (apply_times cfg ss now p named a c))) = store c"
proof (cases "lstatOrStat cfg p c")
  case (Inr fi)
  define pick where "pick = (\<lambda>v. case v of None \<Rightarrow> fi_mtime fi | Some (server, t) \<Rightarrow> if server then now else t)"
  obtain r b where "ss_chtimes ss p (pick (sa_atime a)) (pick (sa_mtime a)) (backend c) = (r, b)" by fastforce
  then show ?thesis
    unfolding apply_times_def Inr sum.case pick_def [symmetric] by (cases r) (simp_all add: Let_def)
qed (simp add: apply_times_def)

lemma store_apply_mode [simp]: "store (snd (snd (apply_mode cfg ss now p named a c))) = store c"
  by (simp add: apply_mode_def split_beta Let_def split: option.split)

lemma store_attrs [simp]: "store (snd (snd (applySetAttrs cfg now p named a c))) = store c"
  by (simp add: applySetAttrs_def split_beta Let_def split: option.split)

lemma store_dir [simp]:
  "store (snd (requireEmptyDir cfg p c)) = store c" "store (snd (remove_target cfg p isDir c)) = store c"
  "store (snd (rename_target cfg isDir p c)) = store c"
  by (simp_all add: requireEmptyDir_def remove_target_def rename_target_def split_beta Let_def split: option.split sum.split)

lemma store_read_pages [simp]: "store (snd (read_pages cfg limit f entries c)) = store c"
proof (induction cfg limit f entries c rule: read_pages.induct)
  case (1 cfg limit f entries c)
  obtain page err b where r: "fs_readdir (fsys cfg) f 256 (backend c) = ((page, err), b)" by (metis surj_pair)
  show ?case
    using 1 [OF r [symmetric] refl refl refl] by (subst read_pages.simps) (simp add: r Let_def split: option.split)
qed

lemma store_listing [simp]:
  "store (snd (readAllEntries cfg c)) = store c" "store (snd (dir_snapshot cfg now cookie verf c)) = store c"
  by (simp_all add: readAllEntries_def dir_snapshot_def split_beta Let_def split: option.split sum.split)

lemma store_readdir_emit [simp]: "store (snd (snd (readdir_emit cfg rq body sb nb i em fis e c))) = store c"
  by (induction fis arbitrary: nb i em e c) (simp_all add: split_beta Let_def)

text \<open>The operations that only read the state, or do not touch it.\<close>

lemma store_create_object [wp]: "same_store c0 c \<Longrightarrow> ends (same_store c0) (create_object cfg now typ link target attrs e c)"
  unfolding create_object_def by (intro wp) (simp_all add: split_beta)

lemma store_read_reply [wp]: "same_store c0 c \<Longrightarrow> ends (same_store c0) (read_reply cfg f off n e c)"
  unfolding read_reply_def by (intro wp) simp_all

lemma store_write_reply [wp]: "same_store c0 c \<Longrightarrow> ends (same_store c0) (write_reply cfg f off s data e c)"
  unfolding write_reply_def by (intro wp) simp_all

lemmas quiet_defs = op_putRootFH_def op_putFH_def op_getFH_def op_saveFH_def op_restoreFH_def op_lookup_def op_lookupP_def
  op_getAttr_def op_access_def op_readLink_def op_secInfo_def op_verify_def op_nVerify_def verifyCompare_def
  op_commit_def op_readDir_def op_create_def

lemma quiet_ops:
  "hends (same_store c) (op_putRootFH d e c)" "hends (same_store c) (op_putFH cfg d e c)"
  "hends (same_store c) (op_getFH cfg d e c)" "hends (same_store c) (op_saveFH d e c)"
  "hends (same_store c) (op_restoreFH d e c)" "hends (same_store c) (op_lookup cfg d e c)"
  "hends (same_store c) (op_lookupP cfg d e c)" "hends (same_store c) (op_getAttr cfg d e c)"
  "hends (same_store c) (op_access cfg d e c)" "hends (same_store c) (op_readLink cfg d e c)"
  "hends (same_store c) (op_secInfo cfg d e c)" "hends (same_store c) (op_verify cfg d e c)"
  "hends (same_store c) (op_nVerify cfg d e c)" "hends (same_store c) (op_commit cfg d e c)"
  "hends (same_store c) (op_readDir cfg now d e c)" "hends (same_store c) (op_create cfg now d e c)"
  unfolding quiet_defs by (intro wp; simp add: split_beta)+

section \<open>Operations that only renew leases and recall delegations\<close>

lemma same_ends_kept: "ends (same_store c) r \<Longrightarrow> kept c \<Longrightarrow> ends kept r"
  by (simp add: ends_def)

lemmas kept_replies [wp] = same_ends_kept [OF store_read_reply [OF refl]] same_ends_kept [OF store_write_reply [OF refl]]

lemma ends_closeIf [wp]: "ends kept r \<Longrightarrow> ends kept (closeIf cfg tmp f r)"
  by (simp add: ends_def closeIf_def split_beta)

lemma on_store_simps [simp]:
  "fst (on_store f c) = fst (f (store c))" "store (snd (on_store f c)) = snd (f (store c))" "fh (snd (on_store f c)) = fh c"
  "hasFH (snd (on_store f c)) = hasFH c"
  by (simp_all add: on_store_def split_beta Let_def)

lemma upd_store_simps [simp]: "store (upd_store f c) = f (store c)" "fh (upd_store f c) = fh c" "hasFH (upd_store f c) = hasFH c"
  by (simp_all add: upd_store_def)

text \<open>The operations on the store that at most renew a lease.\<close>

definition at_most_renewed :: "stateStore \<Rightarrow> stateStore \<Rightarrow> bool" where
  "at_most_renewed st st' \<longleftrightarrow> st' = st \<or> (\<exists>now c. st' = renewed now c st)"

lemma at_most_renewed_inv: "at_most_renewed st st' \<Longrightarrow> invx X st' = invx X st"
  by (auto simp: at_most_renewed_def)

lemma renewing_ops:
  "at_most_renewed st (snd (resolveIOStateid sq k p now st))" "at_most_renewed st (snd (resolveStateid sq k p now st))"
  "at_most_renewed st (snd (resolveLockStateid sq k p now st))" "at_most_renewed st (snd (ownerForStateid k now st))"
  "at_most_renewed st (snd (openOwnerForStateid k now st))" "at_most_renewed st (snd (lockTestOwner i key now st))"
  "at_most_renewed st (snd (st_renew i now st))"
  unfolding resolveIOStateid_def resolveStateid_def resolveLockStateid_def ownerForStateid_def openOwnerForStateid_def
    lockTestOwner_def st_renew_def
  by (auto simp: at_most_renewed_def Let_def split: option.split)

lemmas invx_renewing [simp] = renewing_ops [THEN at_most_renewed_inv]

lemma store_c_recall: "store (snd (c_recall p ex now c)) = snd (recallDelegations p ex now (store c))"
  "fst (c_recall p ex now c) = fst (fst (recallDelegations p ex now (store c)))"
  by (simp_all add: c_recall_def split_beta Let_def)

lemma kept_c_recall [simp]: "kept c \<Longrightarrow> kept (snd (c_recall p ex now c))"
  unfolding store_c_recall by (metis prod.collapse recallDelegations_inv(1))

lemma c_recall_simps [simp]: "fh (snd (c_recall p ex now c)) = fh c" "saved (snd (c_recall p ex now c)) = saved c"
  by (simp_all add: c_recall_def split_beta Let_def on_store_def)

lemma kept_ioState [simp]: "kept c \<Longrightarrow> kept (snd (ioState cfg now sq k write c))"
  unfolding ioState_def by (simp add: split_beta Let_def split: sum.split option.split)

lemma kept_read: "kept c \<Longrightarrow> hends kept (op_read cfg now d e c)"
  unfolding op_read_def by (intro wp) simp_all

lemma kept_write: "kept c \<Longrightarrow> hends kept (op_write cfg now d e c)"
  unfolding op_write_def by (intro wp) simp_all

lemma kept_setAttr: "kept c \<Longrightarrow> hends kept (op_setAttr cfg now d e c)"
  unfolding op_setAttr_def by (intro wp) (simp_all add: split_beta)

lemma kept_remove: "kept c \<Longrightarrow> hends kept (op_remove cfg now d e c)"
  unfolding op_remove_def by (intro wp) simp_all

lemma kept_link: "kept c \<Longrightarrow> hends kept (op_link cfg now d e c)"
  unfolding op_link_def by (intro wp) simp_all

lemma kept_renew: "kept c \<Longrightarrow> hends kept (op_renew now d e c)"
  unfolding op_renew_def by (intro wp) simp_all

section \<open>Clients and delegations\<close>

lemma kept_delegReturn:
  assumes "kept c"
  shows "hends kept (op_delegReturn now d e c)"
proof -
  have "nfs_inv (snd (returnDelegation sq k p now st))" if "nfs_inv st" for sq k p and st :: stateStore
    using that invx_dropDelegationLocked(1) [of "{}" st] vals_mapI [of "delegs st" k]
    unfolding returnDelegation_def by (auto simp: Let_def split: option.split)
  with assms show ?thesis
    unfolding op_delegReturn_def by (intro wp) simp_all
qed

lemma kept_setClientID:
  assumes "kept c" "unat (nextClient (store c)) + 1 < 2 ^ 64"
  shows "hends kept (op_setClientID cfg rnd now d e c)"
  unfolding op_setClientID_def using assms(1) setClientID_inv(1) [OF assms] by (intro wp) simp_all

lemma kept_setClientIDConfirm:
  assumes "kept c"
  shows "hends kept (op_setClientIDConfirm cfg now d e c)"
  unfolding op_setClientIDConfirm_def using assms confirmClientID_inv(1) [OF assms] by (intro wp) simp_all

section \<open>The sequence discipline\<close>

text \<open>Only owners change, and none changes its client.\<close>

definition owner_touch :: "stateStore \<Rightarrow> stateStore \<Rightarrow> bool" where
  "owner_touch st st' \<longleftrightarrow> (\<exists>hw. st' = st\<lparr>howner := hw\<rparr> \<and> (\<forall>w. w_client (hw w) = w_client (howner st w)))"

lemma owner_touch_refl [simp]: "owner_touch st st"
  unfolding owner_touch_def by (rule exI [of _ "howner st"]) simp

lemma owner_touch_trans: "owner_touch a b \<Longrightarrow> owner_touch b c \<Longrightarrow> owner_touch a c"
  by (auto simp: owner_touch_def)

lemma owner_touch_upd: "(\<And>x. w_client (f x) = w_client x) \<Longrightarrow> owner_touch st (upd_owner w f st)"
  unfolding owner_touch_def upd_owner_def by (intro exI [of _ "(howner st)(w := f (howner st w))"]) simp

lemma owner_touch_inv: "owner_touch st st' \<Longrightarrow> invx X st' = invx X st"
  using inv_clients_howner by (auto simp: owner_touch_def invx_def inv_tables_def inv_conflicts_def)

lemma owner_touch_fields:
  assumes "owner_touch st st'"
  shows "hopen st' = hopen st" "hlock st' = hlock st" "hclient st' = hclient st" "hdeleg st' = hdeleg st" "opens st' = opens st"
    "locks st' = locks st" "delegs st' = delegs st" "confirmed st' = confirmed st" "stateOwners st' = stateOwners st"
    "nextOther st' = nextOther st" "nextClient st' = nextClient st" "w_client (howner st' w) = w_client (howner st w)" "epoch st' = epoch st"
    "expired st' = expired st"
  using assms by (auto simp: owner_touch_def)

text \<open>
  What the operation under the discipline starts from: the same filehandle, and a store in which only owners
  were touched.
\<close>

definition starts :: "'b compound \<Rightarrow> 'b compound \<Rightarrow> bool" where
  "starts c c' \<longleftrightarrow> owner_touch (store c) (store c') \<and> fh c' = fh c \<and> hasFH c' = hasFH c"

lemma startsI [simp]: "(\<And>x. w_client (f x) = w_client x) \<Longrightarrow> starts c (upd_store (upd_owner w f) c)"
  by (simp add: starts_def owner_touch_upd)

lemma starts_refl [simp]: "starts c c"
  by (simp add: starts_def)

lemma starts_trans: "starts a b \<Longrightarrow> starts b c \<Longrightarrow> starts a c"
  by (auto simp: starts_def intro: owner_touch_trans)

lemma kept_upd_owner [simp]: "(\<And>x. w_client (f x) = w_client x) \<Longrightarrow> kept (upd_store (upd_owner w f) c) = kept c"
  by (simp add: invx_upd_owner)

lemma kept_withSeqid:
  assumes kept: "kept c" and replay: "kept (replay c)" and fn: "\<And>c'. starts c c' \<Longrightarrow> ends kept (fn [] c')"
  shows "ends kept (withSeqid w opnum sq e replay fn c)"
proof -
  define run where "run = (\<lambda>c. let (s, result, c) = fn [] c
            in if noAdvance s
               then let c = upd_store (upd_owner w (\<lambda>x. x\<lparr>w_seqid := w_seqid x - 1\<rparr>)) c;
                        c = (if w_lastReply (howner (store c) w) = None
                             then upd_store (upd_owner w (\<lambda>x. x\<lparr>w_fresh := True\<rparr>)) c else c)
                    in status e s c
               else let c = upd_store (upd_owner w (\<lambda>x. x\<lparr>w_lastOp := opnum, w_lastReply := clone_reply result\<rparr>)) c
                    in (s, e_opaqueFixed result e, c))"
  have "ends kept (run c')" if "starts c c'" for c'
    unfolding run_def using fn [OF that] unfolding ends_def [of kept "fn [] c'"]
    by (intro wp) (simp_all del: upd_store_simps split: if_split)
  then have "ends kept (run (upd_store (upd_owner w f) c))" if "\<And>x. w_client (f x) = w_client x" for f
    using that by simp
  then show ?thesis
    unfolding withSeqid_def run_def [symmetric] by (intro wp) (simp_all add: kept replay del: upd_store_simps)
qed

lemma kept_withTwoSeqids:
  assumes kept: "kept c" and fn: "\<And>c'. starts c c' \<Longrightarrow> ends kept (fn [] c')"
  shows "ends kept (withTwoSeqids ow lw openSeq lockSeq e fn c)"
proof -
  have "ends kept (fn [] (upd_store (upd_owner lw f) (upd_store (upd_owner ow g) c)))"
    if "\<And>x. w_client (f x) = w_client x" "\<And>x. w_client (g x) = w_client x" for f g
    using that by (intro fn) (blast intro: startsI starts_trans)
  then show ?thesis
    unfolding withTwoSeqids_def
    by (intro wp) (simp_all add: kept ends_def del: upd_store_simps)
qed

section \<open>Locks\<close>

lemma ends_encodeDenied [wp]: "Q c \<Longrightarrow> ends Q (encodeDenied l held e c)"
  by (simp add: encodeDenied_def ends_def Let_def)

lemma resolveStateid_OK:
  assumes "snd (fst (resolveStateid sq k p now st)) = nfs4OK" "k \<noteq> zeroOther" "k \<noteq> allOnesOther"
  obtains a where "fst (fst (resolveStateid sq k p now st)) = Some a" "map_of (opens st) k = Some a" "o_path (hopen st a) = p"
    "o_seq (hopen st a) = sq" "snd (resolveStateid sq k p now st) = renewed now (o_client (hopen st a)) st"
  using assms that unfolding resolveStateid_def by (auto simp: Let_def split: if_splits option.splits)

lemma resolveLockStateid_OK:
  assumes "snd (fst (resolveLockStateid sq k p now st)) = nfs4OK"
  obtains l where "fst (fst (resolveLockStateid sq k p now st)) = Some l" "map_of (locks st) k = Some l" "l_path (hlock st l) = p"
    "snd (resolveLockStateid sq k p now st) = renewed now (l_client (hlock st l)) st"
  using assms that unfolding resolveLockStateid_def by (auto simp: Let_def split: if_splits option.splits)

lemma ownerForStateid_OK:
  assumes "snd (fst (ownerForStateid k now st)) = nfs4OK"
  obtains w where "fst (fst (ownerForStateid k now st)) = Some w" "map_of (stateOwners st) k = Some w" "k \<noteq> zeroOther" "k \<noteq> allOnesOther"
    "snd (ownerForStateid k now st) = renewed now (w_client (howner st w)) st"
  using assms that unfolding ownerForStateid_def by (auto split: if_splits option.splits)

lemma room_fields: "room n (renewed now c st) = room n st" "owner_touch st st' \<Longrightarrow> room n st' = room n st"
  by (auto simp: room_def owner_touch_fields)

lemma lock_route:
  assumes "nfs_inv st" "map_of (locks st) k = Some l"
  shows "l_other (hlock st l) = k" "map_of (stateOwners st) k = Some (l_owner (hlock st l))"
proof -
  have t: "tab_ok (locks st) (\<lambda>l. l_other (hlock st l))" using assms(1) by (simp add: invx_def inv_tables_def)
  have r: "routes_ok (stateOwners st) (howner st) (hclient st) (openset st) (hopen st) (lockset st) (hlock st)"
    using assms(1) by (simp add: invx_def inv_clients_none)
  show k: "l_other (hlock st l) = k" using tab_okD [OF t assms(2)] .
  show "map_of (stateOwners st) k = Some (l_owner (hlock st l))"
    using r vals_mapI [OF assms(2)] k unfolding routes_ok_def by metis
qed

lemma open_route:
  assumes "nfs_inv st" "map_of (opens st) k = Some a"
  shows "o_other (hopen st a) = k" "map_of (stateOwners st) k = Some (o_owner (hopen st a))"
    "w_client (howner st (o_owner (hopen st a))) = o_client (hopen st a)" "o_owner (hopen st a) \<in> vals (c_openOwners (hclient st (o_client (hopen st a))))"
    "o_client (hopen st a) \<in> clientset st"
proof -
  have t: "tab_ok (opens st) (\<lambda>a. o_other (hopen st a))" using assms(1) by (simp add: invx_def inv_tables_def)
  have r: "routes_ok (stateOwners st) (howner st) (hclient st) (openset st) (hopen st) (lockset st) (hlock st)"
    "held_ok (clientset st) (openset st) (hopen st) (lockset st) (hlock st) (delegset st) (hdeleg st)"
    using assms(1) by (simp_all add: invx_def inv_clients_none)
  show k: "o_other (hopen st a) = k" using tab_okD [OF t assms(2)] .
  show "map_of (stateOwners st) k = Some (o_owner (hopen st a))"
    "w_client (howner st (o_owner (hopen st a))) = o_client (hopen st a)" "o_owner (hopen st a) \<in> vals (c_openOwners (hclient st (o_client (hopen st a))))"
    using r(1) vals_mapI [OF assms(2)] k unfolding routes_ok_def by metis+
  show "o_client (hopen st a) \<in> clientset st"
    using r(2) vals_mapI [OF assms(2)] unfolding held_ok_def by blast
qed

lemma lock_compat:
  assumes "nfs_inv st" "l \<in> lockset st" "m \<in> lockset st" "m \<noteq> l" "l_path (hlock st m) = l_path (hlock st l)"
  shows "l_owner (hlock st m) \<noteq> l_owner (hlock st l)" "compat (l_ranges (hlock st l)) (l_ranges (hlock st m))"
    "lr_inv (l_ranges (hlock st m))"
proof -
  have "lockconf_ok (hlock st) (lockset st)" using assms(1) by (simp add: inv_defs)
  then show "l_owner (hlock st m) \<noteq> l_owner (hlock st l)" "compat (l_ranges (hlock st l)) (l_ranges (hlock st m))"
    "lr_inv (l_ranges (hlock st m))"
    using assms(2-) unfolding lockconf_ok_def compat_def by metis+
qed

lemma lock_ranges_inv: "nfs_inv st \<Longrightarrow> l \<in> lockset st \<Longrightarrow> lr_inv (l_ranges (hlock st l))"
  by (simp add: inv_defs lockconf_ok_def)

lemma nfs_inv_lock_set:
  assumes inv: "nfs_inv st" and l: "l \<in> lockset st" and r: "lr_ok r"
    and free: "lockConflictLocked (l_path (hlock st l)) (Some (l_owner (hlock st l))) r st = None"
  shows "nfs_inv (upd_lock l (\<lambda>y. y\<lparr>l_ranges := setLockRange (l_ranges (hlock st l)) r, l_seq := l_seq y + 1\<rparr>) st)"
proof -
  have tabs: "inv_tables st" using inv by (simp add: invx_def)
  have "compat (setLockRange (l_ranges (hlock st l)) r) (l_ranges (hlock st m))"
    if m: "m \<in> lockset st" "m \<noteq> l" "l_path (hlock st m) = l_path (hlock st l)" for m
    using lock_compat [OF inv l m] lock_conflict_others [OF tabs free m(1,3)] lock_ranges_inv [OF inv l] r
    by (intro compat_set) auto
  then show ?thesis
    unfolding upd_lock_def using nfs_inv_upd_lock [OF inv l] setLockRange_correct(1) [OF lock_ranges_inv [OF inv l] r] by simp
qed

lemma nfs_inv_lock_subtract:
  assumes inv: "nfs_inv st" and l: "l \<in> lockset st" and r: "lr_ok r"
  shows "nfs_inv (upd_lock l (\<lambda>y. y\<lparr>l_ranges := subtractRange (l_ranges y) r, l_seq := l_seq y + 1\<rparr>) st)"
proof -
  have "compat (subtractRange (l_ranges (hlock st l)) r) (l_ranges (hlock st m))"
    if m: "m \<in> lockset st" "m \<noteq> l" "l_path (hlock st m) = l_path (hlock st l)" for m
    using lock_compat [OF inv l m] lock_ranges_inv [OF inv l] r by (intro compat_subtract) auto
  then show ?thesis
    unfolding upd_lock_def using nfs_inv_upd_lock [OF inv l] subtractRange_correct(1) [OF lock_ranges_inv [OF inv l] r] by simp
qed

lemma kept_lock_new:
  assumes kept: "kept c" and room: "room 1 (store c)" and k: "k \<noteq> zeroOther" "k \<noteq> allOnesOther"
    and lw: "lw \<in> vals (c_lockOwners (hclient (store c) (w_client (howner (store c) lw))))"
    and r: "rangeStatus = nfs4OK \<Longrightarrow> lr_ok r"
  shows "ends kept (lock_new cfg now ts rangeStatus reclaim write r sq k ow lw result c)"
proof -
  define st where "st = store c"
  define v where "v = resolveStateid sq k (fh c) now st"
  have add: "nfs_inv (snd (add_lock (the (fst (fst v))) lw (fh c) r (snd v)))"
    if "snd (fst v) = nfs4OK" "rangeStatus = nfs4OK"
      "o_client (hopen (snd v) (the (fst (fst v)))) = w_client (howner (snd v) lw)"
      "findLockStateLocked (fh c) lw (snd v) = None" "lockConflictLocked (fh c) (Some lw) r (snd v) = None"
  proof -
    note ok = that(1)
    obtain a where a: "fst (fst v) = Some a" "map_of (opens st) k = Some a" "o_path (hopen st a) = fh c"
      "snd v = renewed now (o_client (hopen st a)) st"
      using resolveStateid_OK [OF ok [unfolded v_def] k] unfolding v_def by metis
    have "a \<in> openset (snd v)" "o_path (hopen (snd v) a) = fh c" "room 1 (snd v)" "nfs_inv (snd v)"
      using a kept room by (auto simp: st_def room_fields intro: vals_mapI)
    moreover have "lw \<in> vals (c_lockOwners (hclient (snd v) (o_client (hopen (snd v) a))))"
      using lw that(3) a by (simp add: st_def)
    ultimately show ?thesis
      using nfs_inv_add_lock [of "snd v" a "fh c" lw r] r that a(1) by simp
  qed
  show ?thesis
    unfolding lock_new_def using kept add by (intro wp) (simp_all add: v_def st_def)
qed

lemma kept_lock_again:
  assumes kept: "kept c" and lw: "map_of (stateOwners (store c)) k = Some lw" and r: "rangeStatus = nfs4OK \<Longrightarrow> lr_ok r"
  shows "ends kept (lock_again cfg now ts rangeStatus reclaim write r sq k lw result c)"
proof -
  define st where "st = store c"
  define v where "v = resolveLockStateid sq k (fh c) now st"
  have add: "nfs_inv (upd_lock (the (fst (fst v))) (\<lambda>y. y\<lparr>l_ranges := setLockRange (l_ranges (hlock (snd v) (the (fst (fst v))))) r,
      l_seq := l_seq y + 1\<rparr>) (snd v))"
    if "snd (fst v) = nfs4OK" "rangeStatus = nfs4OK" "lockConflictLocked (fh c) (Some lw) r (snd v) = None"
  proof -
    note ok = that(1)
    obtain l where l: "fst (fst v) = Some l" "map_of (locks st) k = Some l" "l_path (hlock st l) = fh c"
      "snd v = renewed now (l_client (hlock st l)) st"
      using resolveLockStateid_OK [OF ok [unfolded v_def]] unfolding v_def by metis
    have live: "l \<in> lockset (snd v)" "nfs_inv (snd v)"
      using l kept by (auto simp: st_def intro: vals_mapI)
    have "l_owner (hlock st l) = lw"
      using lock_route(2) [OF kept l(2) [unfolded st_def]] lw by (simp add: st_def)
    then show ?thesis
      using nfs_inv_lock_set [OF live(2,1)] r that l by simp
  qed
  show ?thesis
    unfolding lock_again_def using kept add by (intro wp) (simp_all add: v_def st_def)
qed

lemma kept_lock_release:
  assumes kept: "kept c" and r: "rangeStatus = nfs4OK \<Longrightarrow> lr_ok r"
  shows "ends kept (lock_release cfg now ts rangeStatus r sq k result c)"
proof -
  define st where "st = store c"
  define v where "v = resolveLockStateid sq k (fh c) now st"
  have sub: "nfs_inv (upd_lock (the (fst (fst v))) (\<lambda>y. y\<lparr>l_ranges := subtractRange (l_ranges y) r, l_seq := l_seq y + 1\<rparr>) (snd v))"
    if "snd (fst v) = nfs4OK" "rangeStatus = nfs4OK"
  proof -
    note ok = that(1)
    obtain l where l: "fst (fst v) = Some l" "map_of (locks st) k = Some l" "snd v = renewed now (l_client (hlock st l)) st"
      using resolveLockStateid_OK [OF ok [unfolded v_def]] unfolding v_def by metis
    then have "l \<in> lockset (snd v)" "nfs_inv (snd v)"
      using kept by (auto simp: st_def intro: vals_mapI)
    then show ?thesis
      using nfs_inv_lock_subtract [of "snd v" l] r that l(1) by simp
  qed
  show ?thesis
    unfolding lock_release_def using kept sub by (intro wp) (simp_all add: v_def st_def)
qed

lemma makeLockRange_lr_ok: "v = makeLockRange off len w \<Longrightarrow> snd v = nfs4OK \<Longrightarrow> lr_ok (fst v)"
  using makeLockRange_ok(1) [of off len w "fst v"] by (metis prod.collapse)

lemma openOwnerForStateid_OK:
  assumes "snd (fst (openOwnerForStateid k now st)) = nfs4OK"
  shows "k \<noteq> zeroOther" "k \<noteq> allOnesOther"
  using assms unfolding openOwnerForStateid_def by (auto split: if_splits)

lemma invx_ownerOf [simp]: "nfs_inv st \<Longrightarrow> nfs_inv (snd (ownerOf i key now st))" "nfs_inv st \<Longrightarrow> nfs_inv (snd (lockOwnerOf i key now st))"
  unfolding ownerOf_in lockOwnerOf_in by (metis owner_in_inv prod.collapse)+

lemma lock_new_branch:
  assumes kept: "kept c" and room: "room 1 (store c)"
    and v: "v = on_store (openOwnerForStateid k now) c" "snd (fst v) = nfs4OK"
    and u: "u = on_store (lockOwnerOf i key now) (snd v)" "snd (fst u) = nfs4OK"
    and rs: "rs = makeLockRange off len wr'"
  shows "ends kept (withTwoSeqids (the (fst (fst v))) (the (fst (fst u))) osq lsq e
    (lock_new cfg now ts (snd rs) reclaim wr (fst rs) sq k (the (fst (fst v))) (the (fst (fst u)))) (snd u))"
proof -
  have k: "k \<noteq> zeroOther" "k \<noteq> allOnesOther"
    using openOwnerForStateid_OK [of k now "store c"] v by simp_all
  have inv: "nfs_inv (store (snd v))" using kept v by simp
  have own: "nfs_inv (store (snd u))" "\<exists>w. fst (fst u) = Some w \<and> w \<in> vals (c_lockOwners (hclient (store (snd u)) (w_client (howner (store (snd u)) w))))"
    using owner_in_inv [OF inv, of c_lockOwners "\<lambda>m x. x\<lparr>c_lockOwners := m\<rparr>" i key now "fst (fst u)" "snd (fst u)" "store (snd u)"] u
    unfolding lockOwnerOf_in by (auto simp: prod_eq_iff)
  have "nextOther (store (snd u)) = nextOther (store c)"
  proof -
    have "nextOther (snd (lockOwnerOf i key now st)) = nextOther st" for st
      unfolding lockOwnerOf_def by (simp add: Let_def upd_client_def split: option.split)
    moreover have "nextOther (snd (openOwnerForStateid k now st)) = nextOther st" for st
      unfolding openOwnerForStateid_def by (simp split: option.split)
    ultimately show ?thesis using u(1) v(1) by simp
  qed
  then have room': "room 1 (store (snd u))" using room by (simp add: room_def)
  show ?thesis
  proof (rule kept_withTwoSeqids [OF own(1)], rule kept_lock_new [OF _ _ k])
    fix c' assume st: "starts (snd u) c'"
    then have t: "owner_touch (store (snd u)) (store c')" by (simp add: starts_def)
    show "nfs_inv (store c')" using own(1) owner_touch_inv [OF t] by simp
    show "room 1 (store c')" using room' room_fields(2) [OF t] by simp
    show "the (fst (fst u)) \<in> vals (c_lockOwners (hclient (store c') (w_client (howner (store c') (the (fst (fst u)))))))"
      using own(2) owner_touch_fields [OF t] by auto
  qed (simp add: makeLockRange_lr_ok [OF rs])
qed

lemma lock_again_branch:
  assumes kept: "kept c" and v: "v = on_store (ownerForStateid k now) c" "snd (fst v) = nfs4OK"
    and rs: "rs = makeLockRange off len wr'"
  shows "ends kept (withSeqid (the (fst (fst v))) opn lsq e (\<lambda>c. c)
      (lock_again cfg now ts (snd rs) reclaim wr (fst rs) sq k (the (fst (fst v)))) (snd v))"
    "ends kept (withSeqid (the (fst (fst v))) opn lsq e (\<lambda>c. c) (lock_release cfg now ts (snd rs) (fst rs) sq k) (snd v))"
proof -
  have ok: "snd (fst (ownerForStateid k now (store c))) = nfs4OK" using v by simp
  obtain w where w: "fst (fst v) = Some w" "map_of (stateOwners (store (snd v))) k = Some w"
    using ownerForStateid_OK [OF ok] v by (metis on_store_simps(1,2) renewed_fields(14))
  have inv: "nfs_inv (store (snd v))" using kept v by simp
  show "ends kept (withSeqid (the (fst (fst v))) opn lsq e (\<lambda>c. c)
      (lock_again cfg now ts (snd rs) reclaim wr (fst rs) sq k (the (fst (fst v)))) (snd v))"
  proof (rule kept_withSeqid [where replay = "\<lambda>c. c", OF inv inv], rule kept_lock_again)
    fix c' assume "starts (snd v) c'"
    then have t: "owner_touch (store (snd v)) (store c')" by (simp add: starts_def)
    show "nfs_inv (store c')" using inv owner_touch_inv [OF t] by simp
    show "map_of (stateOwners (store c')) k = Some (the (fst (fst v)))" using w owner_touch_fields [OF t] by simp
  qed (simp add: makeLockRange_lr_ok [OF rs])
  show "ends kept (withSeqid (the (fst (fst v))) opn lsq e (\<lambda>c. c) (lock_release cfg now ts (snd rs) (fst rs) sq k) (snd v))"
  proof (rule kept_withSeqid [where replay = "\<lambda>c. c", OF inv inv], rule kept_lock_release)
    fix c' assume "starts (snd v) c'"
    then show "nfs_inv (store c')" using inv owner_touch_inv by (auto simp: starts_def)
  qed (simp add: makeLockRange_lr_ok [OF rs])
qed

lemma kept_lock:
  assumes "kept c" "room 1 (store c)"
  shows "hends kept (op_lock cfg now d e c)"
  unfolding op_lock_def
  by (intro wp lock_new_branch [OF assms] lock_again_branch(1) [OF assms(1)]) (use assms in simp_all)

lemma kept_lockT: "kept c \<Longrightarrow> hends kept (op_lockT cfg now d e c)"
  unfolding op_lockT_def by (intro wp) (simp_all add: split_beta)

lemma kept_lockU: "kept c \<Longrightarrow> hends kept (op_lockU cfg now d e c)"
  unfolding op_lockU_def by (intro wp lock_again_branch(2)) simp_all

end
