(* ===== verification/Nfs_Inv_Step.thy ===== *)
theory Nfs_Inv_Step
  imports Nfs_Inv_Ops
begin

text \<open>
  The remaining handlers (RELEASE_LOCKOWNER, the operations on opens, RENAME) keep the invariant of the store, so
  that every operation of the table does.
\<close>

unbundle bit_operations_syntax

section \<open>RELEASE_LOCKOWNER\<close>

lemma nfs_inv_forget_lockowner:
  assumes inv: "nfs_inv st" and w: "map_of (c_lockOwners (hclient st cl)) key = Some w"
    and free: "\<And>l. l \<in> lockset st \<Longrightarrow> l_owner (hlock st l) \<noteq> w"
  shows "nfs_inv (upd_client cl (\<lambda>x. x\<lparr>c_lockOwners := AList.delete key (c_lockOwners x)\<rparr>) st)"
proof -
  define f where "f = (\<lambda>x. x\<lparr>c_lockOwners := AList.delete key (c_lockOwners x)\<rparr> :: client)"
  define hc where "hc = (hclient st)(cl := f (hclient st cl))"
  have hc: "c_openOwners (hc c) = c_openOwners (hclient st c)" "c_opens (hc c) = c_opens (hclient st c)" "c_delegs (hc c) = c_delegs (hclient st c)"
    "c_id (hc c) = c_id (hclient st c)" "c_ownerID (hc c) = c_ownerID (hclient st c)" for c
    by (simp_all add: hc_def f_def)
  have lo: "vals (c_lockOwners (hc c)) \<subseteq> vals (c_lockOwners (hclient st c))"
    "u \<in> vals (c_lockOwners (hclient st c)) \<Longrightarrow> u \<noteq> w \<Longrightarrow> u \<in> vals (c_lockOwners (hc c))" for c u
    using w by (auto simp: hc_def f_def vals_iff split: if_splits) (metis option.inject)
  have parts: "routes_ok (stateOwners st) (howner st) (hclient st) (openset st) (hopen st) (lockset st) (hlock st)"
    "owners_ok (nextAddr st) (hclient st) (howner st)"
    "counts_ok (clientset st) (hclient st) (openset st) (hopen st) (delegset st) (hdeleg st)"
    "clients_ok (nextClient st) (confirmed st) (unconfirmed st) (byOwner st) (hclient st)"
    using inv by (simp_all add: invx_def inv_clients_none)
  have "routes_ok (stateOwners st) (howner st) hc (openset st) (hopen st) (lockset st) (hlock st)"
    using parts(1) free lo(2) unfolding routes_ok_def hc by blast
  moreover have "owners_ok (nextAddr st) hc (howner st)"
    using parts(2) lo(1) unfolding owners_ok_def hc by blast
  ultimately show ?thesis
    using inv parts counts_ok_hc [of hc "hclient st"] clients_ok_hc [of hc "hclient st"] hc
    unfolding upd_client_def f_def [symmetric] hc_def [symmetric]
    by (simp add: invx_def inv_tables_def inv_conflicts_def inv_clients_none)
qed

lemma kept_releaseLockOwner:
  assumes "kept c"
  shows "hends kept (op_releaseLockOwner now d e c)"
proof -
  have rel: "nfs_inv (upd_client cl (\<lambda>x. x\<lparr>c_lockOwners := AList.delete key (c_lockOwners x)\<rparr>) (foldl (drop_owner_lock w) st xs))"
    if "nfs_inv st" "map_of (c_lockOwners (hclient st cl)) key = Some w" "xs = locks st" for st cl key w xs
    using drop_owner_locks_inv [OF that(1), of w] that(2,3) locks_only_fields(1,3) [OF drop_owner_locks_inv(3) [OF that(1), of w]]
    by (intro nfs_inv_forget_lockowner [where w = w]) auto
  show ?thesis
    unfolding op_releaseLockOwner_def using assms by (intro wp) (simp_all add: rel)
qed

section \<open>OPEN_CONFIRM, OPEN_DOWNGRADE, CLOSE\<close>

lemma kept_open_confirm: "kept c \<Longrightarrow> ends kept (open_confirm now sq k w result c)"
  unfolding open_confirm_def by (intro wp) (simp_all add: invx_upd_owner)

lemma and_sub_zero: "a AND b = a \<Longrightarrow> b AND x = 0 \<Longrightarrow> a AND x = (0 :: u32)"
  by (metis and.assoc and_zero_eq)

lemma nfs_inv_narrow_open:
  assumes inv: "nfs_inv st" and h: "h \<in> openset st"
    and same: "o_other x = o_other (hopen st h)" "o_client x = o_client (hopen st h)" "o_owner x = o_owner (hopen st h)" "o_path x = o_path (hopen st h)"
    and less: "o_access x AND o_access (hopen st h) = o_access x" "o_deny x AND o_deny (hopen st h) = o_deny x"
  shows "nfs_inv (st\<lparr>hopen := (hopen st)(h := x)\<rparr>)"
proof (rule nfs_inv_upd_open [OF inv h same])
  have sh: "shares_ok (hopen st) (openset st)" and dg: "deleg_ok (hdeleg st) (delegset st) (hopen st) (openset st)"
    using inv by (simp_all add: inv_defs)
  fix b assume b: "b \<in> openset st" "b \<noteq> h" "o_path (hopen st b) = o_path x"
  have "o_access (hopen st h) AND o_deny (hopen st b) = 0" "o_access (hopen st b) AND o_deny (hopen st h) = 0"
    using sh b h same(4) unfolding shares_ok_def by metis+
  then show "o_access x AND o_deny (hopen st b) = 0 \<and> o_access (hopen st b) AND o_deny x = 0"
    using and_sub_zero [OF less(1)] and_sub_zero [OF less(2)] by (metis and.commute)
next
  have dg: "deleg_ok (hdeleg st) (delegset st) (hopen st) (openset st)" using inv by (simp add: inv_defs)
  fix d assume d: "d \<in> delegset st" "dg_path (hdeleg st d) = o_path x" "dg_client (hdeleg st d) \<noteq> o_client x"
  have "o_access (hopen st h) AND shareWrite = 0" "o_deny (hopen st h) AND denyRead = 0"
    using dg d h same(2,4) unfolding deleg_ok_def by metis+
  then show "o_access x AND shareWrite = 0 \<and> o_deny x AND denyRead = 0"
    using and_sub_zero [OF less(1)] and_sub_zero [OF less(2)] by simp
qed

lemma nfs_inv_downgrade_commit:
  assumes "nfs_inv st" "h \<in> openset st" "access AND o_access (hopen st h) = access" "deny AND o_deny (hopen st h) = deny"
  shows "nfs_inv (downgrade_commit now h access deny replacement flags st)"
proof -
  have "nfs_inv (upd_open h (\<lambda>x. x\<lparr>o_seq := o_seq x + 1, o_access := access, o_deny := deny\<rparr>) st)"
    unfolding upd_open_def using assms by (intro nfs_inv_narrow_open) simp_all
  then show ?thesis
    unfolding downgrade_commit_def Let_def by (simp add: invx_upd_open_same split: option.split)
qed

text \<open>An operation that starts by finding the owner of a stateid.\<close>

lemma kept_owner_op:
  assumes kept: "kept c" and v: "v = on_store (ownerForStateid k now) c" "snd (fst v) = nfs4OK"
    and fn: "\<And>c' w. kept c' \<Longrightarrow> k \<noteq> zeroOther \<Longrightarrow> k \<noteq> allOnesOther \<Longrightarrow> w = the (fst (fst v)) \<Longrightarrow> map_of (stateOwners (store c')) k = Some w
      \<Longrightarrow> ends kept (fn w [] c')"
  shows "ends kept (withSeqid (the (fst (fst v))) opn sq e (\<lambda>c. c) (fn (the (fst (fst v)))) (snd v))"
proof -
  have ok: "snd (fst (ownerForStateid k now (store c))) = nfs4OK" using v by simp
  obtain w where w: "fst (fst v) = Some w" "map_of (stateOwners (store (snd v))) k = Some w" "k \<noteq> zeroOther" "k \<noteq> allOnesOther"
    using ownerForStateid_OK [OF ok] v by (metis on_store_simps(1,2) renewed_fields(14))
  have inv: "nfs_inv (store (snd v))" using kept v by simp
  show ?thesis
  proof (rule kept_withSeqid [where replay = "\<lambda>c. c", OF inv inv])
    fix c' assume "starts (snd v) c'"
    then have t: "owner_touch (store (snd v)) (store c')" by (simp add: starts_def)
    show "ends kept (fn (the (fst (fst v))) [] c')"
      using inv owner_touch_inv [OF t] owner_touch_fields [OF t] w by (intro fn) simp_all
  qed
qed

lemma kept_openConfirm:
  assumes "kept c"
  shows "hends kept (op_openConfirm now d e c)"
  unfolding op_openConfirm_def
  by (intro wp kept_owner_op [OF assms, where fn = "\<lambda>w. open_confirm now sq k w" for sq k] kept_open_confirm) (use assms in simp_all)

lemma kept_open_downgrade:
  assumes kept: "kept c" and k: "k \<noteq> zeroOther" "k \<noteq> allOnesOther"
  shows "ends kept (open_downgrade cfg now sq k access deny result c)"
proof -
  define v where "v = resolveStateid sq k (fh c) now (store c)"
  have commit: "nfs_inv (downgrade_commit now (the (fst (fst v))) access deny rp flags (snd v))"
    if "snd (fst v) = nfs4OK" "access AND o_access (hopen (snd v) (the (fst (fst v)))) = access"
      "deny AND o_deny (hopen (snd v) (the (fst (fst v)))) = deny" for rp flags
  proof -
    note ok = that(1)
    obtain a where "fst (fst v) = Some a" "map_of (opens (store c)) k = Some a" "snd v = renewed now (o_client (hopen (store c) a)) (store c)"
      using resolveStateid_OK [OF ok [unfolded v_def] k] unfolding v_def by metis
    then show ?thesis
      using kept that by (intro nfs_inv_downgrade_commit) (auto intro: vals_mapI)
  qed
  show ?thesis
    unfolding open_downgrade_def using kept commit by (intro wp) (simp_all add: v_def)
qed

lemma kept_openDowngrade:
  assumes "kept c"
  shows "hends kept (op_openDowngrade cfg now d e c)"
  unfolding op_openDowngrade_def
  by (intro wp kept_owner_op [OF assms, where fn = "\<lambda>w. open_downgrade cfg now sq k access deny" for sq k access deny] kept_open_downgrade)
    (use assms in simp_all)

lemma kept_open_close:
  assumes kept: "kept c" and k: "k \<noteq> zeroOther" "k \<noteq> allOnesOther" and w: "map_of (stateOwners (store c)) k = Some w"
  shows "ends kept (open_close cfg now sq k w result c)"
proof -
  define v where "v = resolveStateid sq k (fh c) now (store c)"
  have commit: "nfs_inv (close_commit now (the (fst (fst v))) k w (snd v))"
    if "snd (fst v) = nfs4OK" "\<not> locksBlockCloseLocked (the (fst (fst v))) (snd v)"
  proof -
    note ok = that(1)
    obtain a where "fst (fst v) = Some a" "map_of (opens (store c)) k = Some a" "snd v = renewed now (o_client (hopen (store c) a)) (store c)"
      using resolveStateid_OK [OF ok [unfolded v_def] k] unfolding v_def by metis
    then show ?thesis
      using kept that(2) w by (intro nfs_inv_close_commit) simp_all
  qed
  show ?thesis
    unfolding open_close_def using kept commit by (intro wp) (simp_all add: v_def)
qed

lemma kept_close:
  assumes "kept c"
  shows "hends kept (op_close cfg now d e c)"
  unfolding op_close_def
  by (intro wp kept_owner_op [OF assms, where fn = "\<lambda>w. open_close cfg now sq k w" for sq k] kept_open_close)
    (use assms in simp_all)

section \<open>OPEN\<close>

lemma index_open:
  assumes "nfs_inv st"
  shows "a \<in> set (idx_get p (byPath st)) \<longleftrightarrow> a \<in> openset st \<and> o_path (hopen st a) = p"
  using assms by (simp add: invx_def inv_tables_def idx_ok_def)

lemma no_share_conflict:
  assumes "nfs_inv st" "\<not> shareConflictLocked p w access deny st" "b \<in> openset st" "o_path (hopen st b) = p" "o_owner (hopen st b) \<noteq> w"
  shows "access AND o_deny (hopen st b) = 0" "o_access (hopen st b) AND deny = 0"
  using assms index_open [OF assms(1), of b p] by (auto simp: shareConflictLocked_def list_ex_iff and.commute)

lemma findOpenLocked_None:
  "nfs_inv st \<Longrightarrow> findOpenLocked p w st = None \<Longrightarrow> b \<in> openset st \<Longrightarrow> o_path (hopen st b) = p \<Longrightarrow> o_owner (hopen st b) \<noteq> w"
  using index_open [of st b p] by (auto simp: findOpenLocked_def find_None_iff)

lemma findOpenLocked_Some:
  assumes "nfs_inv st" "findOpenLocked p w st = Some h"
  shows "h \<in> openset st" "o_path (hopen st h) = p" "o_owner (hopen st h) = w"
  using assms index_open [OF assms(1), of h p] unfolding findOpenLocked_def by (auto simp: find_Some_iff)

text \<open>What an open for an owner needs of the delegations others hold on the file.\<close>

definition deleg_free :: "string \<Rightarrow> addr \<Rightarrow> u32 \<Rightarrow> u32 \<Rightarrow> stateStore \<Rightarrow> bool" where
  "deleg_free p cl ua ud st \<longleftrightarrow> (\<forall>d \<in> delegset st. dg_path (hdeleg st d) = p \<longrightarrow> dg_client (hdeleg st d) \<noteq> cl
     \<longrightarrow> ua AND shareWrite = 0 \<and> ud AND denyRead = 0)"

lemma open_commit_new:
  assumes "\<not> shareConflictLocked p w ua ud st" "findOpenLocked p w st = None" "c_opens (hclient st (w_client (howner st w))) < int maxOpensPerClient"
  shows "open_commit p w ua ud rp flags st = ((nfs4OK, nextAddr st, None),
    add_open \<lparr>o_other = [], o_seq = 1, o_client = w_client (howner st w), o_owner = w, o_path = p, o_access = ua, o_deny = ud,
      o_file = rp, o_flag = flags\<rparr> st)"
  using assms by (simp add: open_commit_def add_open_def newOther_def Let_def upd_client_def)

lemma nfs_inv_open_commit:
  assumes inv: "nfs_inv st" and room: "room 1 st" and w: "w_client (howner st w) \<in> clientset st"
      "w \<in> vals (c_openOwners (hclient st (w_client (howner st w))))"
    and deleg: "deleg_free p (w_client (howner st w)) ua ud st"
  shows "nfs_inv (snd (open_commit p w ua ud rp flags st))"
proof (cases "shareConflictLocked p w ua ud st")
  case False
  note free = no_share_conflict [OF inv False]
  show ?thesis
  proof (cases "findOpenLocked p w st")
    case None
    note other = findOpenLocked_None [OF inv None]
    show ?thesis
    proof (cases "c_opens (hclient st (w_client (howner st w))) < int maxOpensPerClient")
      case True
      show ?thesis
        unfolding open_commit_new [OF False None True] snd_conv
        using w deleg True free other by (intro nfs_inv_add_open [OF inv room]) (auto simp: deleg_free_def)
    qed (use False None inv in \<open>simp add: open_commit_def\<close>)
  next
    case (Some h)
    note h = findOpenLocked_Some [OF inv Some]
    have client: "o_client (hopen st h) = w_client (howner st w)"
      using inv h open_route(3) [of st "o_other (hopen st h)" h] by (auto simp: invx_def inv_tables_def tab_ok_vals)
    have sh: "shares_ok (hopen st) (openset st)" using inv by (simp add: inv_defs)
    have "nfs_inv (upd_open h (\<lambda>x. x\<lparr>o_seq := o_seq x + 1, o_access := ua, o_deny := ud\<rparr>) st)"
      unfolding upd_open_def
    proof (rule nfs_inv_upd_open [OF inv h(1)], simp_all)
      fix b assume b: "b \<in> openset st" "b \<noteq> h" "o_path (hopen st b) = o_path (hopen st h)"
      then have "o_owner (hopen st b) \<noteq> w" using sh h unfolding shares_ok_def by metis
      then show "ua AND o_deny (hopen st b) = 0 \<and> o_access (hopen st b) AND ud = 0" using free b h by simp
    next
      fix d assume "d \<in> delegset st" "dg_path (hdeleg st d) = o_path (hopen st h)" "dg_client (hdeleg st d) \<noteq> o_client (hopen st h)"
      then show "ua AND 2 = 0 \<and> ud AND 1 = 0" using deleg h client unfolding deleg_free_def by simp
    qed
    then show ?thesis
      using False Some by (simp add: open_commit_def Let_def invx_upd_open_same split: option.split)
  qed
qed (simp add: open_commit_def inv)

lemma open_commit_fields:
  "howner (snd (open_commit p w ua ud rp flags st)) = howner st" "confirmed (snd (open_commit p w ua ud rp flags st)) = confirmed st"
  "nextOther (snd (open_commit p w ua ud rp flags st)) = nextOther st \<or> nextOther (snd (open_commit p w ua ud rp flags st)) = nextOther st + 1"
  unfolding open_commit_def by (simp_all add: Let_def newOther_def upd_client_def upd_open_def split: option.split)

lemma room_next: "room (Suc n) st \<Longrightarrow> nextOther st' = nextOther st \<or> nextOther st' = nextOther st + 1 \<Longrightarrow> room n st'"
  using unat_next [of "nextOther st"] by (auto simp: room_def)

text \<open>An open-owner of a confirmed client.\<close>

definition open_owner :: "addr \<Rightarrow> stateStore \<Rightarrow> bool" where
  "open_owner w st \<longleftrightarrow> w_client (howner st w) \<in> clientset st \<and> w \<in> vals (c_openOwners (hclient st (w_client (howner st w))))"

lemma kept_open_finish:
  assumes kept: "kept c" and room: "room 2 (store c)" and w: "open_owner w (store c)"
    and deleg: "deleg_free target (w_client (howner (store c) w)) ua ud (store c)"
  shows "ends kept (open_finish cfg now target w ua ud rp flags before' applied e c)"
proof -
  define st where "st = snd (open_commit target w ua ud rp flags (store c))"
  have inv: "nfs_inv st"
    unfolding st_def using room w by (intro nfs_inv_open_commit [OF kept _ _ _ deleg]) (auto simp: room_def open_owner_def)
  have fields: "howner st = howner (store c)" "confirmed st = confirmed (store c)" "room 1 st"
    using open_commit_fields [of target w ua ud rp flags "store c"] room room_next [of 1 "store c" st]
    by (auto simp: st_def numeral_2_eq_2)
  have grant: "nfs_inv (snd (grantDelegationLocked target w ua st))"
    using nfs_inv_grantDelegationLocked [OF inv fields(3), of w target ua] w by (simp add: fields open_owner_def)
  show ?thesis
    unfolding open_finish_def
    by (intro wp) (simp_all add: st_def [symmetric] inv grant invx_upd_owner)
qed

lemma store_open_file [simp]: "store (snd (open_file cfg args target ex tr flags attrs c)) = store c"
  by (simp add: open_file_def split_beta Let_def)

lemma store_open_attrs [simp]: "store (snd (snd (open_attrs cfg now args target ex rp attrs c))) = store c"
  by (simp add: open_attrs_def split_beta Let_def)

text \<open>
  After the share check and, where the open asks for it, a recall that is done, no other client's delegation
  stands against the open.
\<close>

lemma open_deleg_free:
  assumes kept: "kept c" and w: "open_owner w (store c)"
    and check: "open_check target w access deny (store c) = Some (held, ua, ud)"
    and v: "v = (if access AND shareWrite \<noteq> 0 \<or> deny AND denyRead \<noteq> 0 \<or> truncating
        then c_recall target (Some (w_client (howner (store c) w))) now c else (nfs4OK, c))"
    and ok: "fst v = nfs4OK"
  shows "kept (snd v)" "howner (store (snd v)) = howner (store c)" "open_owner w (store (snd v))" "nextOther (store (snd v)) = nextOther (store c)"
    "deleg_free target (w_client (howner (store c) w)) ua ud (store (snd v))"
proof -
  let ?recall = "access AND shareWrite \<noteq> 0 \<or> deny AND denyRead \<noteq> 0 \<or> truncating"
  define cl where "cl = w_client (howner (store c) w)"
  have held: "held = findOpenLocked target w (store c)"
    and union: "(ua, ud) = (case held of None \<Rightarrow> (access, deny) | Some h \<Rightarrow> (access OR o_access (hopen (store c) h), deny OR o_deny (hopen (store c) h)))"
    using check unfolding open_check_def Let_def by (auto split: option.splits if_splits)
  have r: "nfs_inv (store (snd v)) \<and> delegs_only (store c) (store (snd v)) \<and> deleg_free target cl ua ud (store (snd v))"
  proof (cases ?recall)
    case True
    define q where "q = recallDelegations target (Some cl) now (store c)"
    have q: "q = ((fst (fst q), snd (fst q)), snd q)" by simp
    note inv = recallDelegations_inv [OF kept q [unfolded q_def], folded q_def]
    have sv: "store (snd v) = snd q" "fst (fst q) = nfs4OK"
      using v True ok by (simp_all add: store_c_recall q_def cl_def)
    have "dg_client (hdeleg (snd q) d) = cl" if "d \<in> delegset (snd q)" "dg_path (hdeleg (snd q) d) = target" for d
      using inv(4) [OF sv(2) that(1)] that(2) delegs_only_fields(25,26) [OF inv(2), of d] by simp
    then have "deleg_free target cl ua ud (snd q)" unfolding deleg_free_def by blast
    with inv(1,2) show ?thesis unfolding sv by blast
  next
    case False
    have "ua AND shareWrite = 0 \<and> ud AND denyRead = 0"
      if d: "d \<in> delegset (store c)" "dg_path (hdeleg (store c) d) = target" "dg_client (hdeleg (store c) d) \<noteq> cl" for d
    proof (cases held)
      case None
      then show ?thesis using union False by simp
    next
      case (Some h)
      note h = findOpenLocked_Some [OF kept held [symmetric, unfolded Some]]
      have "o_client (hopen (store c) h) = cl"
        using kept h open_route(3) [of "store c" "o_other (hopen (store c) h)" h] by (auto simp: cl_def invx_def inv_tables_def tab_ok_vals)
      moreover have "deleg_ok (hdeleg (store c)) (delegset (store c)) (hopen (store c)) (openset (store c))"
        using kept by (simp add: inv_defs)
      ultimately have "o_access (hopen (store c) h) AND shareWrite = 0" "o_deny (hopen (store c) h) AND denyRead = 0"
        using d h(1,2) unfolding deleg_ok_def by metis+
      then show ?thesis using union Some False by (simp add: bit.conj_disj_distrib2)
    qed
    then have "deleg_free target cl ua ud (store c)" unfolding deleg_free_def by blast
    then show ?thesis using v False kept by simp
  qed
  then show "kept (snd v)" "deleg_free target (w_client (howner (store c) w)) ua ud (store (snd v))" by (simp_all add: cl_def)
  have f: "delegs_only (store c) (store (snd v))" using r by blast
  show "howner (store (snd v)) = howner (store c)" "nextOther (store (snd v)) = nextOther (store c)"
    using delegs_only_fields [OF f] by simp_all
  show "open_owner w (store (snd v))"
    using w delegs_only_fields [OF f] by (simp add: open_owner_def)
qed

lemma kept_open_target:
  assumes kept: "kept c" and room: "room 2 (store c)" and w: "open_owner w (store c)"
  shows "ends kept (open_target cfg now args w target ex before' attrs e c)"
proof (cases "open_check target w (oa_access args) (oa_deny args) (store c)")
  case (Some r)
  obtain held ua ud where r: "r = (held, ua, ud)" by (cases r)
  note check = Some [unfolded r]
  have fin: "ends kept (open_finish cfg now target w ua ud rp flags b ap e c')"
    if "v = (if oa_access args AND shareWrite \<noteq> 0 \<or> oa_deny args AND denyRead \<noteq> 0 \<or> tr
        then c_recall target (Some (w_client (howner (store c) w))) now c else (nfs4OK, c))"
      "\<not> fst v \<noteq> nfs4OK" "store c' = store (snd v)" for v tr rp flags b ap e c'
    using that open_deleg_free [OF kept w check that(1)] room by (intro kept_open_finish) (simp_all add: room_def)
  show ?thesis
    unfolding open_target_def check option.case prod.case
    by (intro wp fin) (assumption | simp add: kept split: if_split)+
qed (use kept in \<open>simp add: open_target_def ends_status\<close>)

lemma kept_openWith:
  assumes kept: "kept c" and room: "room 2 (store c)" and w: "open_owner w (store c)"
  shows "ends kept (openWith cfg now w args e c)"
  unfolding openWith_def using assms by (intro wp kept_open_target) simp_all

lemma kept_open:
  assumes kept: "kept c" and room: "room 2 (store c)"
  shows "hends kept (op_open cfg now d e c)"
proof -
  have run: "ends kept (withSeqid (the (fst (fst v))) opn sq e (\<lambda>c. c\<lparr>fh := w_lastFH (howner (store c) (the (fst (fst v)))), hasFH := True\<rparr>)
      (\<lambda>result c. if s' \<noteq> nfs4OK then status result s' c else openWith cfg now (the (fst (fst v))) args result c) (snd v))"
    if v: "v = on_store (ownerOf i key now) c" "snd (fst v) = nfs4OK" for v opn sq s' args i key
  proof (rule kept_withSeqid)
    have own: "nfs_inv (store (snd v))" "open_owner (the (fst (fst v))) (store (snd v))"
      using owner_in_inv [OF kept, of c_openOwners "\<lambda>m x. x\<lparr>c_openOwners := m\<rparr>" i key now "fst (fst v)" "snd (fst v)" "store (snd v)"] v
      unfolding ownerOf_in by (auto simp: prod_eq_iff open_owner_def intro: vals_mapI)
    show "kept (snd v)" using own by simp
    show "kept (snd v\<lparr>fh := w_lastFH (howner (store (snd v)) (the (fst (fst v)))), hasFH := True\<rparr>)" using own by simp
    have "nextOther (snd (ownerOf i key now st)) = nextOther st" for st
      unfolding ownerOf_def by (simp add: Let_def upd_client_def split: option.split)
    then have room': "room 2 (store (snd v))" using room v by (simp add: room_def)
    fix c' assume "starts (snd v) c'"
    then have t: "owner_touch (store (snd v)) (store c')" by (simp add: starts_def)
    have c': "kept c'" "room 2 (store c')" "open_owner (the (fst (fst v))) (store c')"
      using own room' owner_touch_inv [OF t] owner_touch_fields [OF t] room_fields(2) [OF t] by (simp_all add: open_owner_def)
    show "ends kept (if s' \<noteq> nfs4OK then status [] s' c' else openWith cfg now (the (fst (fst v))) args [] c')"
      using c' by (intro wp kept_openWith) simp_all
  qed
  show ?thesis
    unfolding op_open_def using kept by (intro wp run) simp_all
qed

section \<open>RENAME\<close>

text \<open>The names a RENAME request carries, once decoded, and the condition under which it may land.\<close>

definition rename_quiet :: "decoder \<Rightarrow> 'b compound \<Rightarrow> bool" where
  "rename_quiet d c \<longleftrightarrow>
     (let ((oldName, _), d) = decodeName d; ((newName, _), d) = decodeName d;
          oldPath = path_Join (saved c) oldName; newPath = path_Join (fh c) newName
      in oldPath \<noteq> newPath \<longrightarrow> apart oldPath newPath \<and> quiet newPath (store c))"

lemma quiet_delegs_only: "delegs_only st st' \<Longrightarrow> delegset st' \<subseteq> delegset st \<Longrightarrow> quiet p st \<Longrightarrow> quiet p st'"
  using delegs_only_fields(1,2,4,6) [of st st'] delegs_only_fields(26) [of st st'] by (auto simp: quiet_def)

lemma kept_rename_commit:
  assumes kept: "kept c" and ap: "apart old new" and quiet: "quiet new (store c)"
  shows "kept (snd (rename_commit cfg now old new c))"
proof -
  have recall: "kept (snd (c_recall p ex now c)) \<and> quiet new (store (snd (c_recall p ex now c)))"
    if "kept c" "quiet new (store c)" for p ex and c :: "'a compound"
  proof -
    define q where "q = recallDelegations p ex now (store c)"
    have q: "q = ((fst (fst q), snd (fst q)), snd q)" by simp
    show ?thesis
      unfolding store_c_recall using recallDelegations_inv(1-3) [OF that(1) q [unfolded q_def]] that(2) quiet_delegs_only
      by (auto simp: q_def [symmetric])
  qed
  have "nfs_inv (renamePath old new (store c'))" if "kept c'" "quiet new (store c')" for c' :: "'a compound"
    using nfs_inv_renamePath [OF that(1) ap that(2)] .
  then show ?thesis
    using recall [OF kept quiet] recall unfolding rename_commit_def by (simp add: split_beta Let_def split: option.split)
qed

lemma kept_rename:
  assumes kept: "kept c" and quiet: "rename_quiet d c"
  shows "hends kept (op_rename cfg now d e c)"
proof -
  have paths: "ends kept (rename_paths cfg now old new e c)" if "old \<noteq> new \<longrightarrow> apart old new \<and> quiet new (store c)" for old new
  proof -
    have commit: "nfs_inv (store (snd (rename_commit cfg now old new c')))" if "store c' = store c" "old \<noteq> new" for c'
      using kept_rename_commit [of c' old new cfg now] that kept \<open>old \<noteq> new \<longrightarrow> apart old new \<and> quiet new (store c)\<close> by simp
    show ?thesis
      unfolding rename_paths_def using kept by (intro wp) (auto simp: commit split: if_split)
  qed
  show ?thesis
    unfolding op_rename_def using kept quiet by (intro wp paths) (simp_all add: rename_quiet_def split_beta Let_def)
qed

section \<open>Every operation\<close>

text \<open>Room for the counters one operation may advance.\<close>

definition counters_room :: "stateStore \<Rightarrow> bool" where
  "counters_room st \<longleftrightarrow> room 2 st \<and> unat (nextClient st) + 1 < 2 ^ 64"

lemma if_SomeE: "(if b then Some x else y) = Some z \<Longrightarrow> (b \<Longrightarrow> x = z \<Longrightarrow> P) \<Longrightarrow> (y = Some z \<Longrightarrow> P) \<Longrightarrow> P"
  by (simp split: if_splits)

lemma kept_op:
  assumes op: "opTable cfg rnd now opnum = Some op" and kept: "kept c" and room: "counters_room (store c)"
    and quiet: "opnum = opRename \<Longrightarrow> rename_quiet d c"
  shows "hends kept (op d e c)"
proof -
  have r: "room 2 (store c)" "room 1 (store c)" "unat (nextClient (store c)) + 1 < 2 ^ 64"
    using room by (simp_all add: counters_room_def room_def)
  note calm = quiet_ops [THEN same_store_kept, OF kept]
  note busy = kept_close [OF kept] kept_delegReturn [OF kept] kept_link [OF kept] kept_lock [OF kept r(2)] kept_lockT [OF kept]
    kept_lockU [OF kept] kept_open [OF kept r(1)] kept_openConfirm [OF kept] kept_openDowngrade [OF kept] kept_read [OF kept]
    kept_remove [OF kept] kept_renew [OF kept] kept_setAttr [OF kept] kept_setClientID [OF kept r(3)]
    kept_setClientIDConfirm [OF kept] kept_write [OF kept] kept_releaseLockOwner [OF kept]
  show ?thesis
    using op unfolding opTable_def
    by (elim if_SomeE) (simp_all only: option.distinct, (hypsubst, rule busy calm kept_rename [OF kept quiet], assumption?)+)
qed

end
