(* ===== verification/Nfs_Reach.thy ===== *)
theory Nfs_Reach
  imports Nfs_Inv_Step
begin

text \<open>
  The NFS server as a state machine: a step is a lease sweep, the arrival of a COMPOUND, one of its
  operations, or the answer of a callback probe. Every COMPOUND the server runs is a sequence of such steps, and
  every state that steps reach from a new server satisfies \<open>nfs_inv\<close>. The safety properties of the protocol
  state are read off that invariant.
\<close>

unbundle bit_operations_syntax

section \<open>Steps\<close>

datatype event = Sweep time | Arrive "u32 option" | Operate u32 decoder | Probe bool addr

inductive nfs_step :: "'b config \<Rightarrow> 'b compound \<Rightarrow> event \<Rightarrow> 'b compound \<Rightarrow> bool" for cfg where
  sweep: "nfs_step cfg c (Sweep now) (compound_sweep cfg now c)"
| arrive: "nfs_step cfg c (Arrive cr) (c\<lparr>cred := cr, fh := [], hasFH := False, saved := [], hasSaved := False\<rparr>)"
| operate: "opTable cfg rnd now n = Some op \<Longrightarrow> fst (op d e c) = (s, e', c') \<Longrightarrow> nfs_step cfg c (Operate n d) c'"
| probe: "nfs_step cfg c (Probe answered a) (upd_store (probeCallback answered a) c)"

inductive_cases nfs_step_operateE: "nfs_step cfg c (Operate n d) c'"

inductive nfs_steps :: "'b config \<Rightarrow> 'b compound \<Rightarrow> event list \<Rightarrow> 'b compound \<Rightarrow> bool" for cfg where
  none: "nfs_steps cfg c [] c"
| some: "nfs_step cfg c ev c1 \<Longrightarrow> nfs_steps cfg c1 evs c2 \<Longrightarrow> nfs_steps cfg c (ev # evs) c2"

text \<open>
  The condition a step is taken under: the two counters have not come to the end of 64 bits, and a RENAME does
  not land on or inside a path that still carries protocol state.
\<close>

fun calm :: "event \<Rightarrow> 'b compound \<Rightarrow> bool" where
  "calm (Operate n d) c \<longleftrightarrow> counters_room (store c) \<and> (n = opRename \<longrightarrow> rename_quiet d c)"
| "calm _ c \<longleftrightarrow> True"

inductive reachable :: "'b config \<Rightarrow> 'b compound \<Rightarrow> bool" for cfg where
  init: "reachable cfg (server_init cfg rnd b)"
| step: "reachable cfg c \<Longrightarrow> nfs_step cfg c ev c' \<Longrightarrow> calm ev c \<Longrightarrow> reachable cfg c'"

section \<open>The invariant of the server\<close>

lemma nfs_inv_newStateStore: "nfs_inv (newStateStore ls wait rnd)"
  by (simp add: inv_defs newStateStore_def zero_client_def tab_ok_def idx_ok_def idx_get_def keys_ok_def addrs_ok_def shares_ok_def
      lockconf_ok_def deleg_ok_def lockopen_ok_def routes_ok_def counts_ok_def held_ok_def owners_ok_def clients_ok_def)

lemma store_compound_sweep [simp]: "store (compound_sweep cfg now c) = fst (sweepDue now (store c))"
  by (simp add: compound_sweep_def split_beta)

lemma nfs_inv_sweepDue: "nfs_inv st \<Longrightarrow> nfs_inv (fst (sweepDue now st))"
  by (simp add: sweepDue_def Let_def sweepExpired_inv)

lemma nfs_inv_probeCallback: "nfs_inv st \<Longrightarrow> nfs_inv (probeCallback answered a st)"
  unfolding probeCallback_def by (simp add: invx_upd_client same_client_def)

lemma nfs_step_inv: "nfs_step cfg c ev c' \<Longrightarrow> calm ev c \<Longrightarrow> kept c \<Longrightarrow> kept c'"
proof (induction rule: nfs_step.induct)
  case (operate rnd now n op d e c s e' c')
  then show ?case
    using kept_op [of cfg rnd now n op c d e] by (simp add: hends_def ends_def)
qed (simp_all add: nfs_inv_sweepDue nfs_inv_probeCallback)

lemma reachable_inv: "reachable cfg c \<Longrightarrow> kept c"
  by (induction rule: reachable.induct) (auto simp: server_init_def nfs_inv_newStateStore dest: nfs_step_inv)

end
