(* ===== verification/Nfs_Scenario.thy ===== *)
theory Nfs_Scenario
  imports Nfs_Reach
begin

text \<open>
  A session with two clients, run on the model: both open the same file and take read locks on overlapping bytes of
  it, and the first one holds a read delegation. It shows that the states the properties speak of are reached.
\<close>

unbundle bit_operations_syntax

section \<open>Running a list of events\<close>

fun serve1 :: "'b config \<Rightarrow> event \<Rightarrow> 'b compound \<Rightarrow> (nfsStat \<times> 'b compound) option" where
  "serve1 cfg (Sweep now) c = Some (nfs4OK, compound_sweep cfg now c)"
| "serve1 cfg (Arrive cr) c = Some (nfs4OK, c\<lparr>cred := cr, fh := [], hasFH := False, saved := [], hasSaved := False\<rparr>)"
| "serve1 cfg (Operate n d) c =
     (case opTable cfg [0, 0, 0, 0, 0, 0, 0, 0] 0 n of
        None \<Rightarrow> None
      | Some op \<Rightarrow> let r = fst (op d [] c) in Some (fst r, snd (snd r)))"
| "serve1 cfg (Probe answered a) c = Some (nfs4OK, upd_store (probeCallback answered a) c)"

text \<open>Every event is calm and answered with success, or the session is refused.\<close>

fun serve :: "'b config \<Rightarrow> event list \<Rightarrow> 'b compound \<Rightarrow> 'b compound option" where
  "serve cfg [] c = Some c"
| "serve cfg (ev # evs) c =
     (if calm ev c
      then case serve1 cfg ev c of None \<Rightarrow> None | Some (s, c) \<Rightarrow> if s = nfs4OK then serve cfg evs c else None
      else None)"

lemma serve1_step: "serve1 cfg ev c = Some (s, c') \<Longrightarrow> nfs_step cfg c ev c'"
proof (cases ev)
  case (Operate n d)
  assume "serve1 cfg ev c = Some (s, c')"
  then obtain op where op: "opTable cfg [0, 0, 0, 0, 0, 0, 0, 0] 0 n = Some op" and r: "c' = snd (snd (fst (op d [] c)))"
    unfolding Operate by (auto simp: Let_def split: option.splits)
  then show ?thesis
    unfolding Operate by (intro nfs_step.operate [OF op, of d "[]" c "fst (fst (op d [] c))" "fst (snd (fst (op d [] c)))"]) simp
qed (auto intro: nfs_step.intros)

lemma serve_reachable: "reachable cfg c \<Longrightarrow> serve cfg evs c = Some c' \<Longrightarrow> reachable cfg c'"
proof (induction evs arbitrary: c)
  case (Cons ev evs)
  then obtain s c1 where "calm ev c" "serve1 cfg ev c = Some (s, c1)" "serve cfg evs c1 = Some c'"
    by (auto split: if_splits option.splits)
  with Cons show ?case using reachable.step serve1_step by blast
qed simp

section \<open>The session\<close>

text \<open>A file system with a root directory in which every name is a file; its state is the next file number.\<close>

definition scn_fs :: "nat fsops" where
  "scn_fs = \<lparr>fs_symlinks = None,
     fs_stat = (\<lambda>p b. if p = ''/'' then Inr \<lparr>fi_isDir = True, fi_isSymlink = False, fi_mode = 493, fi_mtime = 1, fi_size = 0, fi_name = ''/''\<rparr>
        else Inr \<lparr>fi_isDir = False, fi_isSymlink = False, fi_mode = 420, fi_mtime = 1, fi_size = 9, fi_name = tl p\<rparr>),
     fs_open = (\<lambda>p fl perm b. (Inr b, Suc b)), fs_close = (\<lambda>f b. (None, b)), fs_mkdir = (\<lambda>p m b. (None, b)),
     fs_removeAll = (\<lambda>p b. (None, b)), fs_rename = (\<lambda>p q b. (None, b)), fs_setstat = None, fs_link = None, fs_remove = None,
     fs_statvfs = None, fs_readdir = (\<lambda>f n b. (([], None), b)), fs_readerAt = (\<lambda>f. None), fs_writerAt = (\<lambda>f. None),
     fs_seek = (\<lambda>f o' b. (None, b)), fs_readFull = (\<lambda>f n b. ((0, [], Some EOF), b)), fs_write = (\<lambda>f d b. ((0, None), b)),
     fs_sync = (\<lambda>f. None), fs_fstat = (\<lambda>f b. Inl NotExist)\<rparr>"

definition scn_cfg :: "nat config" where
  "scn_cfg = \<lparr>fsys = scn_fs, readDelegations = True, maxWriteBytes = 0, maxReadBytes = 0, supported = [], maxDirectoryEntries = 0,
     leaseDuration = 0, verifier = [], handleHmac = (\<lambda>b. []), sha256 = (\<lambda>b. []), resolveLong = None, parseIP = (\<lambda>s. None)\<rparr>"

text \<open>
  The requests, as they arrive: two clients register; the callback path of the first is probed; it opens the
  file for reading, denying writes, confirms its owner and opens again, which grants it a delegation; the second client opens the
  file for reading; each locks ten bytes for reading, from 5 and from 0.
\<close>

definition scn_events :: "event list" where
  "scn_events =
    [Operate opSetClientID (newDecoder [8, 8, 8, 8, 8, 8, 8, 8, 0, 0, 0, 1, 8, 0, 0, 0, 0, 0, 0, 7, 0, 0, 0, 0, 0, 0, 0, 0, 0, 0, 0, 1]),
     Operate opSetClientIDConfirm (newDecoder [0, 0, 0, 0, 0, 0, 0, 1, 0, 0, 0, 0, 0, 0, 0, 0]),
     Operate opSetClientID (newDecoder [9, 9, 9, 9, 9, 9, 9, 9, 0, 0, 0, 1, 9, 0, 0, 0, 0, 0, 0, 7, 0, 0, 0, 0, 0, 0, 0, 0, 0, 0, 0, 1]),
     Operate opSetClientIDConfirm (newDecoder [0, 0, 0, 0, 0, 0, 0, 2, 0, 0, 0, 0, 0, 0, 0, 0]),
     Probe True 0,
     Operate opPutRootFH (newDecoder []),
     Operate opOpen (newDecoder [0, 0, 0, 1, 0, 0, 0, 1, 0, 0, 0, 2, 0, 0, 0, 0, 0, 0, 0, 1, 0, 0, 0, 1, 5, 0, 0, 0, 0, 0, 0, 0, 0, 0, 0, 0, 0, 0, 0, 1, 102, 0, 0, 0]),
     Operate opOpenConfirm (newDecoder [0, 0, 0, 1, 1, 2, 3, 4, 0, 0, 0, 0, 0, 0, 0, 1, 0, 0, 0, 2]),
     Operate opPutRootFH (newDecoder []),
     Operate opOpen (newDecoder [0, 0, 0, 3, 0, 0, 0, 1, 0, 0, 0, 2, 0, 0, 0, 0, 0, 0, 0, 1, 0, 0, 0, 1, 5, 0, 0, 0, 0, 0, 0, 0, 0, 0, 0, 0, 0, 0, 0, 1, 102, 0, 0, 0]),
     Operate opPutRootFH (newDecoder []),
     Operate opOpen (newDecoder [0, 0, 0, 1, 0, 0, 0, 1, 0, 0, 0, 0, 0, 0, 0, 0, 0, 0, 0, 2, 0, 0, 0, 1, 6, 0, 0, 0, 0, 0, 0, 0, 0, 0, 0, 0, 0, 0, 0, 1, 102, 0, 0, 0]),
     Operate opOpenConfirm (newDecoder [0, 0, 0, 1, 1, 2, 3, 4, 0, 0, 0, 0, 0, 0, 0, 3, 0, 0, 0, 2]),
     Operate opLock (newDecoder [0, 0, 0, 1, 0, 0, 0, 0, 0, 0, 0, 0, 0, 0, 0, 5, 0, 0, 0, 0, 0, 0, 0, 10, 0, 0, 0, 1, 0, 0, 0, 3, 0, 0, 0, 1, 1, 2, 3, 4, 0, 0, 0, 0, 0, 0, 0, 3, 0, 0, 0, 1, 0, 0, 0, 0, 0, 0, 0, 2, 0, 0, 0, 1, 6, 0, 0, 0]),
     Operate opLock (newDecoder [0, 0, 0, 1, 0, 0, 0, 0, 0, 0, 0, 0, 0, 0, 0, 0, 0, 0, 0, 0, 0, 0, 0, 10, 0, 0, 0, 1, 0, 0, 0, 4, 0, 0, 0, 2, 1, 2, 3, 4, 0, 0, 0, 0, 0, 0, 0, 1, 0, 0, 0, 1, 0, 0, 0, 0, 0, 0, 0, 1, 0, 0, 0, 1, 5, 0, 0, 0])]"

definition scn_start :: "nat compound" where
  "scn_start = server_init scn_cfg [1, 2, 3, 4] 0"

definition scn_end :: "nat compound" where
  "scn_end = the (serve scn_cfg scn_events scn_start)"

text \<open>Evaluation of the session: \<open>let_weak_cong\<close> and \<open>prod.case_cong_weak\<close> make the rewriting call by value.\<close>

lemma scn_names:
  "byte_char 5 = CHR 0x05" "byte_char 6 = CHR 0x06" "byte_char 8 = CHR 0x08" "byte_char 9 = CHR 0x09" "byte_char 102 = CHR ''f''"
  "names_Validate ''f'' = True" "path_Join ''/'' ''f'' = ''/f''"
  by code_simp+

lemma set_attrs_loop_none: "set_attrs_loop sp [] ns a d = ((a, nfs4OK), d)"
  by (induction ns) (simp_all add: bm_has_def)

lemma replicate_12: "replicate 12 x = [x, x, x, x, x, x, x, x, x, x, x, x]"
  by (simp add: numeral_eq_Suc)

lemmas wire_defs = d_uint32_def d_uint64_def d_bool_def d_opaque_def d_opaqueFixed_def d_string_def d_remaining_def xdr_pad_def
  be_Uint32_def be_Uint64_def newDecoder_def be_PutUint32_def be_PutUint64_def e_uint32_def e_uint64_def e_opaqueFixed_def
  e_opaque_def copy_array_def decodeStateid_def encodeStateid_def

lemmas scn_defs =
  scn_start_def scn_cfg_def scn_fs_def scn_names scn_events_def set_attrs_loop_none replicate_12 server_init_def newFHCodec_def
  newDirCache_def parseUniversalAddr_def counters_room_def room_def opTable_def op_putRootFH_def upd_client_def upd_owner_def upd_open_def
  upd_lock_def upd_deleg_def renewed_def idx_get_def idx_append_def idx_remove_def removePathLocked_def removeLockStateLocked_def
  dropDelegationLocked_def revokeDelegationLocked_def release_open_def release_owner_def release_lock_def release_deleg_def
  releaseLocked_def zero_client_def newStateStore_def principalOf_def st_setClientID_def confirmClientID_again_def confirmClientID_def
  st_renew_def fresh_owner_def ownerOf_def lockOwnerOf_def newOther_def zeroOther_def allOnesOther_def ownerForStateid_def
  openOwnerForStateid_def clientForStateid_def resolveStateid_def resolveIOStateid_def resolveLockStateid_def shareConflictLocked_def
  findOpenLocked_def denyBlocksAnonymous_def openFilesFor_def findLockStateLocked_def lockConflictLocked_def locksBlockCloseLocked_def
  locksBlockDowngradeLocked_def drop_empty_lock_def removeEmptyLocksForOpenLocked_def grantDelegationLocked_def returnDelegation_def
  recall_one_def recallDelegations_def probeCallback_def moved_def idx_range_def move_entry_def renamePath_def expire_client_def
  sweepExpired_def sweepDue_def isNotExist_def isExist_def isPermission_def errnoStat_def nameErr_def fhErr_def changeOf_def x_matches_def
  x_oldest_def x_record_def x_forget_def status_def on_store_def upd_store_def closeFile_def file_ReadAt_def file_WriteAt_def file_sync_def
  closeOpt_def closeAll_def lstatOrStat_def dirAt_def dirFH_def changeOfDir_def encodeChangeInfo_def srv_lease_def maxDirEntries_def
  headroom_def maxRead_def maxWrite_def requestCap_def responseCap_def c_recall_def encodeStateid_def copy_array_def decodeStateid_def
  decodeName_def bm_has_def bm_set_def decodeBitmap_def encodeBitmap_def noAdvance_def clone_reply_def withSeqid_def seq_class_def
  withTwoSeqids_def decodeSetTime_def decodeSetAttrs_def mutationErr_def apply_times_def apply_mode_def applySetAttrs_def openFlags_def
  open_check_def open_commit_def encode_open_reply_def open_finish_def open_attrs_def open_file_def open_target_def openWith_def op_open_def
  open_confirm_def op_openConfirm_def downgrade_commit_def open_downgrade_def op_openDowngrade_def close_commit_def open_close_def
  op_close_def op_delegReturn_def op_setClientID_def op_setClientIDConfirm_def op_renew_def encodeDenied_def lockFH_def lockTestOwner_def
  lock_mode_bad_def add_lock_def lock_new_def lock_again_def op_lock_def op_lockT_def lock_release_def op_lockU_def drop_owner_lock_def
  op_releaseLockOwner_def clean_step_def path_Split_def path_Dir_def hasPrefix_def cont_def plain_seg_def rooted_def maxUint64_def
  makeLockRange_def lockType_def rangesOverlap_def canon_step_def canonicalRanges_def cut_range_def subtractRange_def setLockRange_def
  lockRangeLength_def

definition scn_view :: "stateStore \<Rightarrow> ((other \<times> addr) list \<times> (other \<times> addr) list \<times> (other \<times> addr) list \<times> (u64 \<times> addr) list \<times> time option \<times> (bool \<times> u32 \<times> u32) \<times> bool \<times> u32)
    \<times> (openState \<times> openState) \<times> (lockState \<times> lockState) \<times> delegation" where
  "scn_view st = ((opens st, locks st, delegs st, confirmed st, lastSweep st,
       (w_fresh (howner st 2), w_seqid (howner st 2), w_lastOp (howner st 2)), w_fresh (howner st 9), w_seqid (howner st 9)), (hopen st 3, hopen st 6), (hlock st 8, hlock st 10), hdeleg st 4)"

lemma scn_run:
  "map_option (\<lambda>c. scn_view (store c)) (serve scn_cfg scn_events scn_start) =
     Some (([([1, 2, 3, 4, 0, 0, 0, 0, 0, 0, 0, 1], 3), ([1, 2, 3, 4, 0, 0, 0, 0, 0, 0, 0, 3], 6)],
            [([1, 2, 3, 4, 0, 0, 0, 0, 0, 0, 0, 4], 8), ([1, 2, 3, 4, 0, 0, 0, 0, 0, 0, 0, 5], 10)],
            [([1, 2, 3, 4, 0, 0, 0, 0, 0, 0, 0, 2], 4)], [(1, 0), (2, 1)], None, (False, 4, opLock), False, 1),
           (\<lparr>o_other = [1, 2, 3, 4, 0, 0, 0, 0, 0, 0, 0, 1], o_seq = 2, o_client = 0, o_owner = 2, o_path = ''/f'', o_access = 1,
              o_deny = 2, o_file = Some 0, o_flag = 0\<rparr>,
            \<lparr>o_other = [1, 2, 3, 4, 0, 0, 0, 0, 0, 0, 0, 3], o_seq = 1, o_client = 1, o_owner = 5, o_path = ''/f'', o_access = 1,
              o_deny = 0, o_file = Some 1, o_flag = 0\<rparr>),
           (\<lparr>l_other = [1, 2, 3, 4, 0, 0, 0, 0, 0, 0, 0, 4], l_seq = 1, l_client = 1, l_owner = 7, l_open = 6, l_path = ''/f'',
              l_ranges = [\<lparr>lstart = 5, lend = 15, toEOF = False, lwrite = False\<rparr>]\<rparr>,
            \<lparr>l_other = [1, 2, 3, 4, 0, 0, 0, 0, 0, 0, 0, 5], l_seq = 1, l_client = 0, l_owner = 9, l_open = 3, l_path = ''/f'',
              l_ranges = [\<lparr>lstart = 0, lend = 10, toEOF = False, lwrite = False\<rparr>]\<rparr>),
           \<lparr>dg_other = [1, 2, 3, 4, 0, 0, 0, 0, 0, 0, 0, 2], dg_seq = 1, dg_client = 0, dg_path = ''/f'', dg_recalling = False, dg_recallAt = 0\<rparr>)"
  by (simp add: scn_defs wire_defs scn_view_def Let_def cong: let_weak_cong prod.case_cong_weak)

lemma scn_serve: "serve scn_cfg scn_events scn_start = Some scn_end"
  using scn_run by (auto simp: scn_end_def)

lemma scn_reachable: "reachable scn_cfg scn_end"
  using serve_reachable [OF reachable.init scn_serve [unfolded scn_start_def]] .

lemma scn_tables:
  "opens (store scn_end) = [([1, 2, 3, 4, 0, 0, 0, 0, 0, 0, 0, 1], 3), ([1, 2, 3, 4, 0, 0, 0, 0, 0, 0, 0, 3], 6)]"
  "locks (store scn_end) = [([1, 2, 3, 4, 0, 0, 0, 0, 0, 0, 0, 4], 8), ([1, 2, 3, 4, 0, 0, 0, 0, 0, 0, 0, 5], 10)]"
  "delegs (store scn_end) = [([1, 2, 3, 4, 0, 0, 0, 0, 0, 0, 0, 2], 4)]" "confirmed (store scn_end) = [(1, 0), (2, 1)]"
  "lastSweep (store scn_end) = None"
  using scn_run unfolding scn_serve by (simp_all add: scn_view_def)

lemma scn_objects:
  "o_path (hopen (store scn_end) 3) = ''/f''" "o_path (hopen (store scn_end) 6) = ''/f''"
  "o_client (hopen (store scn_end) 3) = 0" "o_client (hopen (store scn_end) 6) = 1"
  "o_access (hopen (store scn_end) 3) = 1" "o_deny (hopen (store scn_end) 3) = 2" "o_access (hopen (store scn_end) 6) = 1" "o_deny (hopen (store scn_end) 6) = 0"
  "o_owner (hopen (store scn_end) 3) = 2" "o_owner (hopen (store scn_end) 6) = 5"
  "l_path (hlock (store scn_end) 8) = ''/f''" "l_path (hlock (store scn_end) 10) = ''/f''" "l_open (hlock (store scn_end) 8) = 6"
  "l_owner (hlock (store scn_end) 8) = 7"
  "l_ranges (hlock (store scn_end) 8) = [\<lparr>lstart = 5, lend = 15, toEOF = False, lwrite = False\<rparr>]"
  "l_ranges (hlock (store scn_end) 10) = [\<lparr>lstart = 0, lend = 10, toEOF = False, lwrite = False\<rparr>]"
  "dg_path (hdeleg (store scn_end) 4) = ''/f''" "dg_client (hdeleg (store scn_end) 4) = 0"
  using scn_run unfolding scn_serve by (simp_all add: scn_view_def)

lemma scn_owner:
  "w_fresh (howner (store scn_end) 2) = False" "w_seqid (howner (store scn_end) 2) = 4" "w_lastOp (howner (store scn_end) 2) = opLock"
  "w_fresh (howner (store scn_end) 9) = False" "w_seqid (howner (store scn_end) 9) = 1"
  using scn_run unfolding scn_serve by (simp_all add: scn_view_def)

lemma vals_distinct: "distinct (map fst m) \<Longrightarrow> vals m = snd ` set m"
  by (force simp: vals_iff map_of_eq_Some_iff)

lemma scn_sets: "openset (store scn_end) = {3, 6}" "lockset (store scn_end) = {8, 10}" "delegset (store scn_end) = {4}" "clientset (store scn_end) = {0, 1}"
  by (simp_all add: vals_distinct scn_tables)

lemmas scn_facts = scn_objects scn_sets

end
