(* ===== verification/Nfs_Rename_Clash.thy ===== *)
theory Nfs_Rename_Clash
  imports Nfs_Scenario
begin

text \<open>
  RENAME onto a path that carries protocol state. \<^verbatim>\<open>renamePath\<close> moves the opens of the old path to the new one without
  looking at what is open there, so reservations that were granted on two files meet on one.
\<close>

unbundle bit_operations_syntax

text \<open>A client opens \<open>/f\<close> denying writes and \<open>/g\<close> for writing, under two owners, then renames \<open>/g\<close> to \<open>/f\<close>.\<close>

definition clash_events :: "event list" where
  "clash_events =
    [Operate opSetClientID (newDecoder [8, 8, 8, 8, 8, 8, 8, 8, 0, 0, 0, 1, 8, 0, 0, 0, 0, 0, 0, 7, 0, 0, 0, 0, 0, 0, 0, 0, 0, 0, 0, 1]),
     Operate opSetClientIDConfirm (newDecoder [0, 0, 0, 0, 0, 0, 0, 1, 0, 0, 0, 0, 0, 0, 0, 0]),
     Operate opPutRootFH (newDecoder []),
     Operate opOpen (newDecoder [0, 0, 0, 1, 0, 0, 0, 1, 0, 0, 0, 2, 0, 0, 0, 0, 0, 0, 0, 1, 0, 0, 0, 1, 5, 0, 0, 0, 0, 0, 0, 0, 0, 0, 0, 0, 0, 0, 0, 1, 102, 0, 0, 0]),
     Operate opPutRootFH (newDecoder []),
     Operate opOpen (newDecoder [0, 0, 0, 1, 0, 0, 0, 2, 0, 0, 0, 0, 0, 0, 0, 0, 0, 0, 0, 1, 0, 0, 0, 1, 6, 0, 0, 0, 0, 0, 0, 0, 0, 0, 0, 0, 0, 0, 0, 1, 103, 0, 0, 0]),
     Operate opPutRootFH (newDecoder []),
     Operate opSaveFH (newDecoder [])]"

definition clash_rename :: decoder where
  "clash_rename = newDecoder [0, 0, 0, 1, 103, 0, 0, 0, 0, 0, 0, 1, 102, 0, 0, 0]"

definition clash_before :: "nat compound" where
  "clash_before = the (serve scn_cfg clash_events scn_start)"

definition clash_after :: "nat result" where
  "clash_after = fst (op_rename scn_cfg 0 clash_rename [] clash_before)"

definition clash_view :: "stateStore \<Rightarrow> (other \<times> addr) list \<times> openState \<times> openState" where
  "clash_view st = (opens st, hopen st 2, hopen st 4)"

lemma clash_names: "byte_char 103 = CHR ''g''" "names_Validate ''g'' = True" "path_Join ''/'' ''g'' = ''/g''"
  by code_simp+

lemma clash_run:
  "map_option (\<lambda>c. (clash_view (store c), let r = fst (op_rename scn_cfg 0 clash_rename [] c) in (fst r, clash_view (store (snd (snd r))))))
     (serve scn_cfg clash_events scn_start) =
   Some (([([1, 2, 3, 4, 0, 0, 0, 0, 0, 0, 0, 1], 2), ([1, 2, 3, 4, 0, 0, 0, 0, 0, 0, 0, 2], 4)],
          \<lparr>o_other = [1, 2, 3, 4, 0, 0, 0, 0, 0, 0, 0, 1], o_seq = 1, o_client = 0, o_owner = 1, o_path = ''/f'', o_access = 1, o_deny = 2,
            o_file = Some 0, o_flag = 0\<rparr>,
          \<lparr>o_other = [1, 2, 3, 4, 0, 0, 0, 0, 0, 0, 0, 2], o_seq = 1, o_client = 0, o_owner = 3, o_path = ''/g'', o_access = 2, o_deny = 0,
            o_file = Some 1, o_flag = 1\<rparr>), nfs4OK,
         [([1, 2, 3, 4, 0, 0, 0, 0, 0, 0, 0, 1], 2), ([1, 2, 3, 4, 0, 0, 0, 0, 0, 0, 0, 2], 4)],
          \<lparr>o_other = [1, 2, 3, 4, 0, 0, 0, 0, 0, 0, 0, 1], o_seq = 1, o_client = 0, o_owner = 1, o_path = ''/f'', o_access = 1, o_deny = 2,
            o_file = Some 0, o_flag = 0\<rparr>,
          \<lparr>o_other = [1, 2, 3, 4, 0, 0, 0, 0, 0, 0, 0, 2], o_seq = 1, o_client = 0, o_owner = 3, o_path = ''/f'', o_access = 2, o_deny = 0,
            o_file = Some 1, o_flag = 1\<rparr>)"
  by (simp add: scn_defs wire_defs clash_names clash_events_def clash_rename_def clash_view_def op_saveFH_def op_rename_def rename_paths_def rename_commit_def
      rename_target_def Let_def cong: let_weak_cong prod.case_cong_weak)

lemma clash_serve: "serve scn_cfg clash_events scn_start = Some clash_before"
  using clash_run by (auto simp: clash_before_def)

text \<open>
  C21. A RENAME that is answered with success can leave two live opens of one path of which one has an access the other denies: from a state
  the server reaches, in which \<open>/f\<close> is open with writes denied and \<open>/g\<close> is open for writing, renaming \<open>/g\<close> to \<open>/f\<close> does so.
\<close>

theorem rename_merges_reservations:
  "reachable scn_cfg clash_before \<and> fst clash_after = nfs4OK
    \<and> {2, 4} \<subseteq> openset (store (snd (snd clash_after)))
    \<and> o_path (hopen (store clash_before) 2) \<noteq> o_path (hopen (store clash_before) 4)
    \<and> o_path (hopen (store (snd (snd clash_after))) 2) = o_path (hopen (store (snd (snd clash_after))) 4)
    \<and> o_access (hopen (store (snd (snd clash_after))) 4) AND o_deny (hopen (store (snd (snd clash_after))) 2) \<noteq> 0"
proof -
  have "reachable scn_cfg clash_before"
    using serve_reachable [OF reachable.init clash_serve [unfolded scn_start_def]] .
  then show ?thesis
    using clash_run unfolding clash_serve by (simp add: clash_view_def clash_after_def Let_def vals_distinct)
qed

end
