(* ===== verification/Nfs_Seqid.thy ===== *)
theory Nfs_Seqid
  imports Nfs_Scenario
begin

text \<open>
  The sequence-id discipline of owners (\<^verbatim>\<open>withSeqid\<close> in \<^verbatim>\<open>nfs4/ops_state.go\<close>, \<^verbatim>\<open>withTwoSeqids\<close> in
  \<^verbatim>\<open>nfs4/ops_lock.go\<close>): a request runs once however often it is sent, a request out of sequence changes nothing, and one that
  fails with a status that must not advance the sequence can be sent again.
\<close>

text \<open>An operation that leaves the sequence fields of owner \<open>w\<close> to its caller.\<close>

definition keeps_seq :: "addr \<Rightarrow> (encoder \<Rightarrow> 'b compound \<Rightarrow> 'b result) \<Rightarrow> bool" where
  "keeps_seq w fn \<longleftrightarrow> (\<forall>e c s r c'. fn e c = (s, r, c') \<longrightarrow>
     w_seqid (howner (store c') w) = w_seqid (howner (store c) w) \<and> w_fresh (howner (store c') w) = w_fresh (howner (store c) w)
     \<and> w_lastReply (howner (store c') w) = w_lastReply (howner (store c) w))"

text \<open>An operation whose reply opens with its status.\<close>

definition replies :: "(encoder \<Rightarrow> 'b compound \<Rightarrow> 'b result) \<Rightarrow> bool" where
  "replies fn \<longleftrightarrow> (\<forall>c s r c'. fn [] c = (s, r, c') \<longrightarrow> r \<noteq> [] \<and> be_Uint32 r = s)"

definition in_sequence :: "addr \<Rightarrow> u32 \<Rightarrow> 'b compound \<Rightarrow> bool" where
  "in_sequence w sq c \<longleftrightarrow> w_fresh (howner (store c) w) \<or> sq = w_seqid (howner (store c) w) + 1"

lemma howner_upd [simp]: "howner (upd_owner w f st) v = (if v = w then f (howner st w) else howner st v)"
  by (simp add: upd_owner_def)

lemma noAdvance_not_OK [simp]: "\<not> noAdvance nfs4OK"
  by (simp add: noAdvance_def)

text \<open>The state a request in sequence runs in, and what is made of its outcome.\<close>

definition seq_started :: "addr \<Rightarrow> u32 \<Rightarrow> 'b compound \<Rightarrow> 'b compound" where
  "seq_started w sq c = upd_store (upd_owner w (\<lambda>x. x\<lparr>w_fresh := False, w_seqid := sq\<rparr>)) c"

lemma withSeqid_runs:
  assumes sq: "in_sequence w sq c" and fn: "fn [] (seq_started w sq c) = (s, result, c2)"
  shows "withSeqid w opnum sq e replay fn c =
    (if noAdvance s
     then let c3 = upd_store (upd_owner w (\<lambda>x. x\<lparr>w_seqid := w_seqid x - 1\<rparr>)) c2
          in status e s (if w_lastReply (howner (store c2) w) = None then upd_store (upd_owner w (\<lambda>x. x\<lparr>w_fresh := True\<rparr>)) c3 else c3)
     else (s, e_opaqueFixed result e, upd_store (upd_owner w (\<lambda>x. x\<lparr>w_lastOp := opnum, w_lastReply := clone_reply result\<rparr>)) c2))"
proof (cases "w_fresh (howner (store c) w)")
  case True
  then show ?thesis using fn by (simp add: withSeqid_def seq_started_def Let_def)
next
  case False
  then have "seq_started w sq c = upd_store (upd_owner w (\<lambda>x. x\<lparr>w_seqid := sq\<rparr>)) c"
    by (cases "howner (store c) w") (simp add: seq_started_def upd_store_def upd_owner_def)
  moreover have "sq = w_seqid (howner (store c) w) + 1" using sq False by (simp add: in_sequence_def)
  ultimately show ?thesis using False fn by (simp add: withSeqid_def Let_def)
qed

text \<open>
  C7. A sequenced request takes effect once: after a request in sequence has run to a status that advances the sequence,
  sending it again, with whatever arguments, runs nothing and returns the recorded status and reply.
\<close>

theorem seqid_replay_exactly_once:
  assumes sq: "in_sequence w sq c" and fn: "keeps_seq w fn" "replies fn"
    and first: "withSeqid w opnum sq e replay fn c = (s, out, c')" and adv: "\<not> noAdvance s"
  shows "\<exists>result. out = e_opaqueFixed result e
    \<and> withSeqid w opnum sq e' again fn' c' = (s, e_opaqueFixed result e', if s = nfs4OK then again c' else c')"
proof -
  obtain t result c2 where r: "fn [] (seq_started w sq c) = (t, result, c2)" by (metis prod.exhaust)
  note run = first [unfolded withSeqid_runs [where fn = fn, OF sq r]]
  have t: "t = s" "out = e_opaqueFixed result e" "\<not> noAdvance t"
    and c': "c' = upd_store (upd_owner w (\<lambda>x. x\<lparr>w_lastOp := opnum, w_lastReply := clone_reply result\<rparr>)) c2"
    using run adv by (auto simp: status_def Let_def split: if_splits)
  have "result \<noteq> []" "be_Uint32 result = s" using fn(2) r t unfolding replies_def by blast+
  moreover have "w_seqid (howner (store c2) w) = sq" "\<not> w_fresh (howner (store c2) w)"
    using fn(1) r unfolding keeps_seq_def by (auto simp: seq_started_def)
  ultimately show ?thesis
    by (intro exI [of _ result]) (simp add: t c' withSeqid_def Let_def clone_reply_def)
qed

lemma keeps_seq_status: "keeps_seq w (\<lambda>r c. status r s c)"
  by (simp add: keeps_seq_def status_def)

lemma replies_status: "replies (\<lambda>r c. status r s c)"
proof -
  have "be_Uint32 (be_PutUint32 s @ []) = s" by (rule be_Uint32_Put)
  then show ?thesis by (simp add: replies_def status_def e_uint32_def be_PutUint32_def)
qed

theorem seqid_replay_exactly_once_witness:
  "\<exists>result. withSeqid 2 opOpen 5 [] (\<lambda>c. c) (\<lambda>r c. status r nfs4ErrIO (c\<lparr>hasFH := False\<rparr>))
      (snd (snd (withSeqid 2 opOpen 5 [] (\<lambda>c. c) (\<lambda>r c. status r nfs4ErrExist c) scn_end)))
    = (nfs4ErrExist, e_opaqueFixed result [], snd (snd (withSeqid 2 opOpen 5 [] (\<lambda>c. c) (\<lambda>r c. status r nfs4ErrExist c) scn_end)))"
proof -
  have seq: "in_sequence 2 5 scn_end" by (simp add: in_sequence_def scn_owner)
  have first: "fst (withSeqid 2 opOpen 5 [] (\<lambda>c. c) (\<lambda>r c. status r nfs4ErrExist c) scn_end) = nfs4ErrExist"
    using withSeqid_runs [OF seq, of "\<lambda>r c. status r nfs4ErrExist c"] by (simp add: status_def noAdvance_def)
  define r where "r = withSeqid 2 opOpen 5 [] (\<lambda>c. c) (\<lambda>r c. status r nfs4ErrExist c) scn_end"
  have "withSeqid 2 opOpen 5 [] (\<lambda>c. c) (\<lambda>r c. status r nfs4ErrExist c) scn_end = (nfs4ErrExist, fst (snd r), snd (snd r))"
    using first by (simp add: r_def prod_eq_iff)
  from seqid_replay_exactly_once [OF seq keeps_seq_status replies_status this, where e' = "[]" and again = "\<lambda>c. c"
      and fn' = "\<lambda>r c. status r nfs4ErrIO (c\<lparr>hasFH := False\<rparr>)"]
  show ?thesis unfolding r_def by (auto simp: noAdvance_def)
qed

text \<open>
  C29. A request that is not in sequence, and not a replay, is refused and changes nothing; one that fails with a status that must not advance the sequence
  leaves its number acceptable, so that the client can send it again.
\<close>

theorem seqid_errors_keep_sequence:
  assumes "keeps_seq w fn"
  shows "(\<not> in_sequence w sq c \<and> sq \<noteq> w_seqid (howner (store c) w)
      \<longrightarrow> withSeqid w opnum sq e replay fn c = status e nfs4ErrBadSeqID c)
    \<and> (in_sequence w sq c \<and> noAdvance (fst (fn [] (seq_started w sq c)))
      \<longrightarrow> in_sequence w sq (snd (snd (withSeqid w opnum sq e replay fn c))))"
proof (intro conjI impI)
  assume "\<not> in_sequence w sq c \<and> sq \<noteq> w_seqid (howner (store c) w)"
  then show "withSeqid w opnum sq e replay fn c = status e nfs4ErrBadSeqID c"
    by (simp add: withSeqid_def in_sequence_def Let_def)
next
  assume *: "in_sequence w sq c \<and> noAdvance (fst (fn [] (seq_started w sq c)))"
  obtain s result c2 where r: "fn [] (seq_started w sq c) = (s, result, c2)" by (metis prod.exhaust)
  have "w_seqid (howner (store c2) w) = sq" using assms r unfolding keeps_seq_def by (auto simp: seq_started_def)
  then show "in_sequence w sq (snd (snd (withSeqid w opnum sq e replay fn c)))"
    using * r by (simp add: withSeqid_runs [where fn = fn, OF conjunct1 [OF *] r] in_sequence_def status_def Let_def)
qed

theorem seqid_errors_keep_sequence_witness:
  "withSeqid 2 opOpen 9 [] (\<lambda>c. c) (\<lambda>r c. status r nfs4ErrBadXDR c) scn_end = status [] nfs4ErrBadSeqID scn_end
    \<and> in_sequence 2 5 (snd (snd (withSeqid 2 opOpen 5 [] (\<lambda>c. c) (\<lambda>r c. status r nfs4ErrBadXDR c) scn_end)))"
  using seqid_errors_keep_sequence [where w = 2 and sq = 9 and c = scn_end and opnum = opOpen and e = "[]" and replay = "\<lambda>c. c",
      OF keeps_seq_status, of nfs4ErrBadXDR]
    seqid_errors_keep_sequence [where w = 2 and sq = 5 and c = scn_end and opnum = opOpen and e = "[]" and replay = "\<lambda>c. c",
      OF keeps_seq_status, of nfs4ErrBadXDR]
  by (simp add: in_sequence_def scn_owner status_def noAdvance_def)



end
