(* ===== verification/Cache_Item.thy ===== *)
theory Cache_Item
  imports Range_Set Nfs_Server
begin

text \<open>
  The content cache of \<^verbatim>\<open>facetcache\<close>: cached items, the registry that holds the live ones, the index of closed
  ones and the two directory trees on disk (\<^verbatim>\<open>facetcache/item.go\<close>, \<^verbatim>\<open>cache.go\<close>).

  Items are heap objects, since a handle outlives the item's place in the registry. The sixteen registry
  shards are one map: every access goes to the shard of the name it is about. Files on disk are objects too,
  found through the data tree by path and through an item's descriptor after they are unlinked. What the
  operating system answers to a call that may fail is an argument.
\<close>

section \<open>Files on disk\<close>

text \<open>A sparse file: its length and its bytes; what lies past the end reads as zero when the file grows.\<close>

record dfile =
  f_len :: int
  f_data :: "int \<Rightarrow> byte"

definition f_empty :: dfile where
  "f_empty = \<lparr>f_len = 0, f_data = (\<lambda>_. 0)\<rparr>"

definition f_write :: "bytes \<Rightarrow> int \<Rightarrow> dfile \<Rightarrow> dfile" where
  "f_write p off f =
     (if p = [] then f
      else f\<lparr>f_len := max (f_len f) (off + int (length p)),
             f_data := (\<lambda>x. if off \<le> x \<and> x < off + int (length p) then p ! nat (x - off) else f_data f x)\<rparr>)"

definition f_truncate :: "int \<Rightarrow> dfile \<Rightarrow> dfile" where
  "f_truncate n f = f\<lparr>f_len := n, f_data := (\<lambda>x. if x < n \<and> x < f_len f then f_data f x else 0)\<rparr>"

definition f_punch :: "rng \<Rightarrow> dfile \<Rightarrow> dfile" where
  "f_punch r f = f\<lparr>f_data := (\<lambda>x. if pos r \<le> x \<and> x < rend r then 0 else f_data f x)\<rparr>"

definition f_read :: "int \<Rightarrow> int \<Rightarrow> dfile \<Rightarrow> bytes" where
  "f_read off n f = map (\<lambda>i. f_data f (off + int i)) [0..<nat n]"

section \<open>State\<close>

record metaJSON =
  meta_size :: int
  meta_atime :: int
  meta_fingerprint :: string
  meta_ranges :: "(int \<times> int) list"

text \<open>A metadata file holds what was marshalled into it, or something \<^verbatim>\<open>json.Unmarshal\<close> refuses.\<close>

datatype metaFile = Meta metaJSON | Corrupt

record item =
  it_name :: string
  it_opens :: int
  it_idleSince :: "time option"
  it_loaded :: bool
  it_fd :: "nat option"
  it_rs :: rangeSet
  it_size :: int
  it_fpr :: string
  it_doomed :: bool
  it_dirty :: bool
  it_needSync :: bool
  it_atime :: int
  it_readHead :: int
  it_lastKick :: int

record dEntry =
  de_atime :: int
  de_bytes :: int

record cacheConf =
  cc_dir :: string
  cc_maxBytes :: int
  cc_maxAge :: int
  cc_chunkSize :: int
  cc_readAhead :: int

record cfs =
  cf_conf :: cacheConf
  cf_reg :: "(string \<times> nat) list"
  cf_items :: "nat \<Rightarrow> item"
  cf_nextItem :: nat
  cf_index :: "(string \<times> dEntry) list"
  cf_dataTree :: "(string \<times> nat) list"
  cf_metaTree :: "(string \<times> metaFile) list"
  cf_files :: "nat \<Rightarrow> dfile"
  cf_nextFile :: nat
  cf_cachedBytes :: int
  cf_evictedBytes :: int
  cf_punchedBytes :: int
  cf_bytesFromCache :: int
  cf_bytesFilled :: int
  cf_kick :: bool

definition maxBytes :: "cacheConf \<Rightarrow> int" where
  "maxBytes c = (if cc_maxBytes c > 0 then cc_maxBytes c else 10737418240)"

definition maxAge :: "cacheConf \<Rightarrow> int" where
  "maxAge c = (if cc_maxAge c > 0 then cc_maxAge c else 86400000000000)"

definition chunkSize :: "cacheConf \<Rightarrow> int" where
  "chunkSize c = (if cc_chunkSize c > 0 then cc_chunkSize c else 4194304)"

definition readAhead :: "cacheConf \<Rightarrow> int" where
  "readAhead c = (if cc_readAhead c > 0 then cc_readAhead c else 16777216)"

definition upd_item :: "nat \<Rightarrow> (item \<Rightarrow> item) \<Rightarrow> cfs \<Rightarrow> cfs" where
  "upd_item a g f = f\<lparr>cf_items := (cf_items f)(a := g (cf_items f a))\<rparr>"

definition upd_file :: "nat \<Rightarrow> (dfile \<Rightarrow> dfile) \<Rightarrow> cfs \<Rightarrow> cfs" where
  "upd_file i g f = f\<lparr>cf_files := (cf_files f)(i := g (cf_files f i))\<rparr>"

definition addBytes :: "int \<Rightarrow> cfs \<Rightarrow> cfs" where
  "addBytes n f = f\<lparr>cf_cachedBytes := cf_cachedBytes f + n\<rparr>"

definition newItem :: "string \<Rightarrow> item" where
  "newItem name = \<lparr>it_name = name, it_opens = 0, it_idleSince = None, it_loaded = False, it_fd = None, it_rs = [], it_size = 0,
     it_fpr = [], it_doomed = False, it_dirty = False, it_needSync = False, it_atime = 0, it_readHead = 0,
     it_lastKick = 0\<rparr>"

definition newCFS :: "cacheConf \<Rightarrow> cfs" where
  "newCFS c = \<lparr>cf_conf = c, cf_reg = [], cf_items = (\<lambda>_. newItem []), cf_nextItem = 0, cf_index = [], cf_dataTree = [], cf_metaTree = [],
     cf_files = (\<lambda>_. f_empty), cf_nextFile = 0, cf_cachedBytes = 0, cf_evictedBytes = 0, cf_punchedBytes = 0,
     cf_bytesFromCache = 0, cf_bytesFilled = 0, cf_kick = False\<rparr>"

section \<open>Names\<close>

text \<open>\<^verbatim>\<open>strconv.FormatInt(n, 10)\<close>.\<close>

definition formatInt :: "int \<Rightarrow> string" where
  "formatInt n = (if n < 0 then ''-'' @ dec_string (nat (- n)) else dec_string (nat n))"

definition fingerprint :: "finfo \<Rightarrow> string" where
  "fingerprint st = formatInt (fi_size st) @ '','' @ formatInt (fi_mtime st)"

definition cachePaths :: "cacheConf \<Rightarrow> string \<Rightarrow> (string \<times> string) option" where
  "cachePaths c name =
     (let rel = (if hasPrefix name ''/'' then drop 1 name else name)
      in if rel = [] then None
         else if list_ex (\<lambda>part. part = [] \<or> part = ''.'' \<or> part = ''..'' \<or> CHR 0x5C \<in> set part) (split_slash rel) then None
         else Some (path_Join (cc_dir c) (''data/'' @ rel), path_Join (cc_dir c) (''meta/'' @ rel @ ''.json'')))"

section \<open>The index of closed items\<close>

definition jan_forget :: "string \<Rightarrow> cfs \<Rightarrow> int \<times> cfs" where
  "jan_forget name f =
     (case map_of (cf_index f) name of
        None \<Rightarrow> (0, f)
      | Some e \<Rightarrow> (de_bytes e, f\<lparr>cf_index := AList.delete name (cf_index f)\<rparr>))"

definition jan_remember :: "string \<Rightarrow> int \<Rightarrow> int \<Rightarrow> cfs \<Rightarrow> cfs" where
  "jan_remember name atime bytes f = f\<lparr>cf_index := AList.update name \<lparr>de_atime = atime, de_bytes = bytes\<rparr> (cf_index f)\<rparr>"

section \<open>Metadata\<close>

text \<open>\<open>Inl True\<close> is a file that is not there, \<open>Inl False\<close> one that does not parse or claims an impossible range.\<close>

definition loadMeta :: "string \<Rightarrow> cfs \<Rightarrow> bool + metaJSON" where
  "loadMeta path f =
     (case map_of (cf_metaTree f) path of
        None \<Rightarrow> Inl True
      | Some Corrupt \<Rightarrow> Inl False
      | Some (Meta m) \<Rightarrow> if list_ex (\<lambda>(p, n). p < 0 \<or> n \<le> 0) (meta_ranges m) then Inl False else Inr m)"

definition isLive :: "item \<Rightarrow> bool" where
  "isLive x \<longleftrightarrow> it_loaded x \<and> \<not> it_doomed x"

text \<open>
  \<^verbatim>\<open>flushMeta\<close> holds the item lock only while it takes its snapshot: \<open>flush_snapshot\<close> is that part, \<open>flush_write\<close> what
  follows without the lock. The snapshot carries the metadata and whether the data file has to be synced.
\<close>

datatype flushOutcome = FlushOK | SyncFails | WriteFails | RenameFails

definition flush_snapshot :: "nat \<Rightarrow> cfs \<Rightarrow> (metaJSON \<times> bool) option \<times> cfs" where
  "flush_snapshot a f =
     (let x = cf_items f a
      in if \<not> it_dirty x then (None, f)
         else if it_doomed x \<or> \<not> it_loaded x then (None, f)
         else (Some (\<lparr>meta_size = it_size x, meta_atime = it_atime x, meta_fingerprint = it_fpr x,
                      meta_ranges = map (\<lambda>r. (pos r, rsize r)) (it_rs x)\<rparr>, it_needSync x),
               upd_item a (\<lambda>x. x\<lparr>it_dirty := False, it_needSync := False\<rparr>) f))"

definition flush_fail :: "bool \<Rightarrow> nat \<Rightarrow> cfs \<Rightarrow> bool \<times> cfs" where
  "flush_fail needSync a f = (False, upd_item a (\<lambda>x. x\<lparr>it_dirty := True, it_needSync := it_needSync x \<or> needSync\<rparr>) f)"

definition flush_write :: "flushOutcome \<Rightarrow> nat \<Rightarrow> metaJSON \<times> bool \<Rightarrow> cfs \<Rightarrow> bool \<times> cfs" where
  "flush_write out a snap f =
     (if snd snap \<and> out = SyncFails then flush_fail (snd snap) a f
      else case cachePaths (cf_conf f) (it_name (cf_items f a)) of
             None \<Rightarrow> flush_fail (snd snap) a f
           | Some (_, metaPath) \<Rightarrow>
               let tmp = metaPath @ ''.tmp''
               in if out = WriteFails then flush_fail (snd snap) a (f\<lparr>cf_metaTree := AList.update tmp Corrupt (cf_metaTree f)\<rparr>)
                  else let f = f\<lparr>cf_metaTree := AList.update tmp (Meta (fst snap)) (cf_metaTree f)\<rparr>
                       in if out = RenameFails then flush_fail (snd snap) a (f\<lparr>cf_metaTree := AList.delete tmp (cf_metaTree f)\<rparr>)
                          else (True, f\<lparr>cf_metaTree := AList.update metaPath (Meta (fst snap)) (AList.delete tmp (cf_metaTree f))\<rparr>))"

definition flushMeta :: "flushOutcome \<Rightarrow> nat \<Rightarrow> cfs \<Rightarrow> bool \<times> cfs" where
  "flushMeta out a f =
     (case flush_snapshot a f of
        (None, f) \<Rightarrow> (True, f)
      | (Some snap, f) \<Rightarrow> flush_write out a snap f)"

section \<open>Opening, releasing and closing items\<close>

text \<open>What the cache disk answers while an item is loaded.\<close>

record diskEnv =
  mkdirOK :: bool
  openOK :: bool
  truncOK :: bool

definition load_ranges :: "metaJSON \<Rightarrow> int \<Rightarrow> rangeSet \<Rightarrow> rangeSet" where
  "load_ranges m sz rs =
     rs_remove (foldl (\<lambda>s (p, n). rs_insert s \<lparr>pos = p, rsize = n\<rparr>) rs (meta_ranges m)) \<lparr>pos = sz, rsize = 2 ^ 62 - sz\<rparr>"

text \<open>\<^verbatim>\<open>os.OpenFile(dataPath, O_RDWR|O_CREATE)\<close>.\<close>

definition open_data :: "string \<Rightarrow> cfs \<Rightarrow> nat \<times> cfs" where
  "open_data path f =
     (case map_of (cf_dataTree f) path of
        Some i \<Rightarrow> (i, f)
      | None \<Rightarrow> (cf_nextFile f, f\<lparr>cf_dataTree := AList.update path (cf_nextFile f) (cf_dataTree f),
                    cf_files := (cf_files f)(cf_nextFile f := f_empty), cf_nextFile := Suc (cf_nextFile f)\<rparr>))"

definition load_meta :: "nat \<Rightarrow> string \<Rightarrow> cfs \<Rightarrow> cfs" where
  "load_meta a metaPath f =
     (case loadMeta metaPath f of
        Inr m \<Rightarrow>
          if meta_fingerprint m = it_fpr (cf_items f a)
          then upd_item a (\<lambda>x. x\<lparr>it_rs := load_ranges m (it_size x) (it_rs x),
                 it_atime := if meta_atime m > 0 then meta_atime m else it_atime x\<rparr>) f
          else upd_item a (\<lambda>x. x\<lparr>it_dirty := True\<rparr>) f
      | Inl absent \<Rightarrow>
          upd_item a (\<lambda>x. x\<lparr>it_dirty := True\<rparr>)
            (if absent then f else f\<lparr>cf_metaTree := AList.delete metaPath (cf_metaTree f)\<rparr>))"

definition ensureLoaded :: "diskEnv \<Rightarrow> time \<Rightarrow> nat \<Rightarrow> finfo \<Rightarrow> cfs \<Rightarrow> fserr option \<times> cfs" where
  "ensureLoaded env now a st f =
     (let x = cf_items f a
      in if it_doomed x then (Some Invalid, f)
         else if it_loaded x then (None, f)
         else case cachePaths (cf_conf f) (it_name x) of
                None \<Rightarrow> (Some Invalid, f)
              | Some (dataPath, metaPath) \<Rightarrow>
                  if \<not> mkdirOK env then (Some OtherErr, f)
                  else if \<not> openOK env then (Some OtherErr, f)
                  else let (fd, f) = open_data dataPath f;
                           f = upd_item a (\<lambda>x. x\<lparr>it_fd := Some fd, it_size := fi_size st, it_fpr := fingerprint st, it_atime := now\<rparr>) f;
                           f = load_meta a metaPath f
                       in if \<not> truncOK env then (Some OtherErr, upd_item a (\<lambda>x. x\<lparr>it_fd := None\<rparr>) f)
                          else let f = upd_file fd (f_truncate (fi_size st)) f;
                                   (previously, f) = jan_forget (it_name x) f;
                                   f = addBytes (rs_size (it_rs (cf_items f a)) - previously) f
                               in (None, upd_item a (\<lambda>x. x\<lparr>it_loaded := True\<rparr>) f))"

definition doomLocked :: "nat \<Rightarrow> cfs \<Rightarrow> cfs" where
  "doomLocked a f =
     (let x = cf_items f a
      in if it_doomed x then f
         else let f = upd_item a (\<lambda>x. x\<lparr>it_doomed := True\<rparr>) f
              in if it_loaded x then addBytes (- rs_size (it_rs x)) f else f)"

definition item_shutdown :: "flushOutcome \<Rightarrow> nat \<Rightarrow> cfs \<Rightarrow> cfs" where
  "item_shutdown out a f =
     (let f = snd (flushMeta out a f);
          x = cf_items f a;
          f = (if it_loaded x \<and> \<not> it_doomed x then jan_remember (it_name x) (it_atime x) (rs_size (it_rs x)) f else f)
      in upd_item a (\<lambda>x. x\<lparr>it_fd := None, it_loaded := False, it_doomed := True\<rparr>) f)"

definition releaseItem :: "flushOutcome \<Rightarrow> time \<Rightarrow> nat \<Rightarrow> cfs \<Rightarrow> cfs" where
  "releaseItem out now a f =
     (let x = cf_items f a;
          last = (it_opens x - 1 = 0);
          f = upd_item a (\<lambda>x. x\<lparr>it_opens := it_opens x - 1, it_idleSince := if last then Some now else it_idleSince x\<rparr>) f
      in if last \<and> it_doomed x then item_shutdown out a f else f)"

definition openItem :: "diskEnv \<Rightarrow> flushOutcome \<Rightarrow> time \<Rightarrow> string \<Rightarrow> finfo \<Rightarrow> cfs \<Rightarrow> (fserr + nat) \<times> cfs" where
  "openItem env out now name st f =
     (let (a, f) = (case map_of (cf_reg f) name of
            Some a \<Rightarrow> (a, f)
          | None \<Rightarrow> (cf_nextItem f, f\<lparr>cf_items := (cf_items f)(cf_nextItem f := newItem name), cf_nextItem := Suc (cf_nextItem f),
              cf_reg := AList.update name (cf_nextItem f) (cf_reg f)\<rparr>));
          f = upd_item a (\<lambda>x. x\<lparr>it_opens := it_opens x + 1\<rparr>) f;
          (err, f) = ensureLoaded env now a st f
      in (case err of
            Some e \<Rightarrow> (Inl e, releaseItem out now a f)
          | None \<Rightarrow> (Inr a, f)))"

definition lookupItem :: "flushOutcome \<Rightarrow> time \<Rightarrow> string \<Rightarrow> cfs \<Rightarrow> nat option \<times> cfs" where
  "lookupItem out now name f =
     (case map_of (cf_reg f) name of
        None \<Rightarrow> (None, f)
      | Some a \<Rightarrow>
          let f = upd_item a (\<lambda>x. x\<lparr>it_opens := it_opens x + 1\<rparr>) f
          in if \<not> isLive (cf_items f a) then (None, releaseItem out now a f) else (Some a, f))"

section \<open>Reading and writing an item\<close>

definition hasRange :: "nat \<Rightarrow> rng \<Rightarrow> cfs \<Rightarrow> bool" where
  "hasRange a r f \<longleftrightarrow> rs_present (it_rs (cf_items f a)) r"

definition item_file :: "nat \<Rightarrow> cfs \<Rightarrow> dfile" where
  "item_file a f = cf_files f (the (it_fd (cf_items f a)))"

definition upd_item_file :: "nat \<Rightarrow> (dfile \<Rightarrow> dfile) \<Rightarrow> cfs \<Rightarrow> cfs" where
  "upd_item_file a g f = (case it_fd (cf_items f a) of None \<Rightarrow> f | Some i \<Rightarrow> upd_file i g f)"

definition item_touch :: "time \<Rightarrow> int \<Rightarrow> nat \<Rightarrow> cfs \<Rightarrow> cfs" where
  "item_touch now head a = upd_item a (\<lambda>x. x\<lparr>it_atime := now, it_readHead := max (it_readHead x) head, it_dirty := True\<rparr>)"

text \<open>\<^verbatim>\<open>probeTailMax\<close> is 64 MiB; sizes are not negative, so Go's division is \<open>div\<close>.\<close>

definition isProbe :: "rng \<Rightarrow> int \<Rightarrow> bool" where
  "isProbe r sz \<longleftrightarrow> rend r \<ge> sz - min 67108864 (sz div 4)"

text \<open>
  What the other goroutines do while a reader runs without the item lock, round by round: while it waits in
  \<^verbatim>\<open>download\<close> (with the error it is woken with), between its presence check and its read, between its read and
  the second check, and from \<^verbatim>\<open>ensureAsync\<close> on.
\<close>

record others =
  ot_download :: "nat \<Rightarrow> rng \<Rightarrow> cfs \<Rightarrow> fserr option \<times> cfs"
  ot_checked :: "nat \<Rightarrow> cfs \<Rightarrow> cfs"
  ot_read :: "nat \<Rightarrow> cfs \<Rightarrow> cfs"
  ot_async :: "rng \<Rightarrow> cfs \<Rightarrow> cfs"

definition warmKick :: "others \<Rightarrow> time \<Rightarrow> nat \<Rightarrow> rng \<Rightarrow> int \<Rightarrow> cfs \<Rightarrow> cfs" where
  "warmKick ot now a r sz f =
     (if now - it_lastKick (cf_items f a) < 1000000000 then f
      else let f = upd_item a (\<lambda>x. x\<lparr>it_lastKick := now\<rparr>) f;
               ahead = \<lparr>pos = rend r, rsize = min (readAhead (cf_conf f)) (sz - rend r)\<rparr>
           in if rsize ahead \<le> 0 \<or> hasRange a ahead f \<or> isProbe r sz then f else ot_async ot ahead f)"

text \<open>
  \<^verbatim>\<open>(*os.File).ReadAt\<close>: invalid on a closed or nil file, \<^verbatim>\<open>io.EOF\<close> when the file ends before the buffer is full.
\<close>

definition fd_ReadAt :: "nat \<Rightarrow> rng \<Rightarrow> cfs \<Rightarrow> fserr + bytes" where
  "fd_ReadAt a r f =
     (if it_fd (cf_items f a) = None then Inl Invalid
      else if 0 < rsize r \<and> rend r > f_len (item_file a f) then Inl EOF
      else Inr (f_read (pos r) (rsize r) (item_file a f)))"

text \<open>The loop of \<^verbatim>\<open>readAt\<close>; the third argument counts down the rounds left (\<^verbatim>\<open>readRetries\<close> is 3).\<close>

fun read_loop :: "others \<Rightarrow> bool \<Rightarrow> nat \<Rightarrow> nat \<Rightarrow> rng \<Rightarrow> cfs \<Rightarrow> (fserr + bytes \<times> bool) \<times> cfs" where
  "read_loop ot warm left a r f =
     (let present = hasRange a r f;
          (err, f) = (if present then (None, f) else ot_download ot left r f);
          warm = (warm \<and> present)
      in case err of
           Some e \<Rightarrow> (Inl e, f)
         | None \<Rightarrow>
             let f = ot_checked ot left f
             in case fd_ReadAt a r f of
                  Inl e \<Rightarrow> (Inl e, f)
                | Inr p \<Rightarrow>
                    let f = ot_read ot left f
                    in if hasRange a r f then (Inr (p, warm), f)
                       else case left of 0 \<Rightarrow> (Inl OtherErr, f) | Suc left' \<Rightarrow> read_loop ot warm left' a r f)"

declare read_loop.simps [simp del]

definition item_readAt :: "others \<Rightarrow> time \<Rightarrow> nat \<Rightarrow> nat \<Rightarrow> int \<Rightarrow> cfs \<Rightarrow> (bytes \<times> fserr option) \<times> cfs" where
  "item_readAt ot now a len off f =
     (let sz = it_size (cf_items f a)
      in if off < 0 then (([], Some Invalid), f)
         else if off \<ge> sz then (([], Some EOF), f)
         else let n = (if off + int len > sz then sz - off else int len);
                  r = \<lparr>pos = off, rsize = n\<rparr>;
                  (res, f) = read_loop ot True 3 a r f
              in (case res of
                    Inl e \<Rightarrow> (([], Some e), f)
                  | Inr (p, warm) \<Rightarrow>
                      let f = item_touch now (off + n) a f;
                          f = (if warm then warmKick ot now a r sz (f\<lparr>cf_bytesFromCache := cf_bytesFromCache f + n\<rparr>)
                               else f\<lparr>cf_bytesFilled := cf_bytesFilled f + n\<rparr>)
                      in ((p, if n < int len then Some EOF else None), f)))"

text \<open>
  \<open>wr m\<close> is \<open>Some (k, nospace)\<close> when writing the range \<open>m\<close> fails after \<open>k\<close> bytes, with an error \<^verbatim>\<open>isNoSpace\<close> accepts or not.
\<close>

definition kickNow :: "cfs \<Rightarrow> cfs" where
  "kickNow f = f\<lparr>cf_kick := True\<rparr>"

fun write_missing :: "(rng \<Rightarrow> (nat \<times> bool) option) \<Rightarrow> nat \<Rightarrow> bytes \<Rightarrow> int \<Rightarrow> rng list \<Rightarrow> cfs \<Rightarrow> bool \<times> cfs" where
  "write_missing wr a p off [] f = (True, f)"
| "write_missing wr a p off (m # ms) f =
     (let q = take (nat (rsize m)) (drop (nat (pos m - off)) p)
      in case wr m of
           Some (k, nospace) \<Rightarrow>
             let f = upd_item_file a (f_write (take k q) (pos m)) f
             in (False, if nospace then kickNow f else f)
         | None \<Rightarrow> write_missing wr a p off ms (upd_item_file a (f_write q (pos m)) f))"

definition fill_range :: "(rng \<Rightarrow> (nat \<times> bool) option) \<Rightarrow> nat \<Rightarrow> bytes \<Rightarrow> int \<Rightarrow> rng \<Rightarrow> cfs \<Rightarrow> (fserr + int) \<times> cfs" where
  "fill_range wr a p off r f =
     (let s = it_rs (cf_items f a);
          ms = (case missingWithin s r [] of None \<Rightarrow> [] | Some ms \<Rightarrow> ms);
          (ok, f) = write_missing wr a p off ms f
      in if \<not> ok then (Inl OtherErr, f)
         else let rs = rs_insert s r;
                  written = rs_size rs - rs_size s;
                  f = addBytes written (upd_item a (\<lambda>x. x\<lparr>it_rs := rs\<rparr>) f);
                  f = (if written > 0 then upd_item a (\<lambda>x. x\<lparr>it_dirty := True, it_needSync := True\<rparr>) f else f)
              in (Inr (rsize r - written), f))"

definition writeNoOverwrite :: "(rng \<Rightarrow> (nat \<times> bool) option) \<Rightarrow> nat \<Rightarrow> bytes \<Rightarrow> int \<Rightarrow> cfs \<Rightarrow> (fserr + int) \<times> cfs" where
  "writeNoOverwrite wr a p off f =
     (let x = cf_items f a;
          r = \<lparr>pos = off, rsize = int (length p)\<rparr>
      in if it_doomed x \<or> \<not> it_loaded x then (Inl Invalid, f)
         else if rend r > it_size x
         then let r = r\<lparr>rsize := it_size x - pos r\<rparr>
              in if rsize r \<le> 0 then (Inr (int (length p)), f) else fill_range wr a p off r f
         else fill_range wr a p off r f)"

definition mirrorWrite :: "nat option \<Rightarrow> nat \<Rightarrow> bytes \<Rightarrow> int \<Rightarrow> cfs \<Rightarrow> cfs" where
  "mirrorWrite wr a p off f =
     (let x = cf_items f a;
          r = \<lparr>pos = off, rsize = int (length p)\<rparr>
      in if p = [] \<or> off < 0 then f
         else if it_doomed x \<or> \<not> it_loaded x then f
         else case wr of
                Some k \<Rightarrow>
                  let rs = rs_remove (it_rs x) r
                  in addBytes (rs_size rs - rs_size (it_rs x))
                       (upd_item a (\<lambda>x. x\<lparr>it_rs := rs\<rparr>) (upd_item_file a (f_write (take k p) off) f))
              | None \<Rightarrow>
                  let rs = rs_insert (it_rs x) r
                  in addBytes (rs_size rs - rs_size (it_rs x))
                       (upd_item a (\<lambda>x. x\<lparr>it_rs := rs, it_size := max (it_size x) (off + int (length p)), it_dirty := True, it_needSync := True\<rparr>)
                         (upd_item_file a (f_write p off) f)))"

definition item_truncate :: "bool \<Rightarrow> nat \<Rightarrow> int \<Rightarrow> cfs \<Rightarrow> cfs" where
  "item_truncate ok a sz f =
     (let x = cf_items f a
      in if sz < 0 then f
         else if it_doomed x \<or> \<not> it_loaded x then f
         else if \<not> ok then doomLocked a f
         else let rs = rs_remove (it_rs x) \<lparr>pos = sz, rsize = 2 ^ 62 - sz\<rparr>;
                  rs = (if sz > it_size x then rs_insert rs \<lparr>pos = it_size x, rsize = sz - it_size x\<rparr> else rs)
              in addBytes (rs_size rs - rs_size (it_rs x))
                   (upd_item a (\<lambda>x. x\<lparr>it_rs := rs, it_size := sz, it_dirty := True, it_needSync := True\<rparr>)
                     (upd_item_file a (f_truncate sz) f)))"

end
