(* ===== verification/Cache_Janitor.thy ===== *)
theory Cache_Janitor
  imports Cache_Item
begin

text \<open>
  The janitor of the content cache (\<^verbatim>\<open>facetcache/janitor.go\<close>): closing idle items, eviction by age and by budget,
  hole punching behind open streams, the walk at start and the hourly audit; and the sweeps of the wrapper that
  end an item (\<^verbatim>\<open>fswrap.go\<close>, \<^verbatim>\<open>cache.go\<close>).

  A range over a Go map visits its entries in the order of the association list.
\<close>

section \<open>Removing files\<close>

text \<open>Directories are not modelled, so pruning empty parents changes nothing here.\<close>

definition removeFiles :: "string \<Rightarrow> cfs \<Rightarrow> cfs" where
  "removeFiles name f =
     (case cachePaths (cf_conf f) name of
        None \<Rightarrow> f
      | Some (dataPath, metaPath) \<Rightarrow>
          f\<lparr>cf_dataTree := AList.delete dataPath (cf_dataTree f), cf_metaTree := AList.delete metaPath (cf_metaTree f)\<rparr>)"

section \<open>The passes\<close>

text \<open>\<^verbatim>\<open>itemIdleClose\<close> is one minute.\<close>

definition closeIdle1 :: "(nat \<Rightarrow> flushOutcome) \<Rightarrow> time \<Rightarrow> string \<times> nat \<Rightarrow> cfs \<Rightarrow> cfs" where
  "closeIdle1 out now e f =
     (case e of (name, a) \<Rightarrow>
        let x = cf_items f a
        in if it_opens x \<noteq> 0 then f
           else case it_idleSince x of
                  None \<Rightarrow> f
                | Some t \<Rightarrow> if now - t < 60000000000 then f
                            else item_shutdown (out a) a (f\<lparr>cf_reg := AList.delete name (cf_reg f)\<rparr>))"

definition closeIdle :: "(nat \<Rightarrow> flushOutcome) \<Rightarrow> time \<Rightarrow> cfs \<Rightarrow> cfs" where
  "closeIdle out now f = fold (closeIdle1 out now) (cf_reg f) f"

definition candidates :: "cfs \<Rightarrow> (string \<times> int) list" where
  "candidates f = map (\<lambda>(name, e). (name, de_atime e)) (cf_index f)"

definition deleteEntry :: "string \<Rightarrow> cfs \<Rightarrow> cfs" where
  "deleteEntry name f =
     (if map_of (cf_reg f) name \<noteq> None then f
      else case map_of (cf_index f) name of
             None \<Rightarrow> f
           | Some e \<Rightarrow>
               let f = f\<lparr>cf_index := AList.delete name (cf_index f)\<rparr>
               in if cachePaths (cf_conf f) name = None then f
                  else let f = addBytes (- de_bytes e) (removeFiles name f)
                       in f\<lparr>cf_evictedBytes := cf_evictedBytes f + de_bytes e\<rparr>)"

definition evictExpired :: "time \<Rightarrow> cfs \<Rightarrow> cfs" where
  "evictExpired now f =
     fold (\<lambda>(name, atime) f. if atime < now - maxAge (cf_conf f) then deleteEntry name f else f) (candidates f) f"

fun evict_loop :: "int \<Rightarrow> (string \<times> int) list \<Rightarrow> cfs \<Rightarrow> cfs" where
  "evict_loop limit [] f = f"
| "evict_loop limit (c # cs) f =
     (if cf_cachedBytes f \<le> limit then f else evict_loop limit cs (deleteEntry (fst c) f))"

definition evictOverBudget :: "cfs \<Rightarrow> cfs" where
  "evictOverBudget f =
     (let limit = maxBytes (cf_conf f)
      in if cf_cachedBytes f \<le> limit then f else evict_loop limit (sort_key snd (candidates f)) f)"

text \<open>\<^verbatim>\<open>punchAlign\<close> is a constant of the platform: 4096 on darwin, 1 elsewhere. Positions are not negative.\<close>

definition alignPunch :: "int \<Rightarrow> rng \<Rightarrow> rng" where
  "alignPunch align r =
     (if align = 1 then r
      else let p = (pos r + align - 1) div align * align;
               e = rend r div align * align
           in \<lparr>pos = p, rsize = e - p\<rparr>)"

fun behind :: "int \<Rightarrow> rng list \<Rightarrow> rng list" where
  "behind c [] = []"
| "behind c (r # rs) =
     (if rend r \<le> c then r # behind c rs
      else if pos r < c then \<lparr>pos = pos r, rsize = c - pos r\<rparr> # behind c rs
      else behind c rs)"

text \<open>\<open>ok r\<close> tells whether punching \<open>r\<close> succeeds. The result says whether the loop ended without an error.\<close>

fun punch_loop :: "(rng \<Rightarrow> bool) \<Rightarrow> int \<Rightarrow> nat \<Rightarrow> rng list \<Rightarrow> bool \<Rightarrow> cfs \<Rightarrow> (bool option) \<times> cfs" where
  "punch_loop ok align a [] punched f = (Some punched, f)"
| "punch_loop ok align a (r # rs) punched f =
     (let r = alignPunch align r
      in if rsize r \<le> 0 then punch_loop ok align a rs punched f
         else if \<not> ok r then (None, f)
         else let f = upd_item_file a (f_punch r) f;
                  f = addBytes (- rsize r) (upd_item a (\<lambda>x. x\<lparr>it_rs := rs_remove (it_rs x) r\<rparr>) f)
              in punch_loop ok align a rs True (f\<lparr>cf_punchedBytes := cf_punchedBytes f + rsize r\<rparr>))"

text \<open>\<^verbatim>\<open>punchBackWindow\<close> is 256 MiB.\<close>

definition punchItem :: "(rng \<Rightarrow> bool) \<Rightarrow> int \<Rightarrow> nat \<Rightarrow> cfs \<Rightarrow> cfs" where
  "punchItem ok align a f =
     (let x = cf_items f a;
          c = it_readHead x - 268435456
      in if c \<le> 0 then f
         else if \<not> it_loaded x \<or> it_doomed x then f
         else (case punch_loop ok align a (behind c (it_rs x)) False f of
                 (None, f) \<Rightarrow> f
               | (Some punched, f) \<Rightarrow> if punched then upd_item a (\<lambda>x. x\<lparr>it_dirty := True\<rparr>) f else f))"

fun punch_items :: "(nat \<Rightarrow> rng \<Rightarrow> bool) \<Rightarrow> int \<Rightarrow> nat list \<Rightarrow> cfs \<Rightarrow> cfs" where
  "punch_items ok align [] f = f"
| "punch_items ok align (a # as) f =
     (if cf_cachedBytes f \<le> maxBytes (cf_conf f) then f else punch_items ok align as (punchItem (ok a) align a f))"

definition punchBehind :: "bool \<Rightarrow> (nat \<Rightarrow> rng \<Rightarrow> bool) \<Rightarrow> int \<Rightarrow> cfs \<Rightarrow> cfs" where
  "punchBehind canPunch ok align f =
     (if \<not> canPunch \<or> cf_cachedBytes f \<le> maxBytes (cf_conf f) then f
      else punch_items ok align (map snd (cf_reg f)) f)"

definition jan_pass :: "(nat \<Rightarrow> flushOutcome) \<Rightarrow> bool \<Rightarrow> (nat \<Rightarrow> rng \<Rightarrow> bool) \<Rightarrow> int \<Rightarrow> time \<Rightarrow> cfs \<Rightarrow> cfs" where
  "jan_pass out canPunch ok align now f =
     punchBehind canPunch ok align (evictOverBudget (evictExpired now (closeIdle out now f)))"

section \<open>The walk at start and the audit\<close>

definition meta_bytes :: "metaJSON \<Rightarrow> int" where
  "meta_bytes m = sum_list (map snd (meta_ranges m))"

definition hasSuffix :: "string \<Rightarrow> string \<Rightarrow> bool" where
  "hasSuffix s suf \<longleftrightarrow> length suf \<le> length s \<and> drop (length s - length suf) s = suf"

text \<open>\<^verbatim>\<open>filepath.Rel\<close> of a path found by a walk of \<open>root\<close>: what follows the root and its slash.\<close>

definition relTo :: "string \<Rightarrow> string \<Rightarrow> string" where
  "relTo root p = drop (length root + 1) p"

text \<open>One file met by the walk of the metadata tree.\<close>

definition load_meta1 :: "string \<Rightarrow> int \<times> cfs \<Rightarrow> int \<times> cfs" where
  "load_meta1 p s =
     (case s of (tot, f) \<Rightarrow>
        let dir = cc_dir (cf_conf f)
        in if hasSuffix p ''.json.tmp'' then (tot, f\<lparr>cf_metaTree := AList.delete p (cf_metaTree f)\<rparr>)
           else if \<not> hasSuffix p ''.json'' then (tot, f)
           else let rel = relTo (path_Join dir ''meta'') (take (length p - 5) p);
                    dataPath = path_Join dir (''data/'' @ rel)
                in (case (map_of (cf_dataTree f) dataPath, loadMeta p f) of
                      (Some _, Inr m) \<Rightarrow> (tot + meta_bytes m, jan_remember (CHR ''/'' # rel) (meta_atime m) (meta_bytes m) f)
                    | _ \<Rightarrow> (tot, f\<lparr>cf_metaTree := AList.delete p (cf_metaTree f), cf_dataTree := AList.delete dataPath (cf_dataTree f)\<rparr>)))"

definition load_data1 :: "string \<Rightarrow> cfs \<Rightarrow> cfs" where
  "load_data1 p f =
     (if map_of (cf_index f) (CHR ''/'' # relTo (path_Join (cc_dir (cf_conf f)) ''data'') p) = None
      then f\<lparr>cf_dataTree := AList.delete p (cf_dataTree f)\<rparr> else f)"

definition jan_load :: "cfs \<Rightarrow> cfs" where
  "jan_load f =
     (let (tot, f) = fold load_meta1 (map fst (cf_metaTree f)) (0, f);
          f = fold load_data1 (map fst (cf_dataTree f)) f
      in f\<lparr>cf_cachedBytes := tot\<rparr>)"

definition meta_of :: "cfs \<Rightarrow> string \<Rightarrow> bool + metaJSON" where
  "meta_of f name =
     loadMeta (path_Join (cc_dir (cf_conf f)) (''meta/'' @ (if hasPrefix name ''/'' then drop 1 name else name) @ ''.json'')) f"

fun reconcile_index :: "cfs \<Rightarrow> (string \<times> dEntry) list \<Rightarrow> int \<times> (string \<times> dEntry) list" where
  "reconcile_index f [] = (0, [])"
| "reconcile_index f ((name, e) # es) =
     (let (tot, es) = reconcile_index f es
      in case meta_of f name of
           Inl _ \<Rightarrow> (tot, (name, e) # es)
         | Inr m \<Rightarrow> (tot + meta_bytes m, (name, if meta_bytes m \<noteq> de_bytes e then e\<lparr>de_bytes := meta_bytes m\<rparr> else e) # es))"

definition live_total :: "cfs \<Rightarrow> int" where
  "live_total f = sum_list (map (\<lambda>a. if isLive (cf_items f a) then rs_size (it_rs (cf_items f a)) else 0) (map snd (cf_reg f)))"

definition jan_reconcile :: "cfs \<Rightarrow> cfs" where
  "jan_reconcile f =
     (let (indexTotal, idx) = reconcile_index f (cf_index f);
          f = f\<lparr>cf_index := idx\<rparr>
      in f\<lparr>cf_cachedBytes := indexTotal + live_total f\<rparr>)"

section \<open>Invalidation, flush and close\<close>

definition covers :: "string \<Rightarrow> string \<Rightarrow> bool" where
  "covers name p \<longleftrightarrow> p = name \<or> hasPrefix p (name @ ''/'')"

definition invalidate1 :: "string \<Rightarrow> string \<times> nat \<Rightarrow> cfs \<Rightarrow> cfs" where
  "invalidate1 name e f =
     (case e of (p, a) \<Rightarrow>
        if \<not> covers name p then f
        else let f = doomLocked a (f\<lparr>cf_reg := AList.delete p (cf_reg f)\<rparr>);
                 f = (if it_opens (cf_items f a) = 0 then item_shutdown FlushOK a f else f)
             in removeFiles p f)"

definition invalidate_index1 :: "string \<Rightarrow> string \<times> dEntry \<Rightarrow> cfs \<Rightarrow> cfs" where
  "invalidate_index1 name e f =
     (case e of (p, d) \<Rightarrow>
        if covers name p then removeFiles p (addBytes (- de_bytes d) (f\<lparr>cf_index := AList.delete p (cf_index f)\<rparr>)) else f)"

definition invalidateTree :: "string \<Rightarrow> cfs \<Rightarrow> cfs" where
  "invalidateTree name f =
     (let f = fold (invalidate1 name) (cf_reg f) f
      in fold (invalidate_index1 name) (cf_index f) f)"

definition flushAll :: "(nat \<Rightarrow> flushOutcome) \<Rightarrow> cfs \<Rightarrow> cfs" where
  "flushAll out f = fold (\<lambda>a f. snd (flushMeta (out a) a f)) (map snd (cf_reg f)) f"

definition cfs_close :: "(nat \<Rightarrow> flushOutcome) \<Rightarrow> cfs \<Rightarrow> cfs" where
  "cfs_close out f = fold (\<lambda>a. item_shutdown (out a) a) (map snd (cf_reg f)) (f\<lparr>cf_reg := []\<rparr>)"

end
