(* ===== verification/Cache_Paths.thy ===== *)
theory Cache_Paths
  imports Cache_Item
begin

text \<open>
  Distinct rooted names have distinct data files: what \<^verbatim>\<open>cachePaths\<close> promises to the rest of the cache.
\<close>

lemma split_slash_mid: "split_slash (a @ slash # b) = split_slash a @ split_slash b"
  by (induction a) (auto split: list.splits)

lemma join_slash_Cons: "join_slash ((c # w) # ws) = c # join_slash (w # ws)"
  by (cases ws) simp_all

lemma join_split_slash [simp]: "join_slash (split_slash s) = s"
proof (induction s)
  case (Cons c s)
  then show ?case by (cases "split_slash s") (simp_all add: join_slash_Cons)
qed simp

lemma clean_stack_segments:
  assumes "\<forall>w \<in> set st. slash \<notin> set w" "\<forall>w \<in> set ws. slash \<notin> set w"
  shows "\<forall>w \<in> set (foldl (clean_step r) st ws). slash \<notin> set w"
  using assms
proof (induction ws arbitrary: st)
  case (Cons w ws)
  have "\<forall>v \<in> set (clean_step r st w). slash \<notin> set v"
    using Cons.prems by (auto simp: clean_step_def split: list.splits if_splits)
  with Cons show ?case by simp
qed simp

lemma plain_not_Nil: "\<forall>w \<in> set (split_slash p). plain_seg w \<Longrightarrow> p \<noteq> []"
  by (rule ccontr) (simp add: plain_seg_def)

lemma plain_hd: "\<forall>w \<in> set (split_slash p). plain_seg w \<Longrightarrow> hd p \<noteq> slash"
proof
  assume plain: "\<forall>w \<in> set (split_slash p). plain_seg w" and "hd p = slash"
  then have "split_slash p = [] # split_slash (tl p)" using plain_not_Nil [OF plain] by (metis list.collapse split_slash.simps(2))
  then have "[] \<in> set (split_slash p)" by simp
  with plain have "plain_seg []" by blast
  then show False by (simp add: plain_seg_def)
qed

text \<open>Joining plain segments to a directory appends them to what the directory cleans to.\<close>

definition base_segs :: "string \<Rightarrow> string list" where
  "base_segs d = rev (foldl (clean_step (d \<noteq> [] \<and> hd d = slash)) [] (split_slash d))"

lemma join_plain:
  assumes "d \<noteq> []" "\<forall>w \<in> set (split_slash p). plain_seg w"
  shows "path_Join d p = (if hd d = slash then [slash] else []) @ join_slash (base_segs d @ split_slash p)"
proof -
  have p: "p \<noteq> []" using assms(2) by (rule plain_not_Nil)
  have join: "path_Join d p = path_Clean (d @ slash # p)" using assms(1) p by (simp add: path_Join_def)
  let ?r = "d \<noteq> [] \<and> hd d = slash"
  have r: "(d @ slash # p \<noteq> [] \<and> hd (d @ slash # p) = slash) = ?r" using assms(1) by simp
  have segs: "rev (foldl (clean_step ?r) [] (split_slash (d @ slash # p))) = base_segs d @ split_slash p"
    by (simp only: split_slash_mid foldl_append clean_fold_plain [OF assms(2)] base_segs_def rev_append rev_rev_ident)
  have "split_slash p \<noteq> []" by simp
  then show ?thesis unfolding join path_Clean_def r Let_def segs using assms(1) by simp
qed

lemma join_plain_inj:
  assumes "path_Join d p = path_Join d q"
    and "\<forall>w \<in> set (split_slash p). plain_seg w" "\<forall>w \<in> set (split_slash q). plain_seg w"
  shows "p = q"
proof (cases "d = []")
  case True
  have clean: "path_Clean s = s" if plain: "\<forall>w \<in> set (split_slash s). plain_seg w" for s
  proof -
    have r: "(s \<noteq> [] \<and> hd s = slash) = False" using plain_hd [OF plain] by blast
    have "rev (foldl (clean_step False) [] (split_slash s)) = split_slash s"
      by (simp only: clean_fold_plain [OF plain] rev_append rev_rev_ident) simp
    then show ?thesis unfolding path_Clean_def r Let_def using split_slash_not_Nil [of s] by simp
  qed
  have "path_Join d s = s" if plain: "\<forall>w \<in> set (split_slash s). plain_seg w" for s
    using True plain_not_Nil [OF plain] clean [OF plain] by (simp only: path_Join_def if_True if_False simp_thms)
  then show ?thesis using assms by metis
next
  case False
  have base: "\<forall>w \<in> set (base_segs d). slash \<notin> set w"
    unfolding base_segs_def set_rev by (rule clean_stack_segments) (auto dest: split_slash_segments)
  have segs: "split_slash (join_slash (base_segs d @ split_slash s)) = base_segs d @ split_slash s"
    if "\<forall>w \<in> set (split_slash s). plain_seg w" for s
  proof (rule split_slash_join)
    show "\<forall>w \<in> set (base_segs d @ split_slash s). slash \<notin> set w" using base split_slash_segments by (metis Un_iff set_append)
  qed simp
  have "join_slash (base_segs d @ split_slash p) = join_slash (base_segs d @ split_slash q)"
    using assms(1) unfolding join_plain [OF False assms(2)] join_plain [OF False assms(3)] by (rule same_append_eq [THEN iffD1])
  then have "split_slash p = split_slash q" using segs assms(2,3) by (metis same_append_eq)
  then show ?thesis by (metis join_split_slash)
qed

text \<open>A rooted name: what the servers hand to a file system.\<close>

definition isRooted :: "string \<Rightarrow> bool" where
  "isRooted n \<longleftrightarrow> n \<noteq> [] \<and> hd n = slash"

lemma cachePaths_plain:
  assumes "cachePaths c n = Some (d, m)" "isRooted n"
  shows "d = path_Join (cc_dir c) (''data'' @ n)" "\<forall>w \<in> set (split_slash (''data'' @ n)). plain_seg w"
proof -
  obtain r where n: "n = slash # r" using assms(2) by (cases n) (auto simp: isRooted_def)
  have ok: "r \<noteq> []" "\<not> list_ex (\<lambda>part. part = [] \<or> part = ''.'' \<or> part = ''..'' \<or> CHR 0x5C \<in> set part) (split_slash r)"
    using assms(1) n by (auto simp: cachePaths_def hasPrefix_def Let_def split: if_splits)
  show "d = path_Join (cc_dir c) (''data'' @ n)"
    using assms(1) n ok by (auto simp: cachePaths_def hasPrefix_def Let_def split: if_splits)
  have "split_slash (''data'' @ n) = ''data'' # split_slash r"
    using split_slash_mid [of "''data''" r] n by simp
  moreover have "\<forall>w \<in> set (split_slash r). plain_seg w"
    using ok(2) split_slash_segments by (auto simp: plain_seg_def list_ex_iff)
  ultimately show "\<forall>w \<in> set (split_slash (''data'' @ n)). plain_seg w" by (simp add: plain_seg_def)
qed

lemma cachePaths_inj:
  assumes "cachePaths c n = Some (d, m)" "cachePaths c n' = Some (d, m')" "isRooted n" "isRooted n'"
  shows "n = n'"
proof -
  have "path_Join (cc_dir c) (''data'' @ n) = path_Join (cc_dir c) (''data'' @ n')"
    using cachePaths_plain(1) [OF assms(1,3)] cachePaths_plain(1) [OF assms(2,4)] by (rule subst)
  from join_plain_inj [OF this cachePaths_plain(2) [OF assms(1,3)] cachePaths_plain(2) [OF assms(2,4)]]
  show ?thesis by (rule same_append_eq [THEN iffD1])
qed

end
