(* ===== verification/Cache_Acct.thy ===== *)
theory Cache_Acct
  imports Cache_Janitor Cache_Paths
begin

text \<open>
  The byte accounting of the cache: the counter \<^verbatim>\<open>cachedBytes\<close> is at every moment the sum of what the live items hold
  and what the index of closed items records. \<open>acct\<close> is the invariant, \<open>regs\<close> what the registry guarantees; every
  operation of the item and of the janitor keeps both.
\<close>

section \<open>The invariant\<close>

definition weight :: "item \<Rightarrow> int" where
  "weight x = (if isLive x then rs_size (it_rs x) else 0)"

definition index_bytes :: "cfs \<Rightarrow> int" where
  "index_bytes f = sum_list (map (\<lambda>e. de_bytes (snd e)) (cf_index f))"

definition item_bytes :: "cfs \<Rightarrow> int" where
  "item_bytes f = (\<Sum>a < cf_nextItem f. weight (cf_items f a))"

definition live :: "cfs \<Rightarrow> nat \<Rightarrow> bool" where
  "live f a \<longleftrightarrow> isLive (cf_items f a)"

definition acct :: "cfs \<Rightarrow> bool" where
  "acct f \<longleftrightarrow>
     (\<forall>a. live f a \<longrightarrow> a < cf_nextItem f \<and> cachePaths (cf_conf f) (it_name (cf_items f a)) \<noteq> None
            \<and> map_of (cf_index f) (it_name (cf_items f a)) = None) \<and>
     (\<forall>a b. live f a \<longrightarrow> live f b \<longrightarrow> it_name (cf_items f a) = it_name (cf_items f b) \<longrightarrow> a = b) \<and>
     (\<forall>a. rs_inv (it_rs (cf_items f a))) \<and>
     distinct (map fst (cf_index f)) \<and> (\<forall>n \<in> fst ` set (cf_index f). cachePaths (cf_conf f) n \<noteq> None) \<and>
     cf_cachedBytes f = item_bytes f + index_bytes f"

definition regs :: "cfs \<Rightarrow> bool" where
  "regs f \<longleftrightarrow>
     distinct (map fst (cf_reg f)) \<and>
     (\<forall>(n, a) \<in> set (cf_reg f). a < cf_nextItem f \<and> it_name (cf_items f a) = n) \<and>
     (\<forall>a < cf_nextItem f. \<not> it_doomed (cf_items f a) \<longrightarrow> map_of (cf_reg f) (it_name (cf_items f a)) = Some a)"

lemma acct_live:
  assumes "acct f" "live f a"
  shows "a < cf_nextItem f" "cachePaths (cf_conf f) (it_name (cf_items f a)) \<noteq> None"
    "map_of (cf_index f) (it_name (cf_items f a)) = None"
  using assms unfolding acct_def by blast+

lemma acct_unique:
  "acct f \<Longrightarrow> live f a \<Longrightarrow> live f b \<Longrightarrow> it_name (cf_items f a) = it_name (cf_items f b) \<Longrightarrow> a = b"
  unfolding acct_def by blast

lemma acct_rs [simp]: "acct f \<Longrightarrow> rs_inv (it_rs (cf_items f a))"
  unfolding acct_def by blast

lemma acct_index:
  assumes "acct f"
  shows "distinct (map fst (cf_index f))" "n \<in> fst ` set (cf_index f) \<Longrightarrow> cachePaths (cf_conf f) n \<noteq> None"
  using assms unfolding acct_def by blast+

lemma acct_bytes: "acct f \<Longrightarrow> cf_cachedBytes f = item_bytes f + index_bytes f"
  unfolding acct_def by blast

section \<open>Updates the invariant does not see\<close>

lemma upd_item_sel [simp]:
  "cf_items (upd_item a g f) = (cf_items f)(a := g (cf_items f a))" "cf_conf (upd_item a g f) = cf_conf f"
  "cf_reg (upd_item a g f) = cf_reg f" "cf_nextItem (upd_item a g f) = cf_nextItem f" "cf_index (upd_item a g f) = cf_index f"
  "cf_dataTree (upd_item a g f) = cf_dataTree f" "cf_metaTree (upd_item a g f) = cf_metaTree f" "cf_files (upd_item a g f) = cf_files f"
  "cf_nextFile (upd_item a g f) = cf_nextFile f" "cf_cachedBytes (upd_item a g f) = cf_cachedBytes f"
  by (simp_all add: upd_item_def)

lemma upd_file_sel [simp]:
  "cf_items (upd_file i g f) = cf_items f" "cf_conf (upd_file i g f) = cf_conf f"
  "cf_reg (upd_file i g f) = cf_reg f" "cf_nextItem (upd_file i g f) = cf_nextItem f" "cf_index (upd_file i g f) = cf_index f"
  "cf_dataTree (upd_file i g f) = cf_dataTree f" "cf_metaTree (upd_file i g f) = cf_metaTree f"
  "cf_files (upd_file i g f) = (cf_files f)(i := g (cf_files f i))"
  "cf_nextFile (upd_file i g f) = cf_nextFile f" "cf_cachedBytes (upd_file i g f) = cf_cachedBytes f"
  by (simp_all add: upd_file_def)

lemma addBytes_sel [simp]:
  "cf_items (addBytes n f) = cf_items f" "cf_conf (addBytes n f) = cf_conf f"
  "cf_reg (addBytes n f) = cf_reg f" "cf_nextItem (addBytes n f) = cf_nextItem f" "cf_index (addBytes n f) = cf_index f"
  "cf_dataTree (addBytes n f) = cf_dataTree f" "cf_metaTree (addBytes n f) = cf_metaTree f" "cf_files (addBytes n f) = cf_files f"
  "cf_nextFile (addBytes n f) = cf_nextFile f" "cf_cachedBytes (addBytes n f) = cf_cachedBytes f + n"
  by (simp_all add: addBytes_def)

lemma upd_item_file_sel [simp]:
  "cf_items (upd_item_file a g f) = cf_items f" "cf_conf (upd_item_file a g f) = cf_conf f"
  "cf_reg (upd_item_file a g f) = cf_reg f" "cf_nextItem (upd_item_file a g f) = cf_nextItem f" "cf_index (upd_item_file a g f) = cf_index f"
  "cf_dataTree (upd_item_file a g f) = cf_dataTree f" "cf_metaTree (upd_item_file a g f) = cf_metaTree f"
  "cf_nextFile (upd_item_file a g f) = cf_nextFile f" "cf_cachedBytes (upd_item_file a g f) = cf_cachedBytes f"
  by (simp_all add: upd_item_file_def split: option.splits)

text \<open>Two states that agree on what the accounting is about.\<close>

definition same_books :: "cfs \<Rightarrow> cfs \<Rightarrow> bool" where
  "same_books f g \<longleftrightarrow> cf_conf g = cf_conf f \<and> cf_reg g = cf_reg f \<and> cf_items g = cf_items f \<and> cf_nextItem g = cf_nextItem f
     \<and> cf_index g = cf_index f \<and> cf_cachedBytes g = cf_cachedBytes f"

lemma same_books_inv: "same_books f g \<Longrightarrow> acct g = acct f \<and> regs g = regs f"
  by (simp add: same_books_def acct_def regs_def live_def item_bytes_def index_bytes_def)

lemma same_books_trans: "same_books f g \<Longrightarrow> same_books g h \<Longrightarrow> same_books f h"
  by (simp add: same_books_def)

lemma same_books_refl [simp]: "same_books f f"
  by (simp add: same_books_def)

section \<open>Changing one item\<close>

lemma item_bytes_upd:
  assumes "a < cf_nextItem f"
  shows "item_bytes (upd_item a g f) = item_bytes f + (weight (g (cf_items f a)) - weight (cf_items f a))"
proof -
  have "(\<Sum>b < cf_nextItem f. weight (((cf_items f)(a := g (cf_items f a))) b))
      = (\<Sum>b \<in> {..<cf_nextItem f} - {a}. weight (cf_items f b)) + weight (g (cf_items f a))"
    using assms by (subst sum.remove [of _ a]) (auto intro!: sum.cong)
  moreover have "(\<Sum>b < cf_nextItem f. weight (cf_items f b)) = (\<Sum>b \<in> {..<cf_nextItem f} - {a}. weight (cf_items f b)) + weight (cf_items f a)"
    using assms by (subst sum.remove [of _ a]) auto
  ultimately show ?thesis by (simp add: item_bytes_def)
qed

lemma weight_dead: "acct f \<Longrightarrow> \<not> a < cf_nextItem f \<Longrightarrow> \<not> live f a"
  using acct_live(1) by blast

text \<open>An item may change its ranges when the counter follows, and lose its life; it may not gain it.\<close>

lemma acct_upd:
  assumes "acct f" and "it_name (g (cf_items f a)) = it_name (cf_items f a)" "rs_inv (it_rs (g (cf_items f a)))"
    and "isLive (g (cf_items f a)) \<Longrightarrow> isLive (cf_items f a)"
    and "d = weight (g (cf_items f a)) - weight (cf_items f a)"
  shows "acct (addBytes d (upd_item a g f))"
proof -
  let ?h = "addBytes d (upd_item a g f)"
  have liv: "live ?h b \<Longrightarrow> live f b" for b using assms(4) by (auto simp: live_def split: if_splits)
  have nm: "it_name (cf_items ?h b) = it_name (cf_items f b)" for b using assms(2) by simp
  have bytes: "item_bytes ?h = item_bytes f + d"
  proof (cases "a < cf_nextItem f")
    case True
    have "item_bytes ?h = item_bytes (upd_item a g f)" by (simp add: item_bytes_def)
    then show ?thesis using item_bytes_upd [OF True, of g] assms(5) by simp
  next
    case False
    then have "d = 0" using assms weight_dead [OF assms(1) False] by (auto simp: weight_def live_def)
    then show ?thesis using False by (simp add: item_bytes_def)
  qed
  show ?thesis unfolding acct_def
  proof (intro conjI allI impI)
    fix b assume b: "live ?h b"
    show "b < cf_nextItem ?h" "cachePaths (cf_conf ?h) (it_name (cf_items ?h b)) \<noteq> None"
      "map_of (cf_index ?h) (it_name (cf_items ?h b)) = None"
      using acct_live [OF assms(1) liv [OF b]] unfolding nm by simp_all
  next
    fix b c assume "live ?h b" "live ?h c" "it_name (cf_items ?h b) = it_name (cf_items ?h c)"
    then show "b = c" using liv acct_unique [OF assms(1)] unfolding nm by blast
  qed (use assms acct_index [OF assms(1)] acct_bytes [OF assms(1)] bytes in \<open>simp_all add: index_bytes_def\<close>)
qed

lemma addBytes_0 [simp]: "addBytes 0 f = f"
  by (simp add: addBytes_def)

lemma acct_upd0:
  assumes "acct f" "it_name (g (cf_items f a)) = it_name (cf_items f a)" "it_rs (g (cf_items f a)) = it_rs (cf_items f a)"
    and "isLive (g (cf_items f a)) = isLive (cf_items f a)"
  shows "acct (upd_item a g f)"
  using acct_upd [of f g a 0] assms by (simp add: weight_def)

lemma regs_upd:
  assumes "regs f" "it_name (g (cf_items f a)) = it_name (cf_items f a)" "it_doomed (cf_items f a) \<Longrightarrow> it_doomed (g (cf_items f a))"
  shows "regs (upd_item a g f)"
  using assms unfolding regs_def by auto

lemma regs_addBytes [simp]: "regs (addBytes d f) = regs f"
  by (simp add: regs_def)

lemma same_books_file [simp]: "same_books f (upd_item_file a g f)" "same_books f (upd_file i g f)"
  by (simp_all add: same_books_def)

text \<open>The two invariants together.\<close>

definition books :: "cfs \<Rightarrow> bool" where
  "books f \<longleftrightarrow> acct f \<and> regs f"

lemma books_same: "same_books f g \<Longrightarrow> books f \<Longrightarrow> books g"
  using same_books_inv by (auto simp: books_def)

lemma books_upd:
  assumes "books f" "it_name (g (cf_items f a)) = it_name (cf_items f a)" "rs_inv (it_rs (g (cf_items f a)))"
    and "it_doomed (cf_items f a) \<Longrightarrow> it_doomed (g (cf_items f a))" "it_loaded (g (cf_items f a)) \<Longrightarrow> it_loaded (cf_items f a)"
    and "d = weight (g (cf_items f a)) - weight (cf_items f a)"
  shows "books (addBytes d (upd_item a g f))"
  using assms acct_upd [of f g a d] regs_upd [of f g a] by (auto simp: books_def isLive_def)

lemma books_upd0:
  assumes "books f" "it_name (g (cf_items f a)) = it_name (cf_items f a)" "it_rs (g (cf_items f a)) = it_rs (cf_items f a)"
    and "it_doomed (g (cf_items f a)) = it_doomed (cf_items f a)" "it_loaded (g (cf_items f a)) = it_loaded (cf_items f a)"
  shows "books (upd_item a g f)"
  using assms acct_upd0 [of f g a] regs_upd [of f g a] by (auto simp: books_def isLive_def)

lemma books_rs [simp]: "books f \<Longrightarrow> rs_inv (it_rs (cf_items f a))"
  by (simp add: books_def)

section \<open>Operations of an item\<close>

lemma books_touch: "books f \<Longrightarrow> books (item_touch now head a f)"
  unfolding item_touch_def by (rule books_upd0) simp_all

lemma books_doom: "books f \<Longrightarrow> books (doomLocked a f)"
proof -
  assume f: "books f"
  let ?g = "\<lambda>x. x\<lparr>it_doomed := True\<rparr>"
  have "books (addBytes (weight (?g (cf_items f a)) - weight (cf_items f a)) (upd_item a ?g f))"
    by (rule books_upd [OF f]) (simp_all add: f)
  then show ?thesis using f by (simp add: doomLocked_def Let_def weight_def isLive_def split: if_splits)
qed

lemma same_books_metaTree [simp]: "same_books f (f\<lparr>cf_metaTree := t\<rparr>)" "same_books f (f\<lparr>cf_dataTree := u\<rparr>)"
  "same_books f (f\<lparr>cf_dataTree := u, cf_metaTree := t\<rparr>)" "same_books f (f\<lparr>cf_metaTree := t, cf_dataTree := u\<rparr>)"
  "same_books f (f\<lparr>cf_kick := k\<rparr>)" "same_books f (f\<lparr>cf_bytesFromCache := n\<rparr>)" "same_books f (f\<lparr>cf_bytesFilled := n\<rparr>)"
  "same_books f (f\<lparr>cf_punchedBytes := n\<rparr>)" "same_books f (f\<lparr>cf_evictedBytes := n\<rparr>)"
  by (simp_all add: same_books_def)

lemma books_flush_snapshot: "books f \<Longrightarrow> books (snd (flush_snapshot a f))"
  by (auto simp: flush_snapshot_def Let_def intro!: books_upd0)

lemma books_flush_fail: "books f \<Longrightarrow> books (snd (flush_fail b a f))"
  by (auto simp: flush_fail_def intro!: books_upd0)

lemma books_flush_write: "books f \<Longrightarrow> books (snd (flush_write out a snap f))"
  by (auto simp: flush_write_def Let_def intro!: books_flush_fail split: option.split intro: books_same [rotated])

lemma books_flush: "books f \<Longrightarrow> books (snd (flushMeta out a f))"
  using books_flush_snapshot [of f a] by (auto simp: flushMeta_def intro: books_flush_write split: prod.splits option.splits)

lemma write_missing_same: "same_books f (snd (write_missing wr a p off ms f))"
proof (induction ms arbitrary: f)
  case (Cons m ms)
  then show ?case
    by (auto simp: Let_def kickNow_def split: option.split intro: same_books_trans [rotated] simp: same_books_def)
qed simp

lemma books_new_rs:
  assumes "books f" "isLive (cf_items f a)" "rs_inv rs" "it_rs (g (cf_items f a)) = rs" "it_name (g (cf_items f a)) = it_name (cf_items f a)"
    "it_doomed (g (cf_items f a)) = it_doomed (cf_items f a)" "it_loaded (g (cf_items f a)) = it_loaded (cf_items f a)"
  shows "books (addBytes (rs_size rs - rs_size (it_rs (cf_items f a))) (upd_item a g f))"
  by (rule books_upd) (use assms in \<open>simp_all add: weight_def isLive_def\<close>)

lemma books_fill_range:
  assumes f: "books f" and lv: "isLive (cf_items f a)"
  shows "books (snd (fill_range wr a p off r f))"
proof -
  define s where "s = it_rs (cf_items f a)"
  define ms where "ms = (case missingWithin s r [] of None \<Rightarrow> [] | Some ms \<Rightarrow> ms)"
  obtain ok h where h: "write_missing wr a p off ms f = (ok, h)" by (cases "write_missing wr a p off ms f")
  then have same: "same_books f h" using write_missing_same by (metis snd_conv)
  then have items: "cf_items h = cf_items f" by (simp add: same_books_def)
  let ?g = "addBytes (rs_size (rs_insert s r) - rs_size s) (upd_item a (\<lambda>x. x\<lparr>it_rs := rs_insert s r\<rparr>) h)"
  have g: "books ?g"
    using books_new_rs [of h a "rs_insert s r" "\<lambda>x. x\<lparr>it_rs := rs_insert s r\<rparr>"] books_same [OF same f] lv f items
    by (simp add: rs_inv_insert s_def)
  then have "books (upd_item a (\<lambda>x. x\<lparr>it_dirty := True, it_needSync := True\<rparr>) ?g)" by (rule books_upd0) simp_all
  with g show ?thesis
    using books_same [OF same f] by (simp add: fill_range_def Let_def s_def [symmetric] ms_def [symmetric] h)
qed

lemma books_writeNoOverwrite: "books f \<Longrightarrow> books (snd (writeNoOverwrite wr a p off f))"
  by (auto simp: writeNoOverwrite_def Let_def isLive_def intro!: books_fill_range)

lemma books_mirrorWrite: "books f \<Longrightarrow> books (mirrorWrite wr a p off f)"
proof -
  assume f: "books f"
  let ?x = "cf_items f a"
  have step: "books (addBytes (rs_size rs - rs_size (it_rs ?x)) (upd_item a g (upd_item_file a k f)))"
    if "isLive ?x" "rs_inv rs" "it_rs (g ?x) = rs" "it_name (g ?x) = it_name ?x" "it_doomed (g ?x) = it_doomed ?x" "it_loaded (g ?x) = it_loaded ?x" for rs g k
    using books_new_rs [of "upd_item_file a k f" a rs g] books_same [of f "upd_item_file a k f"] f that by simp
  show ?thesis using f
    by (auto simp: mirrorWrite_def Let_def isLive_def rs_inv_insert rs_inv_remove split: option.split intro!: step)
qed

lemma books_truncate: "books f \<Longrightarrow> books (item_truncate ok a n f)"
proof -
  assume f: "books f"
  let ?x = "cf_items f a"
  have step: "books (addBytes (rs_size rs - rs_size (it_rs ?x)) (upd_item a g (upd_item_file a k f)))"
    if "isLive ?x" "rs_inv rs" "it_rs (g ?x) = rs" "it_name (g ?x) = it_name ?x" "it_doomed (g ?x) = it_doomed ?x" "it_loaded (g ?x) = it_loaded ?x" for rs g k
    using books_new_rs [of "upd_item_file a k f" a rs g] books_same [of f "upd_item_file a k f"] f that by simp
  show ?thesis using f
    by (auto simp: item_truncate_def Let_def isLive_def rs_inv_insert rs_inv_remove intro!: step books_doom)
qed

section \<open>Opening and closing\<close>

lemma index_bytes_delete:
  assumes "distinct (map fst xs)" "map_of xs n = Some e"
  shows "sum_list (map (\<lambda>e. de_bytes (snd e)) (AList.delete n xs)) = sum_list (map (\<lambda>e. de_bytes (snd e)) xs) - de_bytes e"
  using assms
proof (induction xs)
  case (Cons y xs)
  obtain k v where [simp]: "y = (k, v)" by (cases y)
  show ?case
  proof (cases "k = n")
    case True
    then have "AList.delete n xs = xs" using Cons.prems(1) by (force simp: AList.delete_eq intro!: filter_True)
    then show ?thesis using True Cons.prems by simp
  next
    case False
    then show ?thesis using Cons by simp
  qed
qed simp

lemma acct_forget:
  assumes "acct f"
  shows "acct (addBytes (- fst (jan_forget n f)) (snd (jan_forget n f)))"
proof (cases "map_of (cf_index f) n")
  case None
  then show ?thesis using assms by (simp add: jan_forget_def)
next
  case (Some e)
  let ?h = "addBytes (- de_bytes e) (f\<lparr>cf_index := AList.delete n (cf_index f)\<rparr>)"
  have liv: "live ?h b = live f b" for b by (simp add: live_def)
  have "acct ?h" unfolding acct_def liv
  proof (intro conjI allI impI)
    fix b assume "live f b"
    from acct_live [OF assms this]
    show "b < cf_nextItem ?h" "cachePaths (cf_conf ?h) (it_name (cf_items ?h b)) \<noteq> None"
      "map_of (cf_index ?h) (it_name (cf_items ?h b)) = None"
      by (simp_all add: delete_conv' map_of_eq_None_iff)
  next
    show "cf_cachedBytes ?h = item_bytes ?h + index_bytes ?h"
      using acct_bytes [OF assms] index_bytes_delete [OF acct_index(1) [OF assms] Some] by (simp add: item_bytes_def index_bytes_def)
    show "\<forall>k \<in> fst ` set (cf_index ?h). cachePaths (cf_conf ?h) k \<noteq> None"
      using acct_index(2) [OF assms] by (auto simp: AList.delete_eq)
  qed (use assms acct_unique [OF assms] acct_index [OF assms] in \<open>auto intro: distinct_delete\<close>)
  then show ?thesis using Some by (simp add: jan_forget_def)
qed

lemma forget_sel [simp]:
  "cf_items (snd (jan_forget n f)) = cf_items f" "cf_reg (snd (jan_forget n f)) = cf_reg f" "cf_conf (snd (jan_forget n f)) = cf_conf f"
  "cf_nextItem (snd (jan_forget n f)) = cf_nextItem f" "cf_dataTree (snd (jan_forget n f)) = cf_dataTree f"
  "cf_files (snd (jan_forget n f)) = cf_files f" "cf_nextFile (snd (jan_forget n f)) = cf_nextFile f"
  "cf_metaTree (snd (jan_forget n f)) = cf_metaTree f"
  by (simp_all add: jan_forget_def split: option.split)

lemma forget_gone: "map_of (cf_index (snd (jan_forget n f))) n = None"
  by (auto simp: jan_forget_def delete_conv' split: option.split)

text \<open>A loaded item comes to life: nothing else is live under its name, and the index no longer knows the name.\<close>

lemma acct_birth:
  assumes "acct f" "regs f" "a < cf_nextItem f" "\<not> it_doomed (cf_items f a)" "\<not> it_loaded (cf_items f a)"
    and "map_of (cf_index f) (it_name (cf_items f a)) = None" "cachePaths (cf_conf f) (it_name (cf_items f a)) \<noteq> None"
  shows "books (addBytes (rs_size (it_rs (cf_items f a))) (upd_item a (\<lambda>x. x\<lparr>it_loaded := True\<rparr>) f))"
proof -
  let ?g = "\<lambda>x. x\<lparr>it_loaded := True\<rparr>"
  let ?h = "addBytes (rs_size (it_rs (cf_items f a))) (upd_item a ?g f)"
  have nm: "it_name (cf_items ?h b) = it_name (cf_items f b)" for b by simp
  have liv: "live ?h b \<longleftrightarrow> live f b \<or> b = a" for b using assms(4) by (auto simp: live_def isLive_def)
  have reg: "map_of (cf_reg f) (it_name (cf_items f b)) = Some b" if "live f b \<or> b = a" for b
    using that assms acct_live(1) [OF assms(1)] unfolding regs_def live_def isLive_def by auto
  have "acct ?h" unfolding acct_def liv
  proof (intro conjI allI impI)
    fix b assume "live f b \<or> b = a"
    then show "b < cf_nextItem ?h" "cachePaths (cf_conf ?h) (it_name (cf_items ?h b)) \<noteq> None"
      "map_of (cf_index ?h) (it_name (cf_items ?h b)) = None"
      unfolding nm using acct_live [OF assms(1)] assms by auto
  next
    fix b c assume "live f b \<or> b = a" "live f c \<or> c = a" "it_name (cf_items ?h b) = it_name (cf_items ?h c)"
    then show "b = c" unfolding nm using reg by (metis option.inject)
  next
    have "weight (cf_items f a) = 0" "weight (?g (cf_items f a)) = rs_size (it_rs (cf_items f a))"
      using assms(4,5) by (simp_all add: weight_def isLive_def)
    then show "cf_cachedBytes ?h = item_bytes ?h + index_bytes ?h"
      using acct_bytes [OF assms(1)] item_bytes_upd [OF assms(3), of ?g] by (simp add: item_bytes_def index_bytes_def)
  qed (use assms(1) acct_index [OF assms(1)] in \<open>auto\<close>)
  moreover have "regs ?h" using regs_upd [OF assms(2), of ?g a] by simp
  ultimately show ?thesis by (simp add: books_def)
qed

lemma rs_inv_load: "rs_inv s \<Longrightarrow> rs_inv (load_ranges m n s)"
proof -
  assume s: "rs_inv s"
  have "rs_inv (foldl (\<lambda>s (p, n). rs_insert s \<lparr>pos = p, rsize = n\<rparr>) s xs)" for xs
    using s by (induction xs arbitrary: s) (auto intro: rs_inv_insert)
  then show ?thesis by (simp add: load_ranges_def rs_inv_remove)
qed

lemma open_data_same: "same_books f (snd (open_data d f))"
  by (auto simp: open_data_def same_books_def split: option.split)

text \<open>An item that is not loaded may change freely.\<close>

lemma books_unloaded:
  assumes "books f" "\<not> it_loaded (cf_items f a)" "\<not> it_loaded (g (cf_items f a))" "rs_inv (it_rs (g (cf_items f a)))"
    "it_name (g (cf_items f a)) = it_name (cf_items f a)" "it_doomed (cf_items f a) \<Longrightarrow> it_doomed (g (cf_items f a))"
  shows "books (upd_item a g f)"
  using books_upd [of f g a 0] assms by (simp add: weight_def isLive_def)

lemma load_meta_keeps:
  assumes "books f" "\<not> it_loaded (cf_items f a)"
  shows "books (load_meta a mp f)" "\<not> it_loaded (cf_items (load_meta a mp f) a)"
    "it_name (cf_items (load_meta a mp f) a) = it_name (cf_items f a)" "it_doomed (cf_items (load_meta a mp f) a) = it_doomed (cf_items f a)"
    "cf_conf (load_meta a mp f) = cf_conf f" "cf_nextItem (load_meta a mp f) = cf_nextItem f"
  using assms
  by (auto simp: load_meta_def rs_inv_load split: sum.split intro!: books_unloaded intro: books_same [rotated])

lemma books_ensureLoaded:
  assumes f: "books f" and "a < cf_nextItem f"
  shows "books (snd (ensureLoaded env now a st f))"
proof (cases "it_doomed (cf_items f a) \<or> it_loaded (cf_items f a) \<or> cachePaths (cf_conf f) (it_name (cf_items f a)) = None
    \<or> \<not> mkdirOK env \<or> \<not> openOK env")
  case True
  then show ?thesis using f by (auto simp: ensureLoaded_def Let_def split: option.split)
next
  case False
  then obtain d mp where p: "cachePaths (cf_conf f) (it_name (cf_items f a)) = Some (d, mp)" by auto
  obtain fd f1 where f1: "open_data d f = (fd, f1)" by (cases "open_data d f")
  then have same: "same_books f f1" using open_data_same by (metis snd_conv)
  then have eqs: "cf_items f1 = cf_items f" "cf_conf f1 = cf_conf f" "cf_nextItem f1 = cf_nextItem f" by (simp_all add: same_books_def)
  define f2 where "f2 = upd_item a (\<lambda>x. x\<lparr>it_fd := Some fd, it_size := fi_size st, it_fpr := fingerprint st, it_atime := now\<rparr>) f1"
  have f2: "books f2" unfolding f2_def by (rule books_upd0) (simp_all add: books_same [OF same f])
  define f3 where "f3 = load_meta a mp f2"
  have unl: "\<not> it_loaded (cf_items f2 a)" "\<not> it_doomed (cf_items f2 a)" using False by (simp_all add: f2_def eqs)
  note k = load_meta_keeps [OF f2 unl(1), of mp, folded f3_def]
  have f3: "books f3" "\<not> it_loaded (cf_items f3 a)" "\<not> it_doomed (cf_items f3 a)" "it_name (cf_items f3 a) = it_name (cf_items f a)"
    "cf_conf f3 = cf_conf f" "cf_nextItem f3 = cf_nextItem f"
    using k unl by (simp_all add: f2_def eqs)
  define n where "n = it_name (cf_items f a)"
  define f4 where "f4 = upd_file fd (f_truncate (fi_size st)) f3"
  have f4: "books f4" using books_same [of f3 f4] f3(1) by (simp add: f4_def)
  define f5 where "f5 = addBytes (- fst (jan_forget n f4)) (snd (jan_forget n f4))"
  have "acct f5" using acct_forget f4 by (simp add: f5_def books_def)
  moreover have "regs f5" using f4 by (simp add: f5_def books_def regs_def)
  ultimately have fin: "books (addBytes (rs_size (it_rs (cf_items f5 a))) (upd_item a (\<lambda>x. x\<lparr>it_loaded := True\<rparr>) f5))"
    by (rule acct_birth) (use f3 p assms(2) forget_gone in \<open>simp_all add: f5_def f4_def n_def\<close>)
  have comm: "upd_item a (\<lambda>x. x\<lparr>it_loaded := True\<rparr>) (addBytes (i - j) h) =
      addBytes i (upd_item a (\<lambda>x. x\<lparr>it_loaded := True\<rparr>) (addBytes (- j) h))" for i j h
    by (simp add: upd_item_def addBytes_def)
  have bad: "books (upd_item a (\<lambda>x. x\<lparr>it_fd := None\<rparr>) f3)" by (rule books_upd0) (simp_all add: f3)
  have "snd (ensureLoaded env now a st f) =
      (if \<not> truncOK env then upd_item a (\<lambda>x. x\<lparr>it_fd := None\<rparr>) f3
       else addBytes (rs_size (it_rs (cf_items f5 a))) (upd_item a (\<lambda>x. x\<lparr>it_loaded := True\<rparr>) f5))"
    using False p by (simp add: ensureLoaded_def Let_def f1 f2_def [symmetric] f3_def [symmetric] f4_def [symmetric] n_def [symmetric]
        split_beta comm f5_def)
  then show ?thesis using fin bad by simp
qed

text \<open>A flush touches two flags of the item and the metadata tree.\<close>

definition alike :: "cfs \<Rightarrow> cfs \<Rightarrow> bool" where
  "alike f g \<longleftrightarrow> cf_conf g = cf_conf f \<and> cf_reg g = cf_reg f \<and> cf_nextItem g = cf_nextItem f \<and> cf_index g = cf_index f
     \<and> cf_cachedBytes g = cf_cachedBytes f \<and> cf_dataTree g = cf_dataTree f \<and> cf_files g = cf_files f \<and> cf_nextFile g = cf_nextFile f
     \<and> (\<forall>b. \<exists>d s. cf_items g b = (cf_items f b)\<lparr>it_dirty := d, it_needSync := s\<rparr>)"

lemma alike_item:
  assumes "alike f g"
  shows "it_name (cf_items g b) = it_name (cf_items f b)" "it_rs (cf_items g b) = it_rs (cf_items f b)"
    "it_loaded (cf_items g b) = it_loaded (cf_items f b)" "it_doomed (cf_items g b) = it_doomed (cf_items f b)"
    "it_opens (cf_items g b) = it_opens (cf_items f b)" "it_fd (cf_items g b) = it_fd (cf_items f b)" "it_size (cf_items g b) = it_size (cf_items f b)"
    "it_atime (cf_items g b) = it_atime (cf_items f b)"
proof -
  obtain d s where "cf_items g b = (cf_items f b)\<lparr>it_dirty := d, it_needSync := s\<rparr>" using assms unfolding alike_def by blast
  then show "it_name (cf_items g b) = it_name (cf_items f b)" "it_rs (cf_items g b) = it_rs (cf_items f b)"
    "it_loaded (cf_items g b) = it_loaded (cf_items f b)" "it_doomed (cf_items g b) = it_doomed (cf_items f b)"
    "it_opens (cf_items g b) = it_opens (cf_items f b)" "it_fd (cf_items g b) = it_fd (cf_items f b)" "it_size (cf_items g b) = it_size (cf_items f b)"
    "it_atime (cf_items g b) = it_atime (cf_items f b)"
    by simp_all
qed

lemma alike_sel:
  assumes "alike f g"
  shows "cf_conf g = cf_conf f" "cf_reg g = cf_reg f" "cf_nextItem g = cf_nextItem f" "cf_index g = cf_index f"
    "cf_cachedBytes g = cf_cachedBytes f" "cf_dataTree g = cf_dataTree f" "cf_files g = cf_files f" "cf_nextFile g = cf_nextFile f"
  using assms unfolding alike_def by blast+

lemma alike_acct:
  assumes "alike f g"
  shows "acct g = acct f"
proof -
  have "weight (cf_items g b) = weight (cf_items f b)" "live g b = live f b" for b
    using alike_item [OF assms, of b] by (simp_all add: weight_def isLive_def live_def cong: if_cong)
  then show ?thesis by (simp add: acct_def item_bytes_def index_bytes_def alike_item [OF assms] alike_sel [OF assms])
qed

lemma alike_trans:
  assumes "alike f g" "alike g h"
  shows "alike f h"
proof -
  have "\<exists>d s. cf_items h b = (cf_items f b)\<lparr>it_dirty := d, it_needSync := s\<rparr>" for b
  proof -
    obtain d s d' s' where "cf_items g b = (cf_items f b)\<lparr>it_dirty := d, it_needSync := s\<rparr>"
      "cf_items h b = (cf_items g b)\<lparr>it_dirty := d', it_needSync := s'\<rparr>"
      using assms unfolding alike_def by blast
    then have "cf_items h b = (cf_items f b)\<lparr>it_dirty := d', it_needSync := s'\<rparr>" by simp
    then show ?thesis by blast
  qed
  then show ?thesis using assms unfolding alike_def by auto
qed

lemma flags_refl: "\<exists>d s. x = x\<lparr>it_dirty := d, it_needSync := s\<rparr>" for x :: item
  by (rule exI [of _ "it_dirty x"], rule exI [of _ "it_needSync x"]) simp

lemma alike_flags: "alike f (upd_item a (\<lambda>x. x\<lparr>it_dirty := d x, it_needSync := s x\<rparr>) f)"
  using flags_refl by (auto simp: alike_def)

lemma alike_metaTree: "alike f (f\<lparr>cf_metaTree := t\<rparr>)"
  using flags_refl by (simp add: alike_def)

lemma alike_refl [simp]: "alike f f"
  using flags_refl by (simp add: alike_def)

lemma alike_snapshot: "alike f (snd (flush_snapshot a f))"
  using alike_flags [where f = f and a = a and d = "\<lambda>_. False" and s = "\<lambda>_. False"] by (simp add: flush_snapshot_def Let_def)

lemma alike_fail: "alike f g \<Longrightarrow> alike f (snd (flush_fail b a g))"
  using alike_trans [OF _ alike_flags [where f = g and a = a and d = "\<lambda>_. True" and s = "\<lambda>x. it_needSync x \<or> b"]] by (simp add: flush_fail_def)

lemma alike_flush_write: "alike f (snd (flush_write out a snap f))"
  by (auto simp: flush_write_def Let_def intro!: alike_fail alike_metaTree split: option.split)

lemma alike_flush: "alike f (snd (flushMeta out a f))"
  using alike_snapshot [of f a] alike_flush_write
  by (auto simp: flushMeta_def intro: alike_trans split: prod.splits option.splits) 

lemma alist_update_new: "n \<notin> fst ` set xs \<Longrightarrow> AList.update n v xs = xs @ [(n, v)]"
  by (induction xs) auto

lemma acct_shutdown:
  assumes "acct f"
  shows "acct (item_shutdown out a f)"
proof -
  define g where "g = snd (flushMeta out a f)"
  have g: "acct g" using alike_acct [OF alike_flush [where f = f and out = out and a = a]] assms by (simp add: g_def)
  let ?off = "\<lambda>x. x\<lparr>it_fd := None, it_loaded := False, it_doomed := True\<rparr>"
  let ?x = "cf_items g a"
  show ?thesis
  proof (cases "isLive ?x")
    case False
    have "acct (addBytes 0 (upd_item a ?off g))"
      by (rule acct_upd) (use g False in \<open>auto simp: weight_def isLive_def\<close>)
    then show ?thesis using False by (auto simp: item_shutdown_def Let_def g_def [symmetric] isLive_def)
  next
    case True
    let ?h = "upd_item a ?off (jan_remember (it_name ?x) (it_atime ?x) (rs_size (it_rs ?x)) g)"
    have la: "live g a" using True by (simp add: live_def)
    note lv = acct_live [OF g la]
    have liv: "live ?h b \<longleftrightarrow> live g b \<and> b \<noteq> a" for b by (auto simp: live_def isLive_def jan_remember_def)
    have nm: "it_name (cf_items ?h b) = it_name (cf_items g b)" for b by (simp add: jan_remember_def)
    have idx: "cf_index ?h = (cf_index g) @ [(it_name ?x, \<lparr>de_atime = it_atime ?x, de_bytes = rs_size (it_rs ?x)\<rparr>)]"
      using lv(3) by (simp add: jan_remember_def map_of_eq_None_iff alist_update_new)
    have "acct ?h" unfolding acct_def liv nm
    proof (intro conjI allI impI)
      fix b assume b: "live g b \<and> b \<noteq> a"
      then show "b < cf_nextItem ?h" "cachePaths (cf_conf ?h) (it_name (cf_items g b)) \<noteq> None"
        using acct_live [OF g] by (simp_all add: jan_remember_def)
      have "it_name (cf_items g b) \<noteq> it_name ?x" using acct_unique [OF g _ la] b by blast
      then show "map_of (cf_index ?h) (it_name (cf_items g b)) = None"
        unfolding idx using acct_live(3) [OF g] b by (simp add: map_add_def)
    next
      have "weight (cf_items g a) = rs_size (it_rs ?x)" using True by (simp add: weight_def)
      moreover have "item_bytes ?h = item_bytes (upd_item a ?off g)" by (simp add: item_bytes_def jan_remember_def)
      ultimately have "item_bytes ?h = item_bytes g - rs_size (it_rs ?x)"
        using item_bytes_upd [OF lv(1), of ?off] by (simp add: weight_def isLive_def)
      then show "cf_cachedBytes ?h = item_bytes ?h + index_bytes ?h"
        using acct_bytes [OF g] unfolding index_bytes_def idx by (simp add: jan_remember_def)
    next
      fix b c assume "live g b \<and> b \<noteq> a" "live g c \<and> c \<noteq> a" "it_name (cf_items g b) = it_name (cf_items g c)"
      then show "b = c" using acct_unique [OF g] by blast
    next
      fix b show "rs_inv (it_rs (cf_items ?h b))" using g by (simp add: jan_remember_def)
    next
      show "distinct (map fst (cf_index ?h))" unfolding idx using acct_index(1) [OF g] lv(3) by (simp add: map_of_eq_None_iff)
      show "\<forall>n \<in> fst ` set (cf_index ?h). cachePaths (cf_conf ?h) n \<noteq> None"
        unfolding idx using acct_index(2) [OF g] lv(2) by (auto simp: jan_remember_def simp del: not_None_eq)
    qed
    then show ?thesis using True by (simp add: item_shutdown_def Let_def g_def [symmetric] isLive_def)
  qed
qed

lemma shutdown_item:
  "it_name (cf_items (item_shutdown out a f) b) = it_name (cf_items f b)"
  "it_doomed (cf_items (item_shutdown out a f) b) \<longleftrightarrow> it_doomed (cf_items f b) \<or> b = a"
  "it_opens (cf_items (item_shutdown out a f) b) = it_opens (cf_items f b)"
  "cf_reg (item_shutdown out a f) = cf_reg f" "cf_nextItem (item_shutdown out a f) = cf_nextItem f" "cf_conf (item_shutdown out a f) = cf_conf f"
  by (simp_all add: item_shutdown_def Let_def jan_remember_def
      alike_item [OF alike_flush [where f = f and out = out and a = a]] alike_sel [OF alike_flush [where f = f and out = out and a = a]])

text \<open>Dropping the registration of an item that is or becomes doomed.\<close>

lemma regs_shutdown: "regs f \<Longrightarrow> regs (item_shutdown out a f)"
  unfolding regs_def by (auto simp: shutdown_item)

lemma regs_delete_doomed:
  assumes "regs f" "it_doomed (cf_items f a)" "(n, a) \<in> set (cf_reg f)"
  shows "regs (f\<lparr>cf_reg := AList.delete n (cf_reg f)\<rparr>)"
proof -
  have n: "it_name (cf_items f a) = n" "map_of (cf_reg f) n = Some a"
    using assms unfolding regs_def by (blast, simp add: map_of_is_SomeI)
  have "map_of (AList.delete n (cf_reg f)) (it_name (cf_items f b)) = Some b"
    if "b < cf_nextItem f" "\<not> it_doomed (cf_items f b)" for b
  proof -
    have b: "map_of (cf_reg f) (it_name (cf_items f b)) = Some b" using assms(1) that unfolding regs_def by blast
    then have "it_name (cf_items f b) \<noteq> n" using n(2) assms(2) that(2) by fastforce
    then show ?thesis using b by (simp add: delete_conv')
  qed
  moreover have "set (AList.delete n (cf_reg f)) \<subseteq> set (cf_reg f)" by (auto simp: AList.delete_eq)
  moreover have "distinct (map fst (AList.delete n (cf_reg f)))" using assms(1) unfolding regs_def by (blast intro: distinct_delete)
  ultimately show ?thesis using assms(1) unfolding regs_def by simp blast
qed

lemma acct_reg [simp]: "acct (f\<lparr>cf_reg := r\<rparr>) = acct f"
  by (simp add: acct_def live_def item_bytes_def index_bytes_def)

lemma doom_reg: "doomLocked a (f\<lparr>cf_reg := r\<rparr>) = (doomLocked a f)\<lparr>cf_reg := r\<rparr>"
  by (simp add: doomLocked_def upd_item_def addBytes_def Let_def)

lemma books_shutdown: "books f \<Longrightarrow> books (item_shutdown out a f)"
  by (simp add: books_def acct_shutdown regs_shutdown)

lemma books_delete_doomed:
  "books f \<Longrightarrow> it_doomed (cf_items f a) \<Longrightarrow> (n, a) \<in> set (cf_reg f) \<Longrightarrow> books (f\<lparr>cf_reg := AList.delete n (cf_reg f)\<rparr>)"
  by (simp add: books_def regs_delete_doomed)

lemma books_release: "books f \<Longrightarrow> books (releaseItem out now a f)"
  by (auto simp: releaseItem_def Let_def intro!: books_shutdown books_upd0)

lemma books_lookup: "books f \<Longrightarrow> books (snd (lookupItem out now n f))"
  by (auto simp: lookupItem_def Let_def intro!: books_release books_upd0 split: option.split)

lemma books_fresh:
  assumes "books f" "map_of (cf_reg f) n = None"
  shows "books (f\<lparr>cf_items := (cf_items f)(cf_nextItem f := newItem n), cf_nextItem := Suc (cf_nextItem f),
      cf_reg := AList.update n (cf_nextItem f) (cf_reg f)\<rparr>)" (is "books ?h")
proof -
  let ?a = "cf_nextItem f"
  have f: "acct f" "regs f" using assms(1) by (simp_all add: books_def)
  have nb: "b \<noteq> ?a" if "live f b" for b using acct_live(1) [OF f(1) that] by simp
  have liv: "live ?h b \<longleftrightarrow> live f b" for b using nb by (auto simp: live_def isLive_def newItem_def)
  have nm: "it_name (cf_items ?h b) = it_name (cf_items f b)" if "live f b" for b using nb [OF that] by simp
  have "acct ?h" unfolding acct_def liv
  proof (intro conjI allI impI)
    fix b assume b: "live f b"
    show "b < cf_nextItem ?h" "cachePaths (cf_conf ?h) (it_name (cf_items ?h b)) \<noteq> None" "map_of (cf_index ?h) (it_name (cf_items ?h b)) = None"
      unfolding nm [OF b] using acct_live [OF f(1) b] by simp_all
  next
    fix b c assume "live f b" "live f c" "it_name (cf_items ?h b) = it_name (cf_items ?h c)"
    then show "b = c" using nm acct_unique [OF f(1)] by metis
  next
    have "weight (newItem n) = 0" by (simp add: weight_def newItem_def)
    then have "item_bytes ?h = item_bytes f" by (simp add: item_bytes_def)
    then show "cf_cachedBytes ?h = item_bytes ?h + index_bytes ?h" using acct_bytes [OF f(1)] by (simp add: index_bytes_def)
  qed (use f acct_index [OF f(1)] in \<open>auto simp: newItem_def\<close>)
  moreover have "regs ?h"
  proof -
    have up: "AList.update n ?a (cf_reg f) = cf_reg f @ [(n, ?a)]" using assms(2) by (simp add: map_of_eq_None_iff alist_update_new)
    have old: "map_of (cf_reg f @ [(n, ?a)]) (it_name (cf_items f b)) = Some b" if "b < ?a" "\<not> it_doomed (cf_items f b)" for b
      using f(2) that unfolding regs_def by (auto simp: map_add_def)
    have "map_of (cf_reg f @ [(n, ?a)]) n = Some ?a" using assms(2) by (simp add: map_add_def)
    moreover have "n \<notin> fst ` set (cf_reg f)" using assms(2) by (simp add: map_of_eq_None_iff)
    ultimately show ?thesis using f(2) old unfolding regs_def by (auto simp: up newItem_def less_Suc_eq)
  qed
  ultimately show ?thesis by (simp add: books_def)
qed

lemma reg_bound: "books f \<Longrightarrow> map_of (cf_reg f) n = Some a \<Longrightarrow> a < cf_nextItem f"
  unfolding books_def regs_def by (auto dest!: map_of_SomeD)

lemma books_open: "books f \<Longrightarrow> books (snd (openItem env out now n st f))"
proof -
  assume f: "books f"
  define af where "af = (case map_of (cf_reg f) n of Some a \<Rightarrow> (a, f)
      | None \<Rightarrow> (cf_nextItem f, f\<lparr>cf_items := (cf_items f)(cf_nextItem f := newItem n), cf_nextItem := Suc (cf_nextItem f),
          cf_reg := AList.update n (cf_nextItem f) (cf_reg f)\<rparr>))"
  have g: "books (snd af)" "fst af < cf_nextItem (snd af)"
    using f books_fresh [OF f] reg_bound [OF f] by (auto simp: af_def split: option.split)
  define h where "h = upd_item (fst af) (\<lambda>x. x\<lparr>it_opens := it_opens x + 1\<rparr>) (snd af)"
  have h: "books h" unfolding h_def by (rule books_upd0) (simp_all add: g)
  have e: "books (snd (ensureLoaded env now (fst af) st h))" by (rule books_ensureLoaded [OF h]) (simp add: h_def g)
  have "openItem env out now n st f = (case ensureLoaded env now (fst af) st h of
      (Some e, f) \<Rightarrow> (Inl e, releaseItem out now (fst af) f) | (None, f) \<Rightarrow> (Inr (fst af), f))"
    by (simp add: openItem_def af_def [symmetric] h_def [symmetric] Let_def split_beta split: option.split)
  then show ?thesis using e by (auto intro: books_release split: prod.split option.split)
qed

section \<open>The janitor's passes\<close>

lemma regs_cong:
  assumes "cf_reg g = cf_reg h" "cf_nextItem g = cf_nextItem h" "\<And>b. it_name (cf_items g b) = it_name (cf_items h b)"
    "\<And>b. it_doomed (cf_items g b) = it_doomed (cf_items h b)"
  shows "regs g = regs h"
  using assms by (simp add: regs_def)

lemma books_close1:
  assumes "books f" "(n, a) \<in> set (cf_reg f)"
  shows "books (item_shutdown out a (f\<lparr>cf_reg := AList.delete n (cf_reg f)\<rparr>))"
proof -
  let ?r = "AList.delete n (cf_reg f)"
  let ?s = "item_shutdown out a f"
  have "regs (?s\<lparr>cf_reg := ?r\<rparr>)"
    using regs_delete_doomed [of ?s a n] books_shutdown [OF assms(1), of out a] assms(2) by (simp add: books_def shutdown_item)
  then have "regs (item_shutdown out a (f\<lparr>cf_reg := ?r\<rparr>))" by (subst regs_cong [of _ "?s\<lparr>cf_reg := ?r\<rparr>"]) (simp_all add: shutdown_item)
  then show ?thesis using assms(1) acct_shutdown [of "f\<lparr>cf_reg := ?r\<rparr>" out a] by (simp add: books_def)
qed

text \<open>A sweep over a snapshot of the registry that drops at most the entry it is at.\<close>

lemma books_sweep:
  assumes "books f" "set es \<subseteq> set (cf_reg f)" "distinct (map fst es)"
    and "\<And>e g. books g \<Longrightarrow> e \<in> set (cf_reg g) \<Longrightarrow> books (step e g) \<and> (cf_reg (step e g) = cf_reg g \<or> cf_reg (step e g) = AList.delete (fst e) (cf_reg g))"
  shows "books (fold step es f)"
  using assms(1-3)
proof (induction es arbitrary: f)
  case (Cons e es)
  have e: "e \<in> set (cf_reg f)" using Cons.prems by simp
  have keep: "set es \<subseteq> set (AList.delete (fst e) (cf_reg f))"
  proof
    fix x assume x: "x \<in> set es"
    then have "fst x \<noteq> fst e" using Cons.prems(3) by (metis distinct.simps(2) image_eqI list.simps(9) set_map)
    then show "x \<in> set (AList.delete (fst e) (cf_reg f))" using x Cons.prems(2) by (auto simp: AList.delete_eq split: prod.split)
  qed
  have "set es \<subseteq> set (cf_reg (step e f))" using assms(4) [OF Cons.prems(1) e] keep Cons.prems(2) by auto
  then show ?case using Cons assms(4) [OF Cons.prems(1) e] by simp
qed simp

lemma books_reg_distinct: "books f \<Longrightarrow> distinct (map fst (cf_reg f))"
  by (simp add: books_def regs_def)

lemma books_closeIdle: "books f \<Longrightarrow> books (closeIdle out now f)"
  unfolding closeIdle_def
  by (rule books_sweep) (auto simp: books_reg_distinct closeIdle1_def Let_def shutdown_item intro!: books_close1 split: option.split)

lemma removeFiles_same: "same_books f (removeFiles n f)"
  by (auto simp: removeFiles_def split: option.split)

lemma books_forget: "books f \<Longrightarrow> books (addBytes (- fst (jan_forget n f)) (snd (jan_forget n f)))"
  using acct_forget by (simp add: books_def regs_def)

lemma books_drop_index:
  assumes "books f" "map_of (cf_index f) n = Some e"
  shows "books (addBytes (- de_bytes e) (removeFiles n (f\<lparr>cf_index := AList.delete n (cf_index f)\<rparr>)))"
proof -
  let ?g = "f\<lparr>cf_index := AList.delete n (cf_index f)\<rparr>"
  have "books (addBytes (- de_bytes e) ?g)" using books_forget [OF assms(1), of n] assms(2) by (simp add: jan_forget_def)
  moreover have "same_books (addBytes (- de_bytes e) ?g) (addBytes (- de_bytes e) (removeFiles n ?g))"
    using removeFiles_same [of ?g n] by (simp add: same_books_def)
  ultimately show ?thesis using books_same by blast
qed

lemma books_deleteEntry: "books f \<Longrightarrow> books (deleteEntry n f)"
proof -
  assume f: "books f"
  have path: "cachePaths (cf_conf f) n \<noteq> None" if "map_of (cf_index f) n = Some e" for e
    using acct_index(2) [of f n] f that by (force simp: books_def dest: map_of_SomeD)
  show ?thesis
    using f path books_drop_index [OF f, of n]
    by (auto simp: deleteEntry_def Let_def split: option.split intro: books_same [rotated])
qed

lemma books_fold: "(\<And>e g. books g \<Longrightarrow> books (step e g)) \<Longrightarrow> books f \<Longrightarrow> books (fold step es f)"
  by (induction es arbitrary: f) auto

lemma books_evictExpired: "books f \<Longrightarrow> books (evictExpired now f)"
  unfolding evictExpired_def by (rule books_fold) (auto intro: books_deleteEntry split: prod.split)

lemma books_evictOverBudget: "books f \<Longrightarrow> books (evictOverBudget f)"
proof -
  have "books f \<Longrightarrow> books (evict_loop l cs f)" for l cs f
    by (induction cs arbitrary: f) (auto intro: books_deleteEntry)
  then show "books f \<Longrightarrow> books (evictOverBudget f)" by (simp add: evictOverBudget_def Let_def)
qed

text \<open>What is punched is part of the item's ranges and of no range punched later.\<close>

lemma alignPunch_within: "0 < align \<Longrightarrow> span (alignPunch align r) \<subseteq> span r"
proof -
  assume a: "0 < align"
  have up: "p \<le> (p + align - 1) div align * align" for p :: int
  proof -
    have "(p + align - 1) div align * align = p + align - 1 - (p + align - 1) mod align" by (simp add: minus_mod_eq_div_mult)
    moreover have "(p + align - 1) mod align < align" using a by simp
    ultimately show ?thesis by linarith
  qed
  have down: "e div align * align \<le> e" for e :: int
  proof -
    have "e div align * align = e - e mod align" by (simp add: minus_mod_eq_div_mult)
    moreover have "0 \<le> e mod align" using a by simp
    ultimately show ?thesis by linarith
  qed
  show ?thesis
  proof (cases "align = 1")
    case False
    then have "span (alignPunch align r) = {(pos r + align - 1) div align * align ..< rend r div align * align}"
      by (simp add: alignPunch_def Let_def span_def)
    then show ?thesis using up [of "pos r"] down [of "rend r"] unfolding span_def by (metis ivl_subset)
  qed (simp add: alignPunch_def)
qed

lemma behind_spans:
  assumes "rs_inv s"
  shows "cover (behind c s) \<subseteq> cover s" "sorted_wrt (\<lambda>a b. span a \<inter> span b = {}) (behind c s)"
  using assms
proof (induction s)
  case (Cons r s)
  {
    case 1
    then show ?case using Cons by (auto simp: rend_def)
  next
    case 2
    have far: "rend r < pos y" if "y \<in> set (behind c s)" for y
    proof -
      have "\<exists>x \<in> set s. pos y = pos x" using that by (induction s) (auto split: if_splits)
      then show ?thesis using 2 by auto
    qed
    then show ?case using Cons 2 by (fastforce simp: rend_def)
  }
qed simp_all

lemma rs_size_remove:
  assumes "rs_inv s" "span r \<subseteq> cover s" "0 < rsize r"
  shows "rs_size (rs_remove s r) = rs_size s - rsize r"
proof -
  have "card (span r) = nat (rsize r)" by (simp add: span_def rend_def)
  moreover have "card (cover s - span r) = card (cover s) - card (span r)" using assms(2) by (intro card_Diff_subset) (simp_all add: span_def)
  moreover have "card (span r) \<le> card (cover s)" using assms(2) by (intro card_mono) simp_all
  ultimately show ?thesis using assms by (simp add: rs_size_card rs_inv_remove cover_remove of_nat_diff)
qed

lemma books_punch_loop:
  assumes "books f" "isLive (cf_items f a)" "0 < align" "cover rs \<subseteq> cover (it_rs (cf_items f a))"
    "sorted_wrt (\<lambda>x y. span x \<inter> span y = {}) rs"
  shows "books (snd (punch_loop ok align a rs b f))"
  using assms
proof (induction rs arbitrary: b f)
  case (Cons r rs)
  let ?r = "alignPunch align r"
  let ?x = "cf_items f a"
  define s where "s = rs_remove (it_rs ?x) ?r"
  let ?g = "upd_item_file a (f_punch ?r) f"
  let ?h = "addBytes (- rsize ?r) (upd_item a (\<lambda>x. x\<lparr>it_rs := rs_remove (it_rs x) ?r\<rparr>) ?g)"
  let ?k = "?h\<lparr>cf_punchedBytes := cf_punchedBytes ?h + rsize ?r\<rparr>"
  have inv: "rs_inv (it_rs ?x)" using Cons.prems(1) by simp
  have sub: "span ?r \<subseteq> cover (it_rs ?x)" using alignPunch_within [OF Cons.prems(3), of r] Cons.prems(4) by auto
  show ?case
  proof (cases "rsize ?r \<le> 0 \<or> \<not> ok ?r")
    case True
    then show ?thesis using Cons by (auto simp: Let_def)
  next
    case False
    have d: "rs_size s - rs_size (it_rs ?x) = - rsize ?r" using rs_size_remove [OF inv sub] False by (simp add: s_def)
    have "books (addBytes (rs_size s - rs_size (it_rs (cf_items ?g a))) (upd_item a (\<lambda>x. x\<lparr>it_rs := rs_remove (it_rs x) ?r\<rparr>) ?g))"
      by (rule books_new_rs) (use Cons.prems books_same [of f ?g] inv in \<open>simp_all add: s_def rs_inv_remove\<close>)
    then have "books ?h" using d by simp
    then have k: "books ?k" by (rule books_same [rotated]) simp
    have cov: "cover (it_rs (cf_items ?k a)) = cover (it_rs ?x) - span ?r" using inv by (simp add: cover_remove)
    have "cover rs \<inter> span ?r = {}"
      using Cons.prems(5) alignPunch_within [OF Cons.prems(3), of r] by (fastforce simp: cover_def)
    then have "cover rs \<subseteq> cover (it_rs (cf_items ?k a))" unfolding cov using Cons.prems(4) by auto
    then have "books (snd (punch_loop ok align a rs True ?k))"
      by (intro Cons.IH [OF k]) (use Cons.prems in \<open>simp_all add: isLive_def\<close>)
    then show ?thesis using False by (simp add: Let_def)
  qed
qed simp

lemma books_punchItem: "books f \<Longrightarrow> 0 < align \<Longrightarrow> books (punchItem ok align a f)"
proof -
  assume f: "books f" "0 < align"
  let ?c = "it_readHead (cf_items f a) - 268435456"
  have loop: "books (snd (punch_loop ok align a (behind ?c (it_rs (cf_items f a))) False f))" if "isLive (cf_items f a)"
    using f that behind_spans [of "it_rs (cf_items f a)" ?c] by (intro books_punch_loop) simp_all
  have dirty: "books g \<Longrightarrow> books (upd_item a (\<lambda>x. x\<lparr>it_dirty := True\<rparr>) g)" for g by (rule books_upd0) simp_all
  show ?thesis using f loop dirty
    by (auto simp: punchItem_def Let_def isLive_def split: prod.splits option.splits)
qed

lemma books_punchBehind: "books f \<Longrightarrow> 0 < align \<Longrightarrow> books (punchBehind can ok align f)"
proof -
  have "books f \<Longrightarrow> 0 < align \<Longrightarrow> books (punch_items ok align as f)" for as f
    by (induction as arbitrary: f) (auto intro: books_punchItem)
  then show "books f \<Longrightarrow> 0 < align \<Longrightarrow> books (punchBehind can ok align f)" by (simp add: punchBehind_def)
qed

lemma books_pass: "books f \<Longrightarrow> 0 < align \<Longrightarrow> books (jan_pass out can ok align now f)"
  unfolding jan_pass_def by (intro books_punchBehind books_evictOverBudget books_evictExpired books_closeIdle)

end
