(* ===== verification/Cache_Books.thy ===== *)
theory Cache_Books
  imports Cache_Acct
begin

text \<open>
  The remaining sweeps (invalidation, flush, close, the audit and the walk at start) and the theorem that the
  accounting of the cache is exact over every sequence of operations.
\<close>

section \<open>Sweeps\<close>

lemma books_doom_reg:
  assumes "books f" "(p, a) \<in> set (cf_reg f)"
  shows "books (doomLocked a (f\<lparr>cf_reg := AList.delete p (cf_reg f)\<rparr>))"
proof -
  have sel: "cf_reg (doomLocked a f) = cf_reg f" "it_doomed (cf_items (doomLocked a f) a)"
    by (simp_all add: doomLocked_def Let_def)
  show ?thesis
    using books_delete_doomed [OF books_doom [OF assms(1)], of a a p] assms(2) by (simp add: doom_reg sel)
qed

lemma invalidate1_keeps:
  assumes "books g" "e \<in> set (cf_reg g)"
  shows "books (invalidate1 n e g) \<and> (cf_reg (invalidate1 n e g) = cf_reg g \<or> cf_reg (invalidate1 n e g) = AList.delete (fst e) (cf_reg g))"
proof -
  obtain p a where e: "e = (p, a)" by (cases e)
  define h where "h = doomLocked a (g\<lparr>cf_reg := AList.delete p (cf_reg g)\<rparr>)"
  define k where "k = (if it_opens (cf_items h a) = 0 then item_shutdown FlushOK a h else h)"
  have h: "books h" using books_doom_reg [of g p a] assms e by (simp add: h_def)
  then have k: "books k" by (simp add: k_def books_shutdown)
  have "books (removeFiles p k)" using books_same [OF removeFiles_same k] .
  moreover have "cf_reg (removeFiles p k) = AList.delete p (cf_reg g)"
    using removeFiles_same [of k p] by (simp add: same_books_def k_def shutdown_item h_def doomLocked_def Let_def)
  ultimately show ?thesis using assms(1)
    by (simp add: invalidate1_def e Let_def h_def [symmetric] k_def [symmetric])
qed

lemma books_invalidate_index:
  assumes "books f" "set es \<subseteq> set (cf_index f)" "distinct (map fst es)"
  shows "books (fold (invalidate_index1 n) es f)"
  using assms
proof (induction es arbitrary: f)
  case (Cons e es)
  obtain p d where e: "e = (p, d)" by (cases e)
  have idx: "map_of (cf_index f) p = Some d"
    by (rule map_of_is_SomeI) (use Cons.prems acct_index(1) [of f] in \<open>simp_all add: e books_def\<close>)
  have step: "books (invalidate_index1 n e f)"
  proof -
    let ?g = "f\<lparr>cf_index := AList.delete p (cf_index f)\<rparr>"
    have "removeFiles p (addBytes (- de_bytes d) ?g) = addBytes (- de_bytes d) (removeFiles p ?g)"
      by (simp add: removeFiles_def addBytes_def split: option.split)
    then show ?thesis using books_drop_index [OF Cons.prems(1) idx] Cons.prems(1) by (simp add: invalidate_index1_def e)
  qed
  have "cf_index (invalidate_index1 n e f) = (if covers n p then AList.delete p (cf_index f) else cf_index f)"
    using removeFiles_same [of "addBytes (- de_bytes d) (f\<lparr>cf_index := AList.delete p (cf_index f)\<rparr>)" p]
    by (simp add: invalidate_index1_def e same_books_def)
  moreover have "set es \<subseteq> set (AList.delete p (cf_index f))"
  proof
    fix x assume x: "x \<in> set es"
    then have "fst x \<noteq> p" using Cons.prems(3) by (auto simp: e)
    then show "x \<in> set (AList.delete p (cf_index f))" using x Cons.prems(2) by (auto simp: AList.delete_eq split: prod.split)
  qed
  ultimately have "set es \<subseteq> set (cf_index (invalidate_index1 n e f))" using Cons.prems(2) by simp
  then show ?case using Cons step by simp
qed simp

lemma books_invalidateTree: "books f \<Longrightarrow> books (invalidateTree n f)"
proof -
  assume f: "books f"
  have "books (fold (invalidate1 n) (cf_reg f) f)"
    by (rule books_sweep [OF f subset_refl books_reg_distinct [OF f]]) (rule invalidate1_keeps)
  then show ?thesis
    unfolding invalidateTree_def Let_def by (intro books_invalidate_index subset_refl) (assumption, simp add: books_def acct_index(1))
qed

lemma books_flushAll: "books f \<Longrightarrow> books (flushAll out f)"
  unfolding flushAll_def by (rule books_fold) (auto intro: books_flush)

lemma reg_name: "regs f \<Longrightarrow> (n, a) \<in> set (cf_reg f) \<Longrightarrow> it_name (cf_items f a) = n"
  unfolding regs_def by blast

lemma reg_mem: "regs f \<Longrightarrow> b < cf_nextItem f \<Longrightarrow> \<not> it_doomed (cf_items f b) \<Longrightarrow> b \<in> snd ` set (cf_reg f)"
proof -
  assume "regs f" "b < cf_nextItem f" "\<not> it_doomed (cf_items f b)"
  then have "map_of (cf_reg f) (it_name (cf_items f b)) = Some b" unfolding regs_def by blast
  then show ?thesis by (rule map_of_SomeD [THEN rev_image_eqI]) simp
qed

text \<open>Closing the cache empties the registry first: the registry invariant returns when every item is doomed.\<close>

lemma shutdown_fold:
  assumes "acct f"
  shows "acct (fold (\<lambda>a. item_shutdown (out a) a) as f)"
    and "it_doomed (cf_items (fold (\<lambda>a. item_shutdown (out a) a) as f) b) \<longleftrightarrow> it_doomed (cf_items f b) \<or> b \<in> set as"
    and "cf_reg (fold (\<lambda>a. item_shutdown (out a) a) as f) = cf_reg f"
    and "cf_nextItem (fold (\<lambda>a. item_shutdown (out a) a) as f) = cf_nextItem f"
proof -
  show "acct (fold (\<lambda>a. item_shutdown (out a) a) as f)" using assms by (induction as arbitrary: f) (simp_all add: acct_shutdown)
  show "it_doomed (cf_items (fold (\<lambda>a. item_shutdown (out a) a) as f) b) \<longleftrightarrow> it_doomed (cf_items f b) \<or> b \<in> set as"
    by (induction as arbitrary: f) (auto simp: shutdown_item)
  show "cf_reg (fold (\<lambda>a. item_shutdown (out a) a) as f) = cf_reg f" "cf_nextItem (fold (\<lambda>a. item_shutdown (out a) a) as f) = cf_nextItem f"
    by (induction as arbitrary: f) (simp_all add: shutdown_item)
qed

lemma books_close: "books f \<Longrightarrow> books (cfs_close out f)"
proof -
  assume f: "books f"
  let ?g = "f\<lparr>cf_reg := []\<rparr>"
  have g: "acct ?g" using f by (simp add: books_def)
  have "it_doomed (cf_items f b) \<or> b \<in> set (map snd (cf_reg f))" if "b < cf_nextItem f" for b
    using reg_mem [of f b] f that by (auto simp: books_def)
  then have "regs (cfs_close out f)" unfolding cfs_close_def regs_def using shutdown_fold(2-4) [OF g] by simp
  moreover have "acct (cfs_close out f)" unfolding cfs_close_def using shutdown_fold(1) [OF g] .
  ultimately show ?thesis by (simp add: books_def)
qed

section \<open>The audit\<close>

text \<open>What the code sums over the registry is what the items hold.\<close>

lemma live_total_eq:
  assumes "books f"
  shows "live_total f = item_bytes f"
proof -
  have regs: "regs f" and acct: "acct f" using assms by (simp_all add: books_def)
  have inj: "distinct (map snd (cf_reg f))"
  proof (subst distinct_map, intro conjI inj_onI)
    show "distinct (cf_reg f)" using regs unfolding regs_def by (simp add: distinct_map)
  next
    fix x y assume "x \<in> set (cf_reg f)" "y \<in> set (cf_reg f)" "snd x = snd y"
    moreover have "fst z = it_name (cf_items f (snd z))" if "z \<in> set (cf_reg f)" for z using reg_name [OF regs] that by (cases z) simp
    ultimately show "x = y" by (metis prod_eqI)
  qed
  have "live_total f = (\<Sum>a \<in> set (map snd (cf_reg f)). weight (cf_items f a))"
    using inj unfolding live_total_def weight_def by (rule sum_list_distinct_conv_sum_set)
  also have "\<dots> = (\<Sum>a < cf_nextItem f. weight (cf_items f a))"
  proof (rule sum.mono_neutral_left)
    show "set (map snd (cf_reg f)) \<subseteq> {..<cf_nextItem f}" using regs by (auto simp: regs_def)
    show "\<forall>a \<in> {..<cf_nextItem f} - set (map snd (cf_reg f)). weight (cf_items f a) = 0"
      using reg_mem [OF regs] by (auto simp: weight_def isLive_def)
  qed simp
  finally show ?thesis by (simp add: item_bytes_def)
qed

text \<open>The audit can read the metadata of every closed item.\<close>

definition readable :: "cfs \<Rightarrow> bool" where
  "readable f \<longleftrightarrow> list_all (\<lambda>e. case meta_of f (fst e) of Inl _ \<Rightarrow> False | Inr _ \<Rightarrow> True) (cf_index f)"

lemma reconcile_index_sum:
  assumes "list_all (\<lambda>e. case meta_of f (fst e) of Inl _ \<Rightarrow> False | Inr _ \<Rightarrow> True) es"
  shows "map fst (snd (reconcile_index f es)) = map fst es"
    "fst (reconcile_index f es) = sum_list (map (\<lambda>e. de_bytes (snd e)) (snd (reconcile_index f es)))"
  using assms by (induction es) (auto simp: Let_def split_beta split: sum.splits)

lemma books_reconcile:
  assumes "books f" "readable f"
  shows "books (jan_reconcile f)"
proof -
  note r = reconcile_index_sum [OF assms(2) [unfolded readable_def]]
  define tot idx where "tot = fst (reconcile_index f (cf_index f))" and "idx = snd (reconcile_index f (cf_index f))"
  let ?g = "f\<lparr>cf_index := idx\<rparr>"
  let ?h = "?g\<lparr>cf_cachedBytes := tot + live_total ?g\<rparr>"
  have a: "acct f" and rg: "regs f" using assms(1) by (simp_all add: books_def)
  have keys: "map fst idx = map fst (cf_index f)" using r(1) by (simp add: idx_def)
  have none: "map_of idx n = None \<longleftrightarrow> map_of (cf_index f) n = None" for n
    using keys by (metis map_of_eq_None_iff set_map)
  have lt: "live_total ?g = item_bytes f" using live_total_eq [OF assms(1)] by (simp add: live_total_def cong: if_cong)
  have "live ?h b = live f b" for b by (simp add: live_def)
  then have "acct ?h" unfolding acct_def
    using a acct_index [OF a] acct_live [OF a] acct_unique [OF a] keys none lt r(2)
    by (auto simp: item_bytes_def index_bytes_def tot_def idx_def simp flip: set_map)
  moreover have "regs ?h" using rg by (simp add: regs_def)
  ultimately show ?thesis by (simp add: jan_reconcile_def Let_def split_beta tot_def idx_def books_def)
qed

section \<open>The walk at start\<close>

definition meta_name :: "cacheConf \<Rightarrow> string \<Rightarrow> string" where
  "meta_name c p = CHR ''/'' # relTo (path_Join (cc_dir c) ''meta'') (take (length p - 5) p)"

text \<open>
  A fresh core over what an earlier run left on disk: no item, no index. The walk meets files below the metadata
  root, whose names the cache itself produced.
\<close>

definition unstarted :: "cfs \<Rightarrow> bool" where
  "unstarted f \<longleftrightarrow> cf_reg f = [] \<and> cf_index f = [] \<and> cf_nextItem f = 0 \<and> cf_items f = (\<lambda>_. newItem [])
     \<and> distinct (map fst (cf_metaTree f))
     \<and> list_all (\<lambda>p. hasPrefix p (path_Join (cc_dir (cf_conf f)) ''meta'' @ ''/'')
          \<and> (hasSuffix p ''.json'' \<longrightarrow> cachePaths (cf_conf f) (meta_name (cf_conf f) p) \<noteq> None)) (map fst (cf_metaTree f))"

lemma suffix_after:
  assumes "q @ suf = (r @ [c]) @ rest" "c \<notin> set suf"
  obtains rel where "q @ suf = r @ [c] @ rel @ suf"
proof -
  consider us where "q = (r @ [c]) @ us" "us @ suf = rest" | us where "q @ us = r @ [c]" "suf = us @ rest"
    using append_eq_append_conv2 [THEN iffD1, OF assms(1)] by blast
  then show thesis
  proof cases
    case (2 us)
    have "us = []"
    proof (rule ccontr)
      assume us: "us \<noteq> []"
      then have "last us = c" using 2(1) by (metis last_appendR last_snoc)
      then have "c \<in> set us" using us last_in_set by blast
      then show False using assms(2) 2(2) by simp
    qed
    then show ?thesis using that [of "[]"] 2 by simp
  qed (use that in auto)
qed

lemma json_name:
  assumes "hasPrefix p (r @ ''/'')" "hasSuffix p ''.json''"
  obtains rel where "p = r @ ''/'' @ rel @ ''.json''"
proof -
  have rest: "p = (r @ ''/'') @ drop (length (r @ ''/'')) p"
    using assms(1) append_take_drop_id [of "length (r @ ''/'')" p] unfolding hasPrefix_def by simp
  have q: "p = take (length p - length ''.json'') p @ ''.json''"
    using assms(2) append_take_drop_id [of "length p - length ''.json''" p] unfolding hasSuffix_def by simp
  obtain rel where "take (length p - length ''.json'') p @ ''.json'' = r @ ''/'' @ rel @ ''.json''"
    by (rule suffix_after [of "take (length p - length ''.json'') p" "''.json''" r "CHR ''/''" "drop (length (r @ ''/'')) p"])
      (use rest q in simp_all)
  then show thesis using that q by simp
qed

lemma meta_name_json: "r = path_Join (cc_dir c) ''meta'' \<Longrightarrow> meta_name c (r @ ''/'' @ rel @ ''.json'') = CHR ''/'' # rel"
  by (simp add: meta_name_def relTo_def)

lemma meta_name_inj:
  assumes "hasPrefix p (path_Join (cc_dir c) ''meta'' @ ''/'')" "hasPrefix q (path_Join (cc_dir c) ''meta'' @ ''/'')"
    "hasSuffix p ''.json''" "hasSuffix q ''.json''" "meta_name c p = meta_name c q"
  shows "p = q"
proof -
  obtain x where x: "p = path_Join (cc_dir c) ''meta'' @ ''/'' @ x @ ''.json''" using json_name [OF assms(1,3)] .
  obtain y where y: "q = path_Join (cc_dir c) ''meta'' @ ''/'' @ y @ ''.json''" using json_name [OF assms(2,4)] .
  have "x = y" using assms(5) unfolding x y using meta_name_json [OF refl] by (metis list.inject)
  then show ?thesis by (simp add: x y)
qed

text \<open>What the walk has built when it has met the files \<open>ps\<close>.\<close>

definition walked :: "cacheConf \<Rightarrow> string set \<Rightarrow> int \<times> cfs \<Rightarrow> bool" where
  "walked c done s \<longleftrightarrow> (case s of (tot, f) \<Rightarrow>
     cf_conf f = c \<and> cf_reg f = [] \<and> cf_nextItem f = 0 \<and> cf_items f = (\<lambda>_. newItem []) \<and> distinct (map fst (cf_index f))
     \<and> fst ` set (cf_index f) \<subseteq> meta_name c ` {p \<in> done. hasSuffix p ''.json''}
     \<and> (\<forall>n \<in> fst ` set (cf_index f). cachePaths c n \<noteq> None) \<and> tot = index_bytes f)"

lemma walked_step:
  assumes "walked c dn s" "p \<notin> dn" and pre: "\<And>q. q \<in> insert p dn \<Longrightarrow> hasPrefix q (path_Join (cc_dir c) ''meta'' @ ''/'')"
    and ok: "hasSuffix p ''.json'' \<Longrightarrow> cachePaths c (meta_name c p) \<noteq> None"
  shows "walked c (insert p dn) (load_meta1 p s)"
proof -
  obtain tot f where s: "s = (tot, f)" by (cases s)
  have keep: "walked c (insert p dn) (tot, f\<lparr>cf_metaTree := t, cf_dataTree := u\<rparr>)" for t :: "(string \<times> metaFile) list" and u :: "(string \<times> nat) list"
    using assms(1) by (auto simp: walked_def s index_bytes_def)
  have keep0: "walked c (insert p dn) (tot, f)" using keep [where t = "cf_metaTree f" and u = "cf_dataTree f"] by simp
  have keep1: "walked c (insert p dn) (tot, f\<lparr>cf_metaTree := t\<rparr>)" for t using keep [where t = t and u = "cf_dataTree f"] by simp
  have add: "walked c (insert p dn) (tot + b, jan_remember (meta_name c p) at b f)" if js: "hasSuffix p ''.json''" for at b
  proof -
    have new: "meta_name c p \<notin> fst ` set (cf_index f)"
    proof
      assume "meta_name c p \<in> fst ` set (cf_index f)"
      then obtain q where q: "q \<in> dn" "hasSuffix q ''.json''" "meta_name c p = meta_name c q"
        using assms(1) by (auto simp: walked_def s)
      then have "p = q" using meta_name_inj [of p c q] pre js by blast
      then show False using q(1) assms(2) by simp
    qed
    show ?thesis using assms(1) new js ok
      by (auto simp: walked_def s jan_remember_def index_bytes_def alist_update_new image_iff)
  qed
  have nm: "CHR ''/'' # relTo (path_Join (cc_dir (cf_conf f)) ''meta'') (take (length p - 5) p) = meta_name c p"
    using assms(1) by (simp add: walked_def s meta_name_def)
  show ?thesis
    using keep keep0 keep1 add
    by (auto simp: load_meta1_def s Let_def nm split: option.split sum.split)
qed

lemma walked_fold:
  assumes "walked c dn s" "distinct ps" "set ps \<inter> dn = {}" "\<And>q. q \<in> set ps \<union> dn \<Longrightarrow> hasPrefix q (path_Join (cc_dir c) ''meta'' @ ''/'')"
    and "\<And>p. p \<in> set ps \<Longrightarrow> hasSuffix p ''.json'' \<Longrightarrow> cachePaths c (meta_name c p) \<noteq> None"
  shows "walked c (set ps \<union> dn) (fold load_meta1 ps s)"
  using assms
proof (induction ps arbitrary: dn s)
  case (Cons p ps)
  have "walked c (insert p dn) (load_meta1 p s)" using Cons.prems by (intro walked_step) auto
  then have "walked c (set ps \<union> insert p dn) (fold load_meta1 ps (load_meta1 p s))"
    using Cons.prems by (intro Cons.IH) auto
  then show ?case by simp
qed simp

lemma books_load:
  assumes "unstarted f"
  shows "books (jan_load f)"
proof -
  let ?c = "cf_conf f" and ?ps = "map fst (cf_metaTree f)"
  have "walked ?c {} (0, f)" using assms by (simp add: unstarted_def walked_def index_bytes_def)
  then have w: "walked ?c (set ?ps \<union> {}) (fold load_meta1 ?ps (0, f))"
    by (rule walked_fold) (use assms in \<open>auto simp: unstarted_def list_all_iff\<close>)
  define tot g where "tot = fst (fold load_meta1 ?ps (0, f))" and "g = snd (fold load_meta1 ?ps (0, f))"
  have wg: "walked ?c (set ?ps) (tot, g)" using w by (simp add: tot_def g_def)
  have "walked ?c (set ?ps) (tot, load_data1 p h)" if "walked ?c (set ?ps) (tot, h)" for p h
    using that by (auto simp: load_data1_def walked_def index_bytes_def)
  then have wk: "walked ?c (set ?ps) (tot, fold load_data1 es h)" if "walked ?c (set ?ps) (tot, h)" for es h
    using that by (induction es arbitrary: h) simp_all
  define k where "k = fold load_data1 (map fst (cf_dataTree g)) g"
  have k: "walked ?c (set ?ps) (tot, k)" using wk [OF wg] by (simp add: k_def)
  have "jan_load f = k\<lparr>cf_cachedBytes := tot\<rparr>" by (simp add: jan_load_def Let_def split_beta tot_def g_def k_def)
  moreover have "books (k\<lparr>cf_cachedBytes := tot\<rparr>)"
    using k by (auto simp: walked_def books_def acct_def regs_def live_def isLive_def newItem_def item_bytes_def index_bytes_def)
  ultimately show ?thesis by simp
qed

section \<open>Eviction meets the budget\<close>

lemma removeFiles_sel [simp]: "cf_reg (removeFiles n f) = cf_reg f" "cf_conf (removeFiles n f) = cf_conf f" "cf_index (removeFiles n f) = cf_index f"
  using removeFiles_same [of f n] by (simp_all add: same_books_def)

lemma deleteEntry_sel [simp]: "cf_reg (deleteEntry n f) = cf_reg f" "cf_conf (deleteEntry n f) = cf_conf f"
  by (simp_all add: deleteEntry_def Let_def split: option.split)

lemma delete_keys: "fst ` set (AList.delete n xs) = fst ` set xs - {n}"
  by (auto simp: AList.delete_eq image_iff split: prod.splits)

lemma deleteEntry_index:
  "fst ` set (cf_index (deleteEntry n f)) = fst ` set (cf_index f) - (if map_of (cf_reg f) n = None then {n} else {})"
proof (cases "map_of (cf_reg f) n = None")
  case True
  show ?thesis
  proof (cases "map_of (cf_index f) n")
    case None
    then have "deleteEntry n f = f" "n \<notin> fst ` set (cf_index f)" using True by (simp_all add: deleteEntry_def, simp add: map_of_eq_None_iff)
    then show ?thesis by simp
  next
    case (Some e)
    have "cf_index (deleteEntry n f) = AList.delete n (cf_index f)"
      using True Some by (simp add: deleteEntry_def Let_def)
    then show ?thesis using True by (simp add: delete_keys)
  qed
qed (auto simp: deleteEntry_def)

lemma evict_loop_meets:
  "cf_cachedBytes (evict_loop l cs f) \<le> l \<or>
     (\<forall>n \<in> fst ` set (cf_index (evict_loop l cs f)). n \<in> fst ` set cs \<longrightarrow> map_of (cf_reg f) n \<noteq> None) \<and>
     fst ` set (cf_index (evict_loop l cs f)) \<subseteq> fst ` set (cf_index f)"
proof (induction cs arbitrary: f)
  case (Cons c cs)
  show ?case
  proof (cases "cf_cachedBytes f \<le> l")
    case False
    let ?d = "deleteEntry (fst c) f"
    have step: "evict_loop l (c # cs) f = evict_loop l cs ?d" using False by simp
    have sub: "fst ` set (cf_index ?d) \<subseteq> fst ` set (cf_index f)" "fst c \<in> fst ` set (cf_index ?d) \<Longrightarrow> map_of (cf_reg f) (fst c) \<noteq> None"
      unfolding deleteEntry_index by (auto split: if_splits)
    from Cons [of ?d] show ?thesis
    proof
      assume ih: "(\<forall>n \<in> fst ` set (cf_index (evict_loop l cs ?d)). n \<in> fst ` set cs \<longrightarrow> map_of (cf_reg ?d) n \<noteq> None) \<and>
        fst ` set (cf_index (evict_loop l cs ?d)) \<subseteq> fst ` set (cf_index ?d)"
      have "map_of (cf_reg f) n \<noteq> None" if "n \<in> fst ` set (cf_index (evict_loop l cs ?d))" "n \<in> fst ` set (c # cs)" for n
      proof (cases "n = fst c")
        case True
        then show ?thesis using that(1) ih sub(2) by blast
      next
        case False
        then have "n \<in> fst ` set cs" using that(2) by simp
        then show ?thesis using that(1) ih by (metis deleteEntry_sel(1))
      qed
      then show ?thesis unfolding step using ih sub(1) by (intro disjI2 conjI ballI impI) (assumption, rule subset_trans, rule conjunct2)
    qed (simp only: step simp_thms)
  qed simp
qed simp

lemma evict_meets:
  "cf_cachedBytes (evictOverBudget f) \<le> maxBytes (cf_conf f) \<or>
     (\<forall>n \<in> fst ` set (cf_index (evictOverBudget f)). map_of (cf_reg f) n \<noteq> None)"
proof (cases "cf_cachedBytes f \<le> maxBytes (cf_conf f)")
  case False
  let ?c = "sort_key snd (candidates f)"
  have names: "fst ` set ?c = fst ` set (cf_index f)" by (force simp: candidates_def)
  have step: "evictOverBudget f = evict_loop (maxBytes (cf_conf f)) ?c f" using False by (simp add: evictOverBudget_def Let_def)
  from evict_loop_meets [of "maxBytes (cf_conf f)" ?c f] show ?thesis
  proof
    assume "(\<forall>n \<in> fst ` set (cf_index (evict_loop (maxBytes (cf_conf f)) ?c f)). n \<in> fst ` set ?c \<longrightarrow> map_of (cf_reg f) n \<noteq> None) \<and>
      fst ` set (cf_index (evict_loop (maxBytes (cf_conf f)) ?c f)) \<subseteq> fst ` set (cf_index f)"
    then show ?thesis unfolding step names by (intro disjI2 ballI) (meson subsetD)
  qed (simp only: step simp_thms)
qed (simp add: evictOverBudget_def)

section \<open>Every sequence of operations\<close>

text \<open>
  Everything that moves the state, as the servers, the flusher and the janitor interleave it. A flush is two
  operations, since its second half runs without the item lock.
\<close>

datatype cacheOp =
    OpOpen diskEnv flushOutcome time string finfo
  | OpLookup flushOutcome time string
  | OpRelease flushOutcome time nat
  | OpTouch time int nat
  | OpFill "rng \<Rightarrow> (nat \<times> bool) option" nat bytes int
  | OpMirror "nat option" nat bytes int
  | OpTruncate bool nat int
  | OpFlushSnapshot nat
  | OpFlushWrite flushOutcome nat "metaJSON \<times> bool"
  | OpPass "nat \<Rightarrow> flushOutcome" bool "nat \<Rightarrow> rng \<Rightarrow> bool" int time
  | OpReconcile
  | OpInvalidate string
  | OpClose "nat \<Rightarrow> flushOutcome"

fun cache_do :: "cacheOp \<Rightarrow> cfs \<Rightarrow> cfs" where
  "cache_do (OpOpen env out now n st) f = snd (openItem env out now n st f)"
| "cache_do (OpLookup out now n) f = snd (lookupItem out now n f)"
| "cache_do (OpRelease out now a) f = releaseItem out now a f"
| "cache_do (OpTouch now head a) f = item_touch now head a f"
| "cache_do (OpFill wr a p off) f = snd (writeNoOverwrite wr a p off f)"
| "cache_do (OpMirror wr a p off) f = mirrorWrite wr a p off f"
| "cache_do (OpTruncate ok a n) f = item_truncate ok a n f"
| "cache_do (OpFlushSnapshot a) f = snd (flush_snapshot a f)"
| "cache_do (OpFlushWrite out a snap) f = snd (flush_write out a snap f)"
| "cache_do (OpPass out can ok align now) f = jan_pass out can ok align now f"
| "cache_do OpReconcile f = jan_reconcile f"
| "cache_do (OpInvalidate n) f = invalidateTree n f"
| "cache_do (OpClose out) f = cfs_close out f"

text \<open>The platform's alignment is positive, and the audit runs when it can read the metadata of every closed item.\<close>

fun op_ok :: "cacheOp \<Rightarrow> cfs \<Rightarrow> bool" where
  "op_ok (OpPass out can ok align now) f \<longleftrightarrow> 0 < align"
| "op_ok OpReconcile f \<longleftrightarrow> readable f"
| "op_ok _ f \<longleftrightarrow> True"

fun cache_run :: "cacheOp list \<Rightarrow> cfs \<Rightarrow> cfs option" where
  "cache_run [] f = Some f"
| "cache_run (op # ops) f = (if op_ok op f then cache_run ops (cache_do op f) else None)"

lemma books_do: "books f \<Longrightarrow> op_ok op f \<Longrightarrow> books (cache_do op f)"
  by (cases op) (auto intro: books_open books_lookup books_release books_touch books_writeNoOverwrite books_mirrorWrite
      books_truncate books_flush_snapshot books_flush_write books_pass books_reconcile books_invalidateTree books_close)

lemma books_run: "books f \<Longrightarrow> cache_run ops f = Some g \<Longrightarrow> books g"
  by (induction ops arbitrary: f) (auto split: if_splits intro: books_do)


text \<open>
  A cache directory with one file of an earlier run: the audit reads its metadata back; then two of the eight bytes
  of another file are filled, a third is mirrored, the file is closed and idle, and the janitor moves it to the index.
\<close>

definition demo_conf :: cacheConf where
  "demo_conf = \<lparr>cc_dir = ''/c'', cc_maxBytes = 0, cc_maxAge = 0, cc_chunkSize = 0, cc_readAhead = 0\<rparr>"

definition demo_disk :: cfs where
  "demo_disk = (newCFS demo_conf)\<lparr>cf_dataTree := [(''/c/data/b'', 0)], cf_nextFile := 1,
     cf_metaTree := [(''/c/meta/b.json'', Meta \<lparr>meta_size = 9, meta_atime = 1, meta_fingerprint = ''9,1'', meta_ranges = [(0, 5)]\<rparr>)]\<rparr>"

definition demo_stat :: finfo where
  "demo_stat = \<lparr>fi_isDir = False, fi_isSymlink = False, fi_mode = 0, fi_mtime = 7, fi_size = 8, fi_name = ''a''\<rparr>"

definition demo_ops :: "cacheOp list" where
  "demo_ops = [OpReconcile, OpOpen \<lparr>mkdirOK = True, openOK = True, truncOK = True\<rparr> FlushOK 10 ''/a'' demo_stat,
     OpFill (\<lambda>_. None) 0 [1, 2] 0, OpMirror None 0 [3] 5, OpRelease FlushOK 20 0,
     OpPass (\<lambda>_. FlushOK) True (\<lambda>_ _. True) 1 70000000000]"

lemma demo_load: "readable (jan_load demo_disk) \<and> cf_cachedBytes (jan_load demo_disk) = 5"
  by code_simp


end
