(* ===== verification/Cache_Punch.thy ===== *)
theory Cache_Punch
  imports Cache_Acct
begin

text \<open>
  Hole punching that stops at an error: the ranges punched before the error are gone from memory and from the data
  file, but the metadata on disk keeps claiming them.
\<close>

lemma cover_fold_insert:
  "rs_inv s \<Longrightarrow> rs_inv (foldl (\<lambda>s (p, n). rs_insert s \<lparr>pos = p, rsize = n\<rparr>) s xs) \<and>
    cover (foldl (\<lambda>s (p, n). rs_insert s \<lparr>pos = p, rsize = n\<rparr>) s xs) = cover s \<union> (\<Union>e \<in> set xs. {fst e ..< fst e + snd e})"
  by (induction xs arbitrary: s) (simp_all add: rs_inv_insert cover_insert span_def split_beta Un_assoc)

text \<open>A claimed range inside the file is present after its metadata is loaded.\<close>

lemma load_ranges_present:
  assumes "rs_inv s" "(pos r, rsize r) \<in> set (meta_ranges m)" "rend r \<le> sz"
  shows "rs_present (load_ranges m sz s) r"
proof -
  note c = cover_fold_insert [OF assms(1), of "meta_ranges m"]
  have "span r \<subseteq> cover (load_ranges m sz s)"
    using c assms(2,3) by (force simp: load_ranges_def cover_remove span_def rend_def)
  then show ?thesis using rs_inv_load [OF assms(1)] by (simp add: rs_present_iff)
qed

lemma punch_first:
  assumes "isLive (cf_items f a)" "it_fd (cf_items f a) = Some i" "it_rs (cf_items f a) = r # q # rs"
    and "0 < rsize r" "0 < rsize q" "rend r \<le> it_readHead (cf_items f a) - 268435456" "rend q \<le> it_readHead (cf_items f a) - 268435456"
    and "0 < it_readHead (cf_items f a) - 268435456" "ok r" "\<not> ok q"
  shows "punchItem ok 1 a f = (let h = addBytes (- rsize r) (upd_item a (\<lambda>x. x\<lparr>it_rs := rs_remove (it_rs x) r\<rparr>) (upd_file i (f_punch r) f))
    in h\<lparr>cf_punchedBytes := cf_punchedBytes h + rsize r\<rparr>)"
  using assms by (simp add: punchItem_def alignPunch_def upd_item_file_def isLive_def Let_def)

text \<open>
  C20. A failed hole punch leaves metadata that claims punched bytes. Let a live item have flushed its metadata, so it
  is not dirty and the file on disk claims a range \<open>r\<close>, and let the janitor punch \<open>r\<close> and then fail on the next range.
  The function returns without marking the item dirty: \<open>r\<close> reads as zeros in the data file and is absent in memory,
  yet neither a flush nor the orderly shutdown of the item writes anything. The next item that loads this metadata
  with the same fingerprint takes \<open>r\<close> for present, and its file holds zeros there.
\<close>

theorem punch_error_keeps_claim:
  assumes "isLive (cf_items f a)" "\<not> it_dirty (cf_items f a)" "it_fd (cf_items f a) = Some i"
    and "it_rs (cf_items f a) = r # q # rs" "rs_inv (r # q # rs)"
    and "0 < it_readHead (cf_items f a) - 268435456" "rend q \<le> it_readHead (cf_items f a) - 268435456" "ok r" "\<not> ok q"
    and "loadMeta mp f = Inr m" "(pos r, rsize r) \<in> set (meta_ranges m)"
    and "h = item_shutdown out a (punchItem ok 1 a f)"
    and "it_fpr (cf_items h b) = meta_fingerprint m" "it_rs (cf_items h b) = []" "rend r \<le> it_size (cf_items h b)"
  shows "\<not> hasRange a r (punchItem ok 1 a f) \<and>
    (\<forall>x. pos r \<le> x \<and> x < rend r \<longrightarrow> f_data (cf_files h i) x = 0) \<and>
    cf_metaTree h = cf_metaTree f \<and> cf_dataTree h = cf_dataTree f \<and>
    hasRange b r (load_meta b mp h) \<and> cf_files (load_meta b mp h) i = cf_files h i"
proof -
  let ?g = "punchItem ok 1 a f"
  have sizes: "0 < rsize r" "0 < rsize q" "rend r \<le> it_readHead (cf_items f a) - 268435456"
    using assms(5,7) by (auto simp: rend_def)
  have g: "?g = (let k = addBytes (- rsize r) (upd_item a (\<lambda>x. x\<lparr>it_rs := rs_remove (it_rs x) r\<rparr>) (upd_file i (f_punch r) f))
      in k\<lparr>cf_punchedBytes := cf_punchedBytes k + rsize r\<rparr>)"
    using assms sizes by (intro punch_first) simp_all
  have gs: "cf_items ?g a = (cf_items f a)\<lparr>it_rs := rs_remove (it_rs (cf_items f a)) r\<rparr>" "cf_files ?g i = f_punch r (cf_files f i)"
    "cf_metaTree ?g = cf_metaTree f" "cf_dataTree ?g = cf_dataTree f"
    unfolding g Let_def by simp_all
  have flush: "flushMeta out a ?g = (True, ?g)" using assms(2) by (simp add: flushMeta_def flush_snapshot_def gs(1))
  have hs: "cf_files h i = cf_files ?g i" "cf_metaTree h = cf_metaTree f" "cf_dataTree h = cf_dataTree f"
    unfolding assms(12) by (simp_all add: item_shutdown_def flush Let_def jan_remember_def gs)
  have inv: "rs_inv (it_rs (cf_items f a))" using assms(4,5) by simp
  have "pos r \<in> span r" using sizes(1) by (simp add: rend_def)
  then have "\<not> span r \<subseteq> cover (it_rs (cf_items f a)) - span r" by blast
  then have "\<not> hasRange a r ?g" using inv by (simp add: hasRange_def gs(1) rs_present_iff rs_inv_remove cover_remove)
  moreover have "loadMeta mp h = Inr m" using assms(10) hs(2) by (simp add: loadMeta_def)
  then have "hasRange b r (load_meta b mp h)" "cf_files (load_meta b mp h) i = cf_files h i"
    using load_ranges_present [of "[]" r m] assms(11,13-15) by (simp_all add: load_meta_def hasRange_def)
  ultimately show ?thesis using hs gs(2) by (simp add: f_punch_def)
qed

definition punch_item :: item where
  "punch_item = (newItem ''/a'')\<lparr>it_opens := 1, it_loaded := True, it_fd := Some 0, it_size := 536870912, it_fpr := ''536870912,7'',
     it_readHead := 268435464, it_rs := [\<lparr>pos = 0, rsize = 2\<rparr>, \<lparr>pos = 4, rsize = 2\<rparr>]\<rparr>"

definition punch_meta :: metaJSON where
  "punch_meta = \<lparr>meta_size = 536870912, meta_atime = 1, meta_fingerprint = ''536870912,7'', meta_ranges = [(0, 2), (4, 2)]\<rparr>"

text \<open>Item 1 stands for the open that follows: loaded with the same fingerprint, no range yet.\<close>

definition punch_state :: cfs where
  "punch_state = (newCFS \<lparr>cc_dir = ''/c'', cc_maxBytes = 1, cc_maxAge = 0, cc_chunkSize = 0, cc_readAhead = 0\<rparr>)
     \<lparr>cf_items := (\<lambda>a. if a = 0 then punch_item else (newItem ''/a'')\<lparr>it_size := 536870912, it_fpr := ''536870912,7''\<rparr>), cf_nextItem := 2,
      cf_files := (\<lambda>_. \<lparr>f_len = 536870912, f_data = (\<lambda>_. 90)\<rparr>), cf_nextFile := 1,
      cf_dataTree := [(''/c/data/a'', 0)], cf_metaTree := [(''/c/meta/a.json'', Meta punch_meta)], cf_cachedBytes := 4\<rparr>"

lemma punch_state_sel:
  "cf_items punch_state 0 = punch_item" "cf_items punch_state 1 = (newItem ''/a'')\<lparr>it_size := 536870912, it_fpr := ''536870912,7''\<rparr>"
  "loadMeta ''/c/meta/a.json'' punch_state = Inr punch_meta"
  by (simp_all add: punch_state_def newCFS_def loadMeta_def punch_meta_def)

lemma punch_other_item: "b \<noteq> a \<Longrightarrow> cf_items (item_shutdown out a f) b = cf_items (snd (flushMeta out a f)) b"
  by (simp add: item_shutdown_def Let_def jan_remember_def)

theorem punch_error_keeps_claim_witness:
  "\<not> hasRange 0 \<lparr>pos = 0, rsize = 2\<rparr> (punchItem (\<lambda>r. pos r = 0) 1 0 punch_state) \<and>
   f_data (cf_files punch_state 0) 1 = 90 \<and>
   (let h = item_shutdown FlushOK 0 (punchItem (\<lambda>r. pos r = 0) 1 0 punch_state)
    in f_data (cf_files h 0) 1 = 0 \<and> hasRange 1 \<lparr>pos = 0, rsize = 2\<rparr> (load_meta 1 ''/c/meta/a.json'' h))"
proof -
  let ?ok = "\<lambda>r. pos r = 0" and ?r = "\<lparr>pos = 0, rsize = 2\<rparr>" and ?q = "\<lparr>pos = 4, rsize = 2\<rparr>"
  let ?g = "punchItem ?ok 1 0 punch_state"
  let ?h = "item_shutdown FlushOK 0 ?g"
  note defs = punch_state_sel punch_item_def newItem_def isLive_def
  have g: "?g = (let h = addBytes (- rsize ?r) (upd_item 0 (\<lambda>x. x\<lparr>it_rs := rs_remove (it_rs x) ?r\<rparr>) (upd_file 0 (f_punch ?r) punch_state))
    in h\<lparr>cf_punchedBytes := cf_punchedBytes h + rsize ?r\<rparr>)"
    by (rule punch_first [of _ _ _ _ ?q "[]"]) (simp_all add: defs)
  have "cf_items (snd (flushMeta FlushOK 0 ?g)) 1 = cf_items punch_state 1"
    unfolding g Let_def by (simp add: flushMeta_def flush_snapshot_def defs)
  then have h1: "cf_items ?h 1 = cf_items punch_state 1" by (simp add: punch_other_item)
  have "\<not> hasRange 0 ?r ?g \<and> (\<forall>x. pos ?r \<le> x \<and> x < rend ?r \<longrightarrow> f_data (cf_files ?h 0) x = 0) \<and>
      cf_metaTree ?h = cf_metaTree punch_state \<and> cf_dataTree ?h = cf_dataTree punch_state \<and>
      hasRange 1 ?r (load_meta 1 ''/c/meta/a.json'' ?h) \<and> cf_files (load_meta 1 ''/c/meta/a.json'' ?h) 0 = cf_files ?h 0"
    by (rule punch_error_keeps_claim [where q = ?q and rs = "[]" and m = punch_meta and out = FlushOK])
      (simp_all only: h1, simp_all add: defs punch_meta_def del: One_nat_def)
  then show ?thesis by (simp add: Let_def punch_state_def)
qed

end
