(* ===== verification/Cache_Read.thy ===== *)
theory Cache_Read
  imports Cache_Acct
begin

text \<open>
  What a reader of a cached item gets. An item is coherent with the backend's content when every byte its range set
  claims is on disk as the backend has it. Fills, mirror writes and hole punches keep that, whatever fails, and a
  read that succeeds returns the backend's bytes.
\<close>

section \<open>Coherence\<close>

definition coherent :: "(int \<Rightarrow> byte) \<Rightarrow> nat \<Rightarrow> cfs \<Rightarrow> bool" where
  "coherent B a f \<longleftrightarrow> rs_inv (it_rs (cf_items f a)) \<and>
     (\<forall>i. it_fd (cf_items f a) = Some i \<longrightarrow> (\<forall>x \<in> cover (it_rs (cf_items f a)). f_data (cf_files f i) x = B x))"

lemma coherentI:
  "rs_inv (it_rs (cf_items f a)) \<Longrightarrow>
    (\<And>i x. it_fd (cf_items f a) = Some i \<Longrightarrow> x \<in> cover (it_rs (cf_items f a)) \<Longrightarrow> f_data (cf_files f i) x = B x) \<Longrightarrow> coherent B a f"
  by (simp add: coherent_def)

lemma coherent_inv: "coherent B a f \<Longrightarrow> rs_inv (it_rs (cf_items f a))"
  by (simp add: coherent_def)

lemma coherent_byte:
  "coherent B a f \<Longrightarrow> it_fd (cf_items f a) = Some i \<Longrightarrow> x \<in> cover (it_rs (cf_items f a)) \<Longrightarrow> f_data (cf_files f i) x = B x"
  by (simp add: coherent_def)

text \<open>The content after a write: what the backend acknowledged.\<close>

definition overwrite :: "bytes \<Rightarrow> int \<Rightarrow> (int \<Rightarrow> byte) \<Rightarrow> int \<Rightarrow> byte" where
  "overwrite p off B = (\<lambda>x. if off \<le> x \<and> x < off + int (length p) then p ! nat (x - off) else B x)"

lemma f_data_write: "f_data (f_write p off g) x = overwrite p off (f_data g) x"
  by (auto simp: f_write_def overwrite_def)

section \<open>Reads\<close>

text \<open>
  Other goroutines keep the item coherent, and between a read and the check that follows it nothing is added to the
  range set: what is present at the check was present at the read.
\<close>

definition quiet :: "(int \<Rightarrow> byte) \<Rightarrow> nat \<Rightarrow> others \<Rightarrow> bool" where
  "quiet B a ot \<longleftrightarrow>
     (\<forall>k r f. coherent B a f \<longrightarrow> coherent B a (snd (ot_download ot k r f))) \<and>
     (\<forall>k f. coherent B a f \<longrightarrow> coherent B a (ot_checked ot k f)) \<and>
     (\<forall>k f. coherent B a f \<longrightarrow> coherent B a (ot_read ot k f) \<and> cover (it_rs (cf_items (ot_read ot k f) a)) \<subseteq> cover (it_rs (cf_items f a)))"

lemma fd_ReadAt_data:
  assumes "coherent B a f" "fd_ReadAt a r f = Inr p" "span r \<subseteq> cover (it_rs (cf_items f a))"
  shows "p = map (\<lambda>i. B (pos r + int i)) [0..<nat (rsize r)]"
proof -
  obtain i where i: "it_fd (cf_items f a) = Some i" "p = f_read (pos r) (rsize r) (cf_files f i)"
    using assms(2) by (auto simp: fd_ReadAt_def item_file_def split: if_splits)
  have "f_data (cf_files f i) (pos r + int k) = B (pos r + int k)" if "k < nat (rsize r)" for k
    using that assms(3) by (intro coherent_byte [OF assms(1) i(1)]) (auto simp: span_def rend_def)
  then show ?thesis by (simp add: i(2) f_read_def)
qed

text \<open>One round either answers or goes on from the state the second check saw.\<close>

lemma read_round:
  assumes "read_loop ot warm left a r f = (Inr (p, w), g)"
  defines "f2 \<equiv> ot_checked ot left (if hasRange a r f then f else snd (ot_download ot left r f))"
  defines "f3 \<equiv> ot_read ot left f2"
  shows "fd_ReadAt a r f2 = Inr p \<and> hasRange a r f3 \<or>
    (\<exists>warm' left'. left = Suc left' \<and> read_loop ot warm' left' a r f3 = (Inr (p, w), g))"
  using assms(1) unfolding f2_def f3_def
  by (subst (asm) read_loop.simps) (auto simp: Let_def split: if_splits prod.splits option.splits sum.splits nat.splits)

lemma read_loop_data:
  assumes "quiet B a ot" "coherent B a f" "read_loop ot warm left a r f = (Inr (p, w), g)"
  shows "p = map (\<lambda>i. B (pos r + int i)) [0..<nat (rsize r)]"
  using assms(2,3)
proof (induction left arbitrary: warm f rule: less_induct)
  case (less left warm f)
  define f2 where "f2 = ot_checked ot left (if hasRange a r f then f else snd (ot_download ot left r f))"
  define f3 where "f3 = ot_read ot left f2"
  have f2: "coherent B a f2" using assms(1) less.prems(1) by (simp add: f2_def quiet_def)
  have f3: "coherent B a f3" "cover (it_rs (cf_items f3 a)) \<subseteq> cover (it_rs (cf_items f2 a))"
    using assms(1) f2 by (simp_all add: f3_def quiet_def)
  from read_round [OF less.prems(2), folded f2_def, folded f3_def] show ?case
  proof
    assume p: "fd_ReadAt a r f2 = Inr p \<and> hasRange a r f3"
    then have "span r \<subseteq> cover (it_rs (cf_items f3 a))" using coherent_inv [OF f3(1)] by (simp add: hasRange_def rs_present_iff)
    then show ?thesis using fd_ReadAt_data [OF f2] p f3(2) by blast
  qed (use less.IH f3(1) in blast)
qed

section \<open>Fills, mirror writes and punches\<close>

lemma files_upd_item_file: "it_fd (cf_items f a) = Some i \<Longrightarrow> cf_files (upd_item_file a g f) i = g (cf_files f i)"
  by (simp add: upd_item_file_def)

lemma write_missing_keeps:
  "cf_items (snd (write_missing wr a p off ms f)) = cf_items f"
  using write_missing_same [of f wr a p off ms] by (simp add: same_books_def)

text \<open>A range outside the missing ones keeps its bytes; when all writes succeed the missing ones hold the new bytes.\<close>

lemma write_missing_data:
  assumes "it_fd (cf_items f a) = Some i" "rs_inv ms" "\<forall>m \<in> set ms. off \<le> pos m \<and> rend m \<le> off + int (length p)"
  shows "x \<notin> cover ms \<Longrightarrow> f_data (cf_files (snd (write_missing wr a p off ms f)) i) x = f_data (cf_files f i) x"
    and "fst (write_missing wr a p off ms f) \<Longrightarrow> x \<in> cover ms \<Longrightarrow>
      f_data (cf_files (snd (write_missing wr a p off ms f)) i) x = p ! nat (x - off)"
proof -
  have "(x \<notin> cover ms \<longrightarrow> f_data (cf_files (snd (write_missing wr a p off ms f)) i) x = f_data (cf_files f i) x) \<and>
    (fst (write_missing wr a p off ms f) \<longrightarrow> x \<in> cover ms \<longrightarrow>
      f_data (cf_files (snd (write_missing wr a p off ms f)) i) x = p ! nat (x - off))"
    using assms
  proof (induction ms arbitrary: f)
    case (Cons m ms)
    let ?q = "take (nat (rsize m)) (drop (nat (pos m - off)) p)"
    have m: "off \<le> pos m" "rend m \<le> off + int (length p)" "0 < rsize m" using Cons.prems by simp_all
    have len: "int (length ?q) = rsize m" using m by (simp add: rend_def)
    have part: "f_data (f_write (take k ?q) (pos m) g) x = f_data g x" if "x \<notin> span m" for k g
      using that len by (auto simp: f_data_write overwrite_def rend_def)
    have full: "f_data (f_write ?q (pos m) g) x = (if x \<in> span m then p ! nat (x - off) else f_data g x)" for g
    proof (cases "x \<in> span m")
      case True
      then have "nat (x - pos m) < length ?q" "nat (pos m - off) + nat (x - pos m) = nat (x - off)" using len m(1) by (auto simp: rend_def)
      moreover have "nat (x - pos m) < nat (rsize m)" using True by (auto simp: rend_def)
      moreover have "nat (pos m - off) \<le> length p" using m by (simp add: rend_def)
      ultimately have "?q ! nat (x - pos m) = p ! nat (x - off)" by simp
      then show ?thesis using True len by (simp add: f_data_write overwrite_def rend_def del: nth_take take_drop)
    next
      case False
      then show ?thesis using len by (auto simp: f_data_write overwrite_def rend_def)
    qed
    let ?g = "upd_item_file a (f_write ?q (pos m)) f"
    have fg: "cf_files ?g i = f_write ?q (pos m) (cf_files f i)" using Cons.prems(1) by (simp add: upd_item_file_def)
    show ?case
    proof (cases "wr m")
      case None
      have ih: "(x \<notin> cover ms \<longrightarrow> f_data (cf_files (snd (write_missing wr a p off ms ?g)) i) x = f_data (cf_files ?g i) x) \<and>
        (fst (write_missing wr a p off ms ?g) \<longrightarrow> x \<in> cover ms \<longrightarrow>
          f_data (cf_files (snd (write_missing wr a p off ms ?g)) i) x = p ! nat (x - off))"
        using Cons.prems by (intro Cons.IH) simp_all
      then show ?thesis using None full [of "cf_files f i"]
        by (cases "x \<in> cover ms"; cases "x \<in> span m") (auto simp: Let_def fg simp del: take_drop split: if_splits)
    next
      case (Some e)
      then show ?thesis using part [where g = "cf_files f i"] Cons.prems(1)
        by (cases e) (auto simp: Let_def upd_item_file_def kickNow_def)
    qed
  qed simp
  then show "x \<notin> cover ms \<Longrightarrow> f_data (cf_files (snd (write_missing wr a p off ms f)) i) x = f_data (cf_files f i) x"
    and "fst (write_missing wr a p off ms f) \<Longrightarrow> x \<in> cover ms \<Longrightarrow>
      f_data (cf_files (snd (write_missing wr a p off ms f)) i) x = p ! nat (x - off)" by blast+
qed

lemma coherent_fill_range:
  assumes B: "coherent B a f" and fresh: "\<And>k. k < length p \<Longrightarrow> p ! k = B (off + int k)"
    and r: "pos r = off" "rend r \<le> off + int (length p)"
  shows "coherent B a (snd (fill_range wr a p off r f))"
proof -
  define s where "s = it_rs (cf_items f a)"
  have inv: "rs_inv s" using coherent_inv [OF B] by (simp add: s_def)
  obtain ms where ms: "missingWithin s r [] = Some ms" "rs_inv ms" "cover ms = {pos r ..< rend r} - cover s"
      "\<forall>y \<in> set ms. pos r \<le> pos y \<and> rend y \<le> rend r"
    using missing_loop_correct [OF inv, of "rend r" "pos r" "[]"] by (auto simp: missingWithin_def)
  have within: "\<forall>m \<in> set ms. off \<le> pos m \<and> rend m \<le> off + int (length p)" using ms(4) r by fastforce
  obtain ok g where g: "write_missing wr a p off ms f = (ok, g)" by (cases "write_missing wr a p off ms f")
  have items: "cf_items g = cf_items f" using write_missing_keeps [of wr a p off ms f] g by simp
  have old: "f_data (cf_files g i) x = B x" if "it_fd (cf_items f a) = Some i" "x \<in> cover s" for i x
    using write_missing_data(1) [OF that(1) ms(2) within, of x wr] that ms(3) coherent_byte [OF B that(1)] g by (simp add: s_def)
  have new: "f_data (cf_files g i) x = B x" if "it_fd (cf_items f a) = Some i" "ok" "x \<in> cover s \<union> span r" for i x
  proof (cases "x \<in> cover s")
    case False
    then have x: "x \<in> cover ms" "off \<le> x" "x < off + int (length p)" using that(3) ms(3) r by auto
    then have "f_data (cf_files g i) x = p ! nat (x - off)" using write_missing_data(2) [OF that(1) ms(2) within, of wr x] that(2) g by simp
    then show ?thesis using fresh [of "nat (x - off)"] x by simp
  qed (use old that in blast)
  let ?rs = "rs_insert s r"
  let ?k = "addBytes (rs_size ?rs - rs_size s) (upd_item a (\<lambda>x. x\<lparr>it_rs := ?rs\<rparr>) g)"
  have fail: "coherent B a g" by (rule coherentI) (use old inv items in \<open>simp_all add: s_def\<close>)
  have good: "coherent B a ?k" "coherent B a (upd_item a (\<lambda>x. x\<lparr>it_dirty := True, it_needSync := True\<rparr>) ?k)" if "ok"
    by (rule coherentI; use new that inv items in \<open>simp add: rs_inv_insert cover_insert\<close>)+
  show ?thesis using fail good
    by (simp add: fill_range_def Let_def s_def [symmetric] ms(1) g)
qed

lemma coherent_fill:
  assumes "coherent B a f" "\<And>k. k < length p \<Longrightarrow> p ! k = B (off + int k)"
  shows "coherent B a (snd (writeNoOverwrite wr a p off f))"
  using assms coherent_fill_range [OF assms]
  by (auto simp: writeNoOverwrite_def Let_def rend_def)

lemma coherent_mirror:
  assumes B: "coherent B a f" and live: "isLive (cf_items f a)" and "0 \<le> off"
  shows "coherent (overwrite p off B) a (mirrorWrite wr a p off f)"
proof (cases "p = []")
  case True
  then have "overwrite p off B = B" by (auto simp: overwrite_def fun_eq_iff)
  then show ?thesis using B True by (simp add: mirrorWrite_def Let_def)
next
  case False
  let ?r = "\<lparr>pos = off, rsize = int (length p)\<rparr>"
  have inv: "rs_inv (it_rs (cf_items f a))" using coherent_inv [OF B] .
  note byte = coherent_byte [OF B]
  show ?thesis
  proof (cases wr)
    case None
    show ?thesis
      by (rule coherentI; use False live None inv byte assms(3) in
        \<open>auto simp: mirrorWrite_def Let_def isLive_def rs_inv_insert cover_insert files_upd_item_file f_data_write overwrite_def\<close>)
  next
    case (Some k)
    show ?thesis
      by (rule coherentI; use False live Some inv byte assms(3) in
        \<open>auto simp: mirrorWrite_def Let_def isLive_def rs_inv_remove cover_remove files_upd_item_file f_data_write overwrite_def\<close>)
  qed
qed

lemma coherent_punch_loop:
  "coherent B a f \<Longrightarrow> coherent B a (snd (punch_loop ok align a rs b f))"
proof (induction rs arbitrary: b f)
  case (Cons r rs)
  let ?r = "alignPunch align r"
  let ?h = "addBytes (- rsize ?r) (upd_item a (\<lambda>x. x\<lparr>it_rs := rs_remove (it_rs x) ?r\<rparr>) (upd_item_file a (f_punch ?r) f))"
  have "coherent B a (?h\<lparr>cf_punchedBytes := n\<rparr>)" for n
    by (rule coherentI) (use coherent_inv [OF Cons.prems] coherent_byte [OF Cons.prems] in
      \<open>auto simp: rs_inv_remove cover_remove files_upd_item_file f_punch_def\<close>)
  then show ?case using Cons by (simp add: Let_def)
qed simp

lemma coherent_punch: "coherent B a f \<Longrightarrow> coherent B a (punchItem ok align a f)"
proof -
  assume f: "coherent B a f"
  have dirty: "coherent B a (upd_item a (\<lambda>x. x\<lparr>it_dirty := True\<rparr>) g)" if "coherent B a g" for g
    using that by (simp add: coherent_def)
  obtain e g where g: "punch_loop ok align a (behind (it_readHead (cf_items f a) - 268435456) (it_rs (cf_items f a))) False f = (e, g)"
    by (cases "punch_loop ok align a (behind (it_readHead (cf_items f a) - 268435456) (it_rs (cf_items f a))) False f")
  then have "coherent B a g" using coherent_punch_loop [OF f] by (metis snd_conv)
  then show ?thesis using f dirty by (auto simp: punchItem_def Let_def g split: option.split)
qed

section \<open>The cache serves the backend's bytes\<close>

text \<open>
  C3. A cached read returns the backend's bytes. Let the item be coherent with the backend's content \<open>B\<close> and let the
  other goroutines keep it so, adding nothing to the range set between a read and the check after it. Whatever else
  they do, whenever \<^verbatim>\<open>readAt\<close> returns bytes, they are the bytes of \<open>B\<close> at that offset, exactly as many as the buffer
  and the item's size allow, with end of file reported exactly when the buffer was not filled.
\<close>

theorem cached_read_serves_backend:
  assumes "quiet B a ot" "coherent B a f" "fst (item_readAt ot now a len off f) = (p, e)" "p \<noteq> []"
  shows "int (length p) = min (int len) (it_size (cf_items f a) - off) \<and> p = map (\<lambda>i. B (off + int i)) [0..<length p] \<and>
    (e = None \<or> e = Some EOF) \<and> (e = Some EOF \<longleftrightarrow> length p < len)"
proof -
  define n where "n = (if off + int len > it_size (cf_items f a) then it_size (cf_items f a) - off else int len)"
  obtain res g where g: "read_loop ot True 3 a \<lparr>pos = off, rsize = n\<rparr> f = (res, g)" by fastforce
  have off: "0 \<le> off" "off < it_size (cf_items f a)"
    using assms(3,4) by (auto simp: item_readAt_def Let_def split: if_splits)
  then obtain w where res: "res = Inr (p, w)" and e: "e = (if n < int len then Some EOF else None)"
    using assms(3,4) g by (auto simp: item_readAt_def Let_def n_def [symmetric] split: sum.splits)
  have p: "p = map (\<lambda>i. B (off + int i)) [0..<nat n]" using read_loop_data [OF assms(1,2)] g res by fastforce
  have "0 \<le> n" "n = min (int len) (it_size (cf_items f a) - off)" using off by (auto simp: n_def)
  moreover have "int (length p) = n" using p \<open>0 \<le> n\<close> by simp
  ultimately show ?thesis using p e by auto
qed

text \<open>
  An item of four bytes, all on disk, read by a reader while the janitor punches what it may after each read; its
  read head is far enough for the first two bytes to go.
\<close>

definition read_state :: cfs where
  "read_state = (newCFS \<lparr>cc_dir = ''/c'', cc_maxBytes = 1, cc_maxAge = 0, cc_chunkSize = 0, cc_readAhead = 0\<rparr>)
     \<lparr>cf_items := (\<lambda>_. (newItem ''/a'')\<lparr>it_opens := 1, it_loaded := True, it_fd := Some 0, it_size := 4, it_readHead := 268435458,
         it_rs := [\<lparr>pos = 0, rsize = 4\<rparr>]\<rparr>),
      cf_nextItem := 1, cf_files := (\<lambda>_. \<lparr>f_len = 4, f_data = (\<lambda>x. word_of_int (x + 7))\<rparr>), cf_nextFile := 1\<rparr>"

definition read_others :: others where
  "read_others = \<lparr>ot_download = (\<lambda>_ _ f. (None, f)), ot_checked = (\<lambda>_ f. f),
     ot_read = (\<lambda>_. punchItem (\<lambda>_. True) 1 0), ot_async = (\<lambda>_ f. f)\<rparr>"

lemma read_state_coherent: "coherent (\<lambda>x. word_of_int (x + 7)) 0 read_state"
  by (simp add: coherent_def read_state_def)

lemma punch_shrinks:
  assumes "coherent B a f"
  shows "cover (it_rs (cf_items (punchItem ok align a f) a)) \<subseteq> cover (it_rs (cf_items f a))"
proof -
  have loop: "cover (it_rs (cf_items (snd (punch_loop ok align a rs b g)) a)) \<subseteq> cover (it_rs (cf_items g a))"
    if "rs_inv (it_rs (cf_items g a))" for rs b g
    using that
  proof (induction rs arbitrary: b g)
    case (Cons r rs)
    let ?r = "alignPunch align r"
    let ?h = "addBytes (- rsize ?r) (upd_item a (\<lambda>x. x\<lparr>it_rs := rs_remove (it_rs x) ?r\<rparr>) (upd_item_file a (f_punch ?r) g))"
    let ?k = "?h\<lparr>cf_punchedBytes := cf_punchedBytes ?h + rsize ?r\<rparr>"
    have "it_rs (cf_items ?k a) = rs_remove (it_rs (cf_items g a)) ?r" by simp
    then have "cover (it_rs (cf_items (snd (punch_loop ok align a rs True ?k)) a)) \<subseteq> cover (it_rs (cf_items g a))"
      using Cons.IH [of ?k True] Cons.prems rs_inv_remove [OF Cons.prems, of ?r] cover_remove [OF Cons.prems, of ?r] by auto
    then show ?case using Cons by (simp add: Let_def)
  qed simp
  obtain e g where g: "punch_loop ok align a (behind (it_readHead (cf_items f a) - 268435456) (it_rs (cf_items f a))) False f = (e, g)"
    by (cases "punch_loop ok align a (behind (it_readHead (cf_items f a) - 268435456) (it_rs (cf_items f a))) False f")
  then have "cover (it_rs (cf_items g a)) \<subseteq> cover (it_rs (cf_items f a))" using loop [OF coherent_inv [OF assms]] by (metis snd_conv)
  then show ?thesis by (auto simp: punchItem_def Let_def g split: option.split)
qed

lemma read_others_quiet: "quiet B 0 read_others"
  using coherent_punch punch_shrinks by (simp add: quiet_def read_others_def)

lemma read_example:
  "fst (item_readAt read_others 1 0 5 2 read_state) = ([9, 10], Some EOF)"
  by code_simp

theorem cached_read_serves_backend_witness:
  "quiet (\<lambda>x. word_of_int (x + 7)) 0 read_others \<and> coherent (\<lambda>x. word_of_int (x + 7)) 0 read_state \<and>
   fst (item_readAt read_others 1 0 5 2 read_state) = ([9, 10], Some EOF) \<and>
   [9, 10 :: byte] = map (\<lambda>i. word_of_int (2 + int i + 7)) [0..<2]"
  using cached_read_serves_backend [OF read_others_quiet read_state_coherent read_example] read_others_quiet read_state_coherent read_example
  by (simp add: upt_rec)

text \<open>
  C5. Updates of a cached item keep it coherent. Storing bytes fetched from the backend as it is now, mirroring a write
  the backend acknowledged, and punching holes keep every claimed byte equal to the backend's, on every branch:
  bytes already present, fills clipped at the end of the file, writes that fail half way, punches that fail.
\<close>

theorem cache_updates_coherent:
  assumes "coherent B a f" "isLive (cf_items f a)" "0 \<le> off"
  shows "((\<forall>k < length p. p ! k = B (off + int k)) \<longrightarrow> coherent B a (snd (writeNoOverwrite wr a p off f))) \<and>
    coherent (overwrite p off B) a (mirrorWrite w a p off f) \<and> coherent B a (punchItem ok align a f)"
  using coherent_fill [OF assms(1), of p off wr] coherent_mirror [OF assms, of p w] coherent_punch [OF assms(1)] by blast

theorem cache_updates_coherent_witness:
  "isLive (cf_items read_state 0) \<and> coherent (\<lambda>x. word_of_int (x + 7)) 0 read_state \<and>
   coherent (\<lambda>x. word_of_int (x + 7)) 0 (snd (writeNoOverwrite (\<lambda>_. None) 0 [9, 10] 2 read_state)) \<and>
   coherent (overwrite [9, 10] 2 (\<lambda>x. word_of_int (x + 7))) 0 (mirrorWrite (Some 1) 0 [9, 10] 2 read_state) \<and>
   coherent (\<lambda>x. word_of_int (x + 7)) 0 (punchItem (\<lambda>_. True) 1 0 read_state)"
proof -
  have live: "isLive (cf_items read_state 0)" by (simp add: isLive_def read_state_def newItem_def)
  have fresh: "\<forall>k < length [9, 10 :: byte]. [9, 10] ! k = (word_of_int (2 + int k + 7) :: byte)" by (simp add: All_less_Suc numeral_2_eq_2)
  show ?thesis
    using cache_updates_coherent [OF read_state_coherent live, of 2 "[9, 10]" "\<lambda>_. None" "Some 1" "\<lambda>_. True" 1] fresh live read_state_coherent
    by simp
qed

section \<open>A refill hides a punch\<close>

text \<open>The janitor punches after the presence check; another reader's fill stores the backend's bytes again after the read.\<close>

definition race_others :: others where
  "race_others = \<lparr>ot_download = (\<lambda>_ _ f. (None, f)), ot_checked = (\<lambda>_. punchItem (\<lambda>_. True) 1 0),
     ot_read = (\<lambda>_ f. snd (writeNoOverwrite (\<lambda>_. None) 0 [7, 8] 0 f)), ot_async = (\<lambda>_ f. f)\<rparr>"

lemma race_keeps_coherent:
  assumes "coherent (\<lambda>x. word_of_int (x + 7)) 0 f"
  shows "coherent (\<lambda>x. word_of_int (x + 7)) 0 (ot_checked race_others k f) \<and>
    coherent (\<lambda>x. word_of_int (x + 7)) 0 (ot_read race_others k f)"
proof -
  have "[7, 8 :: byte] ! j = word_of_int (0 + int j + 7)" if "j < length [7, 8 :: byte]" for j
    using that by (auto simp: less_Suc_eq numeral_2_eq_2)
  then show ?thesis using assms coherent_punch coherent_fill [OF assms, of "[7, 8]" 0] by (simp add: race_others_def)
qed


end
