(* ===== verification/Spec2Isabelle.thy ===== *)
theory Spec2Isabelle
  imports Range_Set Nfs_Safety Nfs_Rename_Clash Nfs_Seqid Cache_Books Cache_Punch Cache_Read
begin

text \<open>
  Verification of facetfs, a Go library that serves one \<^verbatim>\<open>FileSystem\<close> over several protocols. A backend implements
  the interfaces of \<^verbatim>\<open>fs.go\<close>; package \<^verbatim>\<open>nfs4\<close> serves it over NFSv4.0, \<^verbatim>\<open>smb\<close>, \<^verbatim>\<open>webdav\<close> and \<^verbatim>\<open>sftp\<close> over theirs; package
  \<^verbatim>\<open>facetcache\<close> wraps a backend with a cache on local disk. This development models the NFSv4 server and the content
  cache. File names below are relative to \<^verbatim>\<open>src/\<close>.

  \<^bold>\<open>Shared ground.\<close> \<open>Facet_Prelude\<close> names the machine types (a Go unsigned integer is a word of its width), models
  \<^verbatim>\<open>sort.Search\<close> and Go maps (association lists, visited in list order) and holds the lemmas on them. \<open>Go_Path\<close> models the
  functions of packages \<^verbatim>\<open>path\<close> and \<^verbatim>\<open>strings\<close> and \<^verbatim>\<open>internal/names\<close>. \<open>Interval_Spec\<close> states as locales what a set kept as
  ranges promises; \<open>Range_Set\<close> and \<open>Nfs_Ranges\<close> interpret them. \<open>Xdr\<close> is the codec of \<^verbatim>\<open>internal/xdr/xdr.go\<close> with its sticky
  decoder error: values round trip and the decoder never reads past its input.

  \<^bold>\<open>NFSv4 server.\<close> Pointers are addresses into heaps that are total functions, a record per Go struct. The clock
  reading and the backend are arguments: the file system interfaces are a record of functions on an abstract
  backend state. Each handler returns a status, its reply bytes and the new state.
  \<^item> \<open>Nfs_Const\<close>, \<open>Nfs_Ranges\<close> (range arithmetic of \<^verbatim>\<open>ops_lock.go\<close> at 64 bits), \<open>Nfs_State\<close> (\<^verbatim>\<open>state.go\<close>, \<^verbatim>\<open>lease.go\<close>),
    \<open>Nfs_Fh\<close> (\<^verbatim>\<open>fh.go\<close>; HMAC and SHA-256 are parameters), \<open>Nfs_Dir\<close> (\<^verbatim>\<open>dircache.go\<close>), \<open>Nfs_Rpc\<close> (record marking and callback
    messages of \<^verbatim>\<open>conn.go\<close>, \<^verbatim>\<open>callback.go\<close>), \<open>Nfs_Server\<close> (\<^verbatim>\<open>error.go\<close>, \<^verbatim>\<open>exclusive.go\<close>, \<^verbatim>\<open>file.go\<close>, \<^verbatim>\<open>server.go\<close>), \<open>Nfs_Attr\<close> (\<^verbatim>\<open>attr.go\<close>).
  \<^item> \<open>Nfs_Fh_Ops\<close>, \<open>Nfs_Lock_Ops\<close>, \<open>Nfs_Open_Ops\<close>, \<open>Nfs_Data_Ops\<close>: the handlers of \<^verbatim>\<open>ops_fh.go\<close>, \<^verbatim>\<open>ops_lock.go\<close>, \<^verbatim>\<open>ops_state.go\<close>,
    \<^verbatim>\<open>ops_mutation.go\<close>, \<^verbatim>\<open>ops_data.go\<close> and \<^verbatim>\<open>ops_io.go\<close>; \<open>Nfs_Compound\<close>: the operation table and the COMPOUND loop.
  \<^item> \<open>Nfs_Inv\<close>, \<open>Nfs_Inv_Open\<close>, \<open>Nfs_Inv_Held\<close>, \<open>Nfs_Inv_Drop\<close>, \<open>Nfs_Inv_Client\<close>, \<open>Nfs_Inv_Rename\<close>, \<open>Nfs_Inv_Ops\<close>, \<open>Nfs_Inv_Step\<close>: the
    invariant of the state store, kept by every primitive change and every handler of the table.
  \<^item> \<open>Nfs_Reach\<close>: the server as an inductive step relation; every reachable state satisfies the invariant. A step is
    taken while the 64-bit counters have room and a RENAME does not land on a path that still carries state.
    \<open>Nfs_Scenario\<close> runs a session with two clients, so that the properties have witnesses.
  \<^item> \<open>Nfs_Safety\<close>: share reservations and byte-range locks never conflict, read delegations are safe, stateids are well
    formed, limits hold, leases end, the path indexes answer exactly. \<open>Nfs_Seqid\<close>: requests run exactly once.
    \<open>Nfs_Rename_Clash\<close>: what happens when RENAME does land on such a path.

  \<^bold>\<open>Content cache.\<close> \<open>Range_Set\<close> is \<^verbatim>\<open>ranges.go\<close>: the set of bytes present, refined to a set of integers.
  \<open>Cache_Item\<close> is \<^verbatim>\<open>item.go\<close> with the configuration and core of \<^verbatim>\<open>cache.go\<close>; \<open>Cache_Janitor\<close> is \<^verbatim>\<open>janitor.go\<close> and the sweeps of
  \<^verbatim>\<open>fswrap.go\<close> and \<^verbatim>\<open>cache.go\<close>. Items and files on disk are heap objects, since handles outlive names; the sixteen registry
  shards are one map; offsets and sizes are integers. Every answer of the cache disk that may be a failure is an
  argument, so the theorems cover each of them. A flush is two steps, because the code drops the item lock between its
  snapshot and its write. What other goroutines do while a reader runs without the lock is an argument (\<open>others\<close>).
  \<^item> \<open>Cache_Paths\<close>: distinct rooted names have distinct files. \<open>Cache_Acct\<close>, \<open>Cache_Books\<close>: the byte counter is exact over every
    sequence of operations, and eviction reaches the budget or leaves only open names. The audit is assumed to find
    the metadata of closed items readable; the manifest says what happens otherwise.
  \<^item> \<open>Cache_Read\<close>: a read returns the backend's bytes, and fills, mirror writes and punches keep the item coherent, when
    fills carry current backend bytes and nothing is added between a read and its second check. The same theory
    shows the race that the last condition excludes.
  \<^item> \<open>Cache_Punch\<close>: a punch that fails after another succeeded leaves metadata that claims punched bytes.

  \<^bold>\<open>Bounds and fuel.\<close> The read loop counts down the three retries of the code. Loops that might not end are partial
  functions with a theorem that they return (\<open>missing_loop\<close>, the eviction loop of the directory cache). Everything
  else is total.

  \<^bold>\<open>Not modelled.\<close> Sockets, deadlines, goroutine scheduling, contexts and logging. Of \<^verbatim>\<open>facetcache\<close>: \<^verbatim>\<open>download.go\<close>, whose
  goroutines a reader sees as \<open>others\<close>; the attribute cache and the forwarding handles of \<^verbatim>\<open>attr.go\<close>, \<^verbatim>\<open>file.go\<close>, \<^verbatim>\<open>fswrap.go\<close>;
  the generated \<^verbatim>\<open>matrix_gen.go\<close>; the system calls of \<^verbatim>\<open>punch_*.go\<close>; directories of the cache tree. The backends \<^verbatim>\<open>memfs.go\<close>
  and \<^verbatim>\<open>dir.go\<close>, over which the servers are modelled abstractly. The servers \<^verbatim>\<open>smb\<close>, \<^verbatim>\<open>webdav\<close> and \<^verbatim>\<open>sftp\<close> and the programs under
  \<^verbatim>\<open>examples\<close>.
\<close>

end
